(* ===== verification/Prelude.thy ===== *)
theory Prelude
  imports Main "HOL-Library.Word"
begin

text \<open>
  Shared vocabulary of the development: the machine types of the Rust sources, the outcome of
  code that may panic, wrap-around arithmetic on \<open>usize\<close>, slices and little-endian byte
  strings, the classification of IEEE 754 binary64 bit patterns, and bit sets stored in arrays of
  64-bit words (the representation shared by the slot allocator, the dirty bitmap and the
  subscription bitmap).

  All definitions follow the release profile of the workspace (\<open>panic = "abort"\<close>, no overflow
  checks): fixed-width arithmetic wraps, \<open>debug_assert!\<close> is compiled out, and a panic ends the
  process.
\<close>

unbundle bit_operations_syntax

section \<open>Machine types\<close>

type_synonym u8 = "8 word"
type_synonym u16 = "16 word"
type_synonym u32 = "32 word"
type_synonym u64 = "64 word"

text \<open>
  A \<open>usize\<close> is a natural number below \<open>2 ^ 64\<close> (the targets are aarch64 and x86_64); an
  \<open>f64\<close> that is only moved, stored and classified is its bit pattern.
\<close>

type_synonym usize = nat
type_synonym f64 = "64 word"

named_theorems word_set_simps \<open>reading a bit set after an update\<close>
named_theorems codec_simps \<open>byte-level encoders and decoders\<close>
named_theorems outcome_simps \<open>running code that may panic\<close>

section \<open>Panics\<close>

text \<open>The result of running code that may panic: the value it returns, or an abort.\<close>

datatype 'a outcome = Ret 'a | Panic

fun bind_outcome :: "'a outcome \<Rightarrow> ('a \<Rightarrow> 'b outcome) \<Rightarrow> 'b outcome" where
  "bind_outcome (Ret x) f = f x"
| "bind_outcome Panic f = Panic"

lemma bind_outcome_Ret_iff [outcome_simps]:
  "bind_outcome m f = Ret y \<longleftrightarrow> (\<exists>x. m = Ret x \<and> f x = Ret y)"
  by (cases m) auto

lemma bind_outcome_Panic_iff [outcome_simps]:
  "bind_outcome m f = Panic \<longleftrightarrow> m = Panic \<or> (\<exists>x. m = Ret x \<and> f x = Panic)"
  by (cases m) auto

text \<open>Array indexing \<open>xs[i]\<close>: a panic out of range.\<close>

definition index :: "'a list \<Rightarrow> nat \<Rightarrow> 'a outcome" where
  "index xs i = (if i < length xs then Ret (xs ! i) else Panic)"

text \<open>Slicing \<open>xs[a..b]\<close>: a panic when the range is not inside the list.\<close>

definition slice_of :: "'a list \<Rightarrow> nat \<Rightarrow> nat \<Rightarrow> 'a list outcome" where
  "slice_of xs a b = (if a \<le> b \<and> b \<le> length xs then Ret (take (b - a) (drop a xs)) else Panic)"

text \<open>\<open>xs.get(a..b)\<close>: \<open>None\<close> when the range is not inside the list.\<close>

definition get_slice :: "'a list \<Rightarrow> nat \<Rightarrow> nat \<Rightarrow> 'a list option" where
  "get_slice xs a b = (if a \<le> b \<and> b \<le> length xs then Some (take (b - a) (drop a xs)) else None)"

text \<open>\<open>xs.get(i)\<close>.\<close>

definition get :: "'a list \<Rightarrow> nat \<Rightarrow> 'a option" where
  "get xs i = (if i < length xs then Some (xs ! i) else None)"

lemma index_in_range [outcome_simps]: "i < length xs \<Longrightarrow> index xs i = Ret (xs ! i)"
  by (simp add: index_def)

lemma slice_of_in_range [outcome_simps]:
  "a \<le> b \<Longrightarrow> b \<le> length xs \<Longrightarrow> slice_of xs a b = Ret (take (b - a) (drop a xs))"
  by (simp add: slice_of_def)

lemma get_Some_iff: "get xs i = Some x \<longleftrightarrow> i < length xs \<and> xs ! i = x"
  by (auto simp: get_def)

section \<open>Arithmetic on usize\<close>

text \<open>
  Subtraction of two \<open>usize\<close> values in the release profile: modulo \<open>2 ^ 64\<close>. Additions of slot
  numbers stay far below \<open>2 ^ 64\<close> (there are at most \<open>2 ^ 32\<close> slots) and are plain additions.
\<close>

definition usize_sub :: "usize \<Rightarrow> usize \<Rightarrow> usize" where
  "usize_sub a b = (if b \<le> a then a - b else a + 2 ^ 64 - b)"

lemma usize_sub_exact [simp]: "b \<le> a \<Longrightarrow> usize_sub a b = a - b"
  by (simp add: usize_sub_def)

lemma unat_u32_bound: "unat (w :: u32) < 2 ^ 32"
  using unsigned_less [of w] by simp

lemma unat_of_nat_u32: "n < 2 ^ 32 \<Longrightarrow> unat (of_nat n :: u32) = n"
  by (simp add: unat_of_nat take_bit_eq_mod)

lemma unat_u64_bound: "unat (w :: u64) < 2 ^ 64"
  using unsigned_less [of w] by simp

text \<open>\<open>n.div_ceil(d)\<close>.\<close>

definition div_ceil :: "usize \<Rightarrow> usize \<Rightarrow> usize" where
  "div_ceil n d = (n + d - 1) div d"

lemma div_ceil_64_bound: "i < n \<Longrightarrow> i div 64 < div_ceil n 64"
  by (simp add: div_ceil_def)

lemma le_div_ceil_64: "n \<le> 64 * div_ceil n 64"
  by (simp add: div_ceil_def)

section \<open>Little-endian byte strings\<close>

text \<open>
  \<open>to_le n w\<close> is the first \<open>n\<close> bytes of \<open>w\<close>, least significant first; the targets are
  little-endian, so this is \<open>to_ne_bytes\<close> and \<open>to_le_bytes\<close> alike, and the in-memory image
  of an integer field of a \<open>repr(C)\<close> struct.
\<close>

fun to_le :: "nat \<Rightarrow> 'a::len word \<Rightarrow> u8 list" where
  "to_le 0 w = []"
| "to_le (Suc n) w = ucast w # to_le n (drop_bit 8 w)"

fun from_le :: "u8 list \<Rightarrow> 'a::len word" where
  "from_le [] = 0"
| "from_le (b # bs) = ucast b OR push_bit 8 (from_le bs)"

lemma length_to_le [simp]: "length (to_le n w) = n"
  by (induction n arbitrary: w) auto

lemma bit_from_le:
  "bit (from_le bs :: 'a::len word) k \<longleftrightarrow>
     k < LENGTH('a) \<and> k div 8 < length bs \<and> bit (bs ! (k div 8)) (k mod 8)"
proof (induction bs arbitrary: k)
  case Nil
  then show ?case by simp
next
  case (Cons b bs)
  show ?case
  proof (cases "k < 8")
    case True
    then show ?thesis
      by (auto simp: bit_or_iff bit_push_bit_iff bit_ucast_iff not_le dest: bit_imp_le_length)
  next
    case False
    then have k: "k div 8 = Suc ((k - 8) div 8)" "k mod 8 = (k - 8) mod 8"
      by (auto simp: le_div_geq le_mod_geq)
    have nb: "\<not> bit b k"
      using False bit_imp_le_length [of b k] by auto
    show ?thesis
      using False by (auto simp: bit_or_iff bit_push_bit_iff bit_ucast_iff Cons.IH k nb)
  qed
qed

lemma nth_to_le:
  "i < n \<Longrightarrow> to_le n w ! i = ucast (drop_bit (8 * i) w)"
proof (induction n arbitrary: w i)
  case 0
  then show ?case by simp
next
  case (Suc n)
  then show ?case
    by (cases i) (auto simp: algebra_simps)
qed

lemma from_le_to_le:
  assumes "LENGTH('a::len) \<le> 8 * n"
  shows "from_le (to_le n (w :: 'a word)) = w"
proof (rule bit_word_eqI)
  fix k
  assume k: "k < LENGTH('a)"
  with assms have "k div 8 < n" by auto
  moreover have "8 * (k div 8) + k mod 8 = k" "k mod 8 < LENGTH(8)" by simp_all
  ultimately show "bit (from_le (to_le n w) :: 'a word) k = bit w k"
    using k by (simp add: bit_from_le nth_to_le bit_ucast_iff bit_drop_bit_eq add.commute)
qed

lemma to_le_from_le:
  assumes "length bs = n" and "8 * n \<le> LENGTH('a::len)"
  shows "to_le n (from_le bs :: 'a word) = bs"
proof (rule nth_equalityI)
  show "length (to_le n (from_le bs :: 'a word)) = length bs"
    using assms by simp
next
  fix i
  assume "i < length (to_le n (from_le bs :: 'a word))"
  then have i: "i < n" by simp
  show "to_le n (from_le bs :: 'a word) ! i = bs ! i"
  proof (rule bit_word_eqI)
    fix k
    assume "k < LENGTH(8)"
    then have k: "k < 8" by simp
    then have "(8 * i + k) div 8 = i" "(8 * i + k) mod 8 = k" by auto
    moreover have "8 * i + k < LENGTH('a)" using i k assms by linarith
    ultimately show "bit (to_le n (from_le bs :: 'a word) ! i) k = bit (bs ! i) k"
      using i k assms by (simp add: nth_to_le bit_ucast_iff bit_drop_bit_eq bit_from_le)
  qed
qed

lemma from_le_to_le_widths [simp]:
  "from_le (to_le 8 (w64 :: u64)) = w64"
  "from_le (to_le 4 (w32 :: u32)) = w32"
  "from_le (to_le 2 (w16 :: u16)) = w16"
  "from_le (to_le 1 (w8 :: u8)) = w8"
  by (simp_all add: from_le_to_le del: to_le.simps)

section \<open>IEEE 754 binary64 bit patterns\<close>

definition f64_exponent :: "f64 \<Rightarrow> u64" where
  "f64_exponent b = take_bit 11 (drop_bit 52 b)"

definition f64_fraction :: "f64 \<Rightarrow> u64" where
  "f64_fraction b = take_bit 52 b"

definition f64_is_nan :: "f64 \<Rightarrow> bool" where
  "f64_is_nan b \<longleftrightarrow> f64_exponent b = 0x7FF \<and> f64_fraction b \<noteq> 0"

definition f64_is_finite :: "f64 \<Rightarrow> bool" where
  "f64_is_finite b \<longleftrightarrow> f64_exponent b \<noteq> 0x7FF"

lemma nan_not_finite: "f64_is_nan b \<Longrightarrow> \<not> f64_is_finite b"
  by (simp add: f64_is_nan_def f64_is_finite_def)

lemmas f64_class_defs = f64_is_nan_def f64_is_finite_def f64_exponent_def f64_fraction_def

section \<open>Bit sets in arrays of 64-bit words\<close>

text \<open>
  Slot \<open>i\<close> is bit \<open>i % 64\<close> of word \<open>i / 64\<close>. The three operations are the expressions the
  sources repeat: \<open>ws[i / 64] & (1 << (i % 64)) != 0\<close>, \<open>ws[i / 64] |= 1 << (i % 64)\<close> and
  \<open>ws[i / 64] &= !(1 << (i % 64))\<close>. They leave an array without word \<open>i / 64\<close> alone; callers
  that would panic there say so themselves.
\<close>

definition slot_mask :: "nat \<Rightarrow> u64" where
  "slot_mask i = push_bit (i mod 64) 1"

definition test_word :: "u64 list \<Rightarrow> nat \<Rightarrow> bool" where
  "test_word ws i \<longleftrightarrow> i div 64 < length ws \<and> ws ! (i div 64) AND slot_mask i \<noteq> 0"

definition set_word :: "u64 list \<Rightarrow> nat \<Rightarrow> u64 list" where
  "set_word ws i = ws[i div 64 := ws ! (i div 64) OR slot_mask i]"

definition clear_word :: "u64 list \<Rightarrow> nat \<Rightarrow> u64 list" where
  "clear_word ws i = ws[i div 64 := ws ! (i div 64) AND NOT (slot_mask i)]"

lemma bit_slot_mask: "bit (slot_mask i) k \<longleftrightarrow> k = i mod 64"
  by (auto simp: slot_mask_def bit_exp_iff)

lemma and_slot_mask_nonzero: "(w AND slot_mask i \<noteq> 0) = bit w (i mod 64)"
proof
  assume "w AND slot_mask i \<noteq> 0"
  then obtain k where "bit (w AND slot_mask i) k"
    by (metis bit_0_eq bit_eq_iff bot_apply bot_bool_def)
  then show "bit w (i mod 64)"
    by (auto simp: bit_and_iff bit_slot_mask)
next
  assume "bit w (i mod 64)"
  then have "bit (w AND slot_mask i) (i mod 64)"
    by (simp add: bit_and_iff bit_slot_mask)
  then show "w AND slot_mask i \<noteq> 0"
    by (metis bit_0_eq bot_apply bot_bool_def)
qed

lemma test_word_bit: "test_word ws i \<longleftrightarrow> i div 64 < length ws \<and> bit (ws ! (i div 64)) (i mod 64)"
  by (simp add: test_word_def and_slot_mask_nonzero)

lemma length_set_word [simp]: "length (set_word ws i) = length ws"
  by (simp add: set_word_def)

lemma length_clear_word [simp]: "length (clear_word ws i) = length ws"
  by (simp add: clear_word_def)

lemma same_position: "i div 64 = j div 64 \<Longrightarrow> i mod 64 = j mod 64 \<Longrightarrow> i = (j::nat)"
  by (metis div_mult_mod_eq)

lemma test_set_word [word_set_simps]:
  "i div 64 < length ws \<Longrightarrow> test_word (set_word ws i) j \<longleftrightarrow> j = i \<or> test_word ws j"
  by (cases "j div 64 = i div 64")
    (auto simp: test_word_bit set_word_def bit_or_iff bit_slot_mask dest: same_position)

lemma test_clear_word [word_set_simps]:
  "i div 64 < length ws \<Longrightarrow> test_word (clear_word ws i) j \<longleftrightarrow> j \<noteq> i \<and> test_word ws j"
  by (cases "j div 64 = i div 64")
    (auto simp: test_word_bit clear_word_def bit_and_iff bit_not_iff bit_slot_mask
      dest: same_position bit_imp_le_length)

lemma test_replicate_0 [word_set_simps]: "\<not> test_word (replicate n 0) i"
  by (simp add: test_word_bit)

text \<open>The set a word array stands for.\<close>

definition word_set :: "u64 list \<Rightarrow> nat set" where
  "word_set ws = {i. test_word ws i}"

lemma in_word_set [simp]: "i \<in> word_set ws \<longleftrightarrow> test_word ws i"
  by (simp add: word_set_def)

lemma word_set_bound: "word_set ws \<subseteq> {..<64 * length ws}"
  by (auto simp: test_word_bit)

lemma finite_word_set [simp]: "finite (word_set ws)"
  using word_set_bound finite_subset by blast

lemma word_set_set_word [word_set_simps]:
  "i div 64 < length ws \<Longrightarrow> word_set (set_word ws i) = insert i (word_set ws)"
  by (auto simp: word_set_simps)

lemma word_set_clear_word [word_set_simps]:
  "i div 64 < length ws \<Longrightarrow> word_set (clear_word ws i) = word_set ws - {i}"
  by (auto simp: word_set_simps)

lemma word_set_replicate_0 [word_set_simps]: "word_set (replicate n 0) = {}"
  by (auto simp: word_set_simps)

section \<open>Maps built by insertion\<close>

text \<open>A list of insertions whose entries all agree with \<open>f\<close> and cover it builds \<open>f\<close>.\<close>

lemma map_of_graph:
  assumes "\<And>k v. (k, v) \<in> set xs \<longleftrightarrow> f k = Some v"
  shows "map_of xs = f"
proof
  fix k
  show "map_of xs k = f k"
  proof (cases "map_of xs k")
    case None
    then have "(k, v) \<notin> set xs" for v by (metis map_of_eq_None_iff fst_conv imageI)
    then show ?thesis using assms None by (cases "f k") auto
  next
    case (Some v)
    then show ?thesis using assms map_of_SomeD by fastforce
  qed
qed

section \<open>Ordered maps\<close>

text \<open>
  A \<open>BTreeMap\<close> is the list of its entries in key order, which is the order it iterates in;
  \<open>map_of\<close> is its lookup.
\<close>

type_synonym ('k, 'v) btree_map = "('k \<times> 'v) list"

fun bt_insert :: "'k::linorder \<Rightarrow> 'v \<Rightarrow> ('k, 'v) btree_map \<Rightarrow> ('k, 'v) btree_map" where
  "bt_insert k v [] = [(k, v)]"
| "bt_insert k v ((k', v') # m) =
     (if k < k' then (k, v) # (k', v') # m
      else if k = k' then (k, v) # m
      else (k', v') # bt_insert k v m)"

definition bt_sorted :: "('k::linorder, 'v) btree_map \<Rightarrow> bool" where
  "bt_sorted m \<longleftrightarrow> sorted_wrt (<) (map fst m)"

lemma map_of_bt_insert [simp]: "bt_sorted m \<Longrightarrow> map_of (bt_insert k v m) = (map_of m)(k \<mapsto> v)"
  by (induction m) (auto simp: bt_sorted_def fun_eq_iff)

lemma fst_set_bt_insert: "fst ` set (bt_insert k v m) = insert k (fst ` set m)"
  by (induction k v m rule: bt_insert.induct) (simp_all add: insert_commute)

lemma bt_sorted_insert [simp]: "bt_sorted m \<Longrightarrow> bt_sorted (bt_insert k v m)"
proof (induction m)
  case Nil
  then show ?case by (simp add: bt_sorted_def)
next
  case (Cons e m)
  obtain k' v' where e: "e = (k', v')" by fastforce
  have "bt_sorted (bt_insert k v m)" "\<forall>x \<in> fst ` set m. k' < x"
    using Cons by (auto simp: bt_sorted_def e)
  then show ?case
    using Cons.prems fst_set_bt_insert [of k v m]
    by (auto simp: bt_sorted_def e simp flip: set_map)
qed

lemma bt_sorted_Nil [simp]: "bt_sorted []"
  by (simp add: bt_sorted_def)

lemma bt_sorted_distinct: "bt_sorted m \<Longrightarrow> distinct (map fst m)"
  by (simp add: bt_sorted_def strict_sorted_iff)

end
