(* ===== verification/Slot_Bitmap.thy ===== *)
theory Slot_Bitmap
  imports Prelude
begin

text \<open>
  The first-fit slot allocator, \<open>libs/voltage-rtdb-shm/src/core/bitmap.rs\<close>: the owned
  \<open>SlotBitmap\<close> and the \<open>SlotBitmapView\<close> over a header of 32-bit atomics in shared memory.  The
  locale \<open>slot_allocator\<close> is the contract the channel and instance indices rely on; both
  allocators are interpretations of it.  Tracking which client owns which block is developed once,
  inside the locale.
\<close>

section \<open>Allocations and the first-fit scan\<close>

record slot_allocation =
  base_slot :: usize
  alloc_count :: usize

record bitmap_stats =
  st_total_slots :: usize
  st_allocated_slots :: usize
  st_free_slots :: usize
  st_utilization_pct :: usize

definition bitmap_data_size :: "usize \<Rightarrow> usize" where
  "bitmap_data_size total_slots = div_ceil total_slots 64 * 8"

definition SIZE :: usize where
  "SIZE = 64"

definition total_bitmap_size :: "usize \<Rightarrow> usize" where
  "total_bitmap_size total_slots = SIZE + bitmap_data_size total_slots"

text \<open>The loop of \<open>find_contiguous_free\<close>: the arguments are its local variables.\<close>

fun scan_free :: "(usize \<Rightarrow> bool) \<Rightarrow> usize \<Rightarrow> usize \<Rightarrow> usize \<Rightarrow> usize list \<Rightarrow> usize option" where
  "scan_free allocated cnt consecutive block_start [] = None"
| "scan_free allocated cnt consecutive block_start (slot # slots) =
     (if allocated slot then scan_free allocated cnt 0 (slot + 1) slots
      else if consecutive + 1 \<ge> cnt then Some block_start
      else scan_free allocated cnt (consecutive + 1) block_start slots)"

section \<open>SlotBitmap\<close>

record slot_bitmap =
  bm_total_slots :: usize
  bm_allocated_count :: usize
  bm_first_free_hint :: usize
  bm_words :: "u64 list"

definition bm_new :: "usize \<Rightarrow> slot_bitmap" where
  "bm_new total_slots =
     \<lparr>bm_total_slots = total_slots, bm_allocated_count = 0, bm_first_free_hint = 0,
      bm_words = replicate (div_ceil total_slots 64) 0\<rparr>"

definition bm_free_count :: "slot_bitmap \<Rightarrow> usize" where
  "bm_free_count b = usize_sub (bm_total_slots b) (bm_allocated_count b)"

definition bm_is_allocated :: "slot_bitmap \<Rightarrow> usize \<Rightarrow> bool" where
  "bm_is_allocated b slot =
     (if slot \<ge> bm_total_slots b then False else test_word (bm_words b) slot)"

definition bm_find_contiguous_free :: "slot_bitmap \<Rightarrow> usize \<Rightarrow> usize \<Rightarrow> usize option" where
  "bm_find_contiguous_free b start_pos cnt =
     scan_free (bm_is_allocated b) cnt 0 start_pos [start_pos..<bm_total_slots b]"

definition bm_mark_allocated :: "slot_bitmap \<Rightarrow> usize \<Rightarrow> usize \<Rightarrow> slot_bitmap" where
  "bm_mark_allocated b base cnt =
     (let b1 = b\<lparr>bm_words := fold (\<lambda>slot ws. set_word ws slot) [base..<base + cnt] (bm_words b),
                 bm_allocated_count := bm_allocated_count b + cnt\<rparr>;
          next_hint = base + cnt
      in if next_hint < bm_total_slots b then b1\<lparr>bm_first_free_hint := next_hint\<rparr> else b1)"

definition bm_alloc_contiguous :: "slot_bitmap \<Rightarrow> usize \<Rightarrow> slot_allocation option \<times> slot_bitmap" where
  "bm_alloc_contiguous b cnt =
     (if cnt = 0 then (None, b)
      else if cnt > bm_free_count b then (None, b)
      else let start_pos = min (bm_first_free_hint b) (bm_total_slots b - cnt) in
        (case bm_find_contiguous_free b start_pos cnt of
           Some base \<Rightarrow> (Some \<lparr>base_slot = base, alloc_count = cnt\<rparr>, bm_mark_allocated b base cnt)
         | None \<Rightarrow>
             if start_pos > 0 then
               (case bm_find_contiguous_free b 0 cnt of
                  Some base \<Rightarrow> (Some \<lparr>base_slot = base, alloc_count = cnt\<rparr>, bm_mark_allocated b base cnt)
                | None \<Rightarrow> (None, b))
             else (None, b)))"

text \<open>\<open>self.bitmap[word_idx] &= !(1u64 << bit_idx)\<close> panics when the word does not exist.\<close>

fun clear_range :: "usize list \<Rightarrow> u64 list \<Rightarrow> u64 list outcome" where
  "clear_range [] ws = Ret ws"
| "clear_range (slot # slots) ws =
     (if slot div 64 < length ws then clear_range slots (clear_word ws slot) else Panic)"

definition bm_free :: "slot_bitmap \<Rightarrow> usize \<Rightarrow> usize \<Rightarrow> slot_bitmap outcome" where
  "bm_free b base cnt =
     (case clear_range [base..<base + cnt] (bm_words b) of
        Panic \<Rightarrow> Panic
      | Ret ws \<Rightarrow>
          (let b1 = b\<lparr>bm_words := ws, bm_allocated_count := usize_sub (bm_allocated_count b) cnt\<rparr>
           in Ret (if base < bm_first_free_hint b then b1\<lparr>bm_first_free_hint := base\<rparr> else b1)))"

definition bm_stats :: "slot_bitmap \<Rightarrow> bitmap_stats" where
  "bm_stats b =
     \<lparr>st_total_slots = bm_total_slots b, st_allocated_slots = bm_allocated_count b,
      st_free_slots = bm_free_count b,
      st_utilization_pct =
        (if bm_total_slots b > 0 then bm_allocated_count b * 100 div bm_total_slots b else 0)\<rparr>"

section \<open>SlotBitmapView\<close>

record bitmap_header =
  bh_total_slots :: u32
  bh_allocated_count :: u32
  bh_first_free_hint :: u32

record bitmap_view =
  vw_header :: bitmap_header
  vw_bitmap :: "u64 list"

definition header_init :: "u32 \<Rightarrow> bitmap_header" where
  "header_init total_slots =
     \<lparr>bh_total_slots = total_slots, bh_allocated_count = 0, bh_first_free_hint = 0\<rparr>"

text \<open>\<open>from_raw\<close> takes the first \<open>ceil(total_slots / 64)\<close> words behind the pointer.\<close>

definition vw_from_raw :: "bitmap_header \<Rightarrow> u64 list \<Rightarrow> bitmap_view" where
  "vw_from_raw h memory =
     \<lparr>vw_header = h, vw_bitmap = take (div_ceil (unat (bh_total_slots h)) 64) memory\<rparr>"

definition vw_total_slots :: "bitmap_view \<Rightarrow> usize" where
  "vw_total_slots v = unat (bh_total_slots (vw_header v))"

definition vw_allocated_count :: "bitmap_view \<Rightarrow> usize" where
  "vw_allocated_count v = unat (bh_allocated_count (vw_header v))"

definition vw_free_count :: "bitmap_view \<Rightarrow> usize" where
  "vw_free_count v = usize_sub (vw_total_slots v) (vw_allocated_count v)"

definition vw_is_allocated :: "bitmap_view \<Rightarrow> usize \<Rightarrow> bool" where
  "vw_is_allocated v slot =
     (if slot \<ge> vw_total_slots v then False else test_word (vw_bitmap v) slot)"

definition vw_find_contiguous_free :: "bitmap_view \<Rightarrow> usize \<Rightarrow> usize \<Rightarrow> usize option" where
  "vw_find_contiguous_free v start_pos cnt =
     scan_free (vw_is_allocated v) cnt 0 start_pos [start_pos..<vw_total_slots v]"

definition vw_mark_allocated :: "bitmap_view \<Rightarrow> usize \<Rightarrow> usize \<Rightarrow> bitmap_view" where
  "vw_mark_allocated v base cnt =
     (let h = vw_header v;
          h1 = h\<lparr>bh_allocated_count := bh_allocated_count h + of_nat cnt\<rparr>;
          next_hint = base + cnt;
          h2 = (if next_hint < vw_total_slots v then h1\<lparr>bh_first_free_hint := of_nat next_hint\<rparr> else h1)
      in v\<lparr>vw_header := h2,
           vw_bitmap := fold (\<lambda>slot ws. set_word ws slot) [base..<base + cnt] (vw_bitmap v)\<rparr>)"

definition vw_alloc_contiguous :: "bitmap_view \<Rightarrow> usize \<Rightarrow> slot_allocation option \<times> bitmap_view" where
  "vw_alloc_contiguous v cnt =
     (if cnt = 0 then (None, v)
      else if cnt > usize_sub (vw_total_slots v) (vw_allocated_count v) then (None, v)
      else let hint = unat (bh_first_free_hint (vw_header v));
               start_pos = min hint (vw_total_slots v - cnt) in
        (case vw_find_contiguous_free v start_pos cnt of
           Some base \<Rightarrow> (Some \<lparr>base_slot = base, alloc_count = cnt\<rparr>, vw_mark_allocated v base cnt)
         | None \<Rightarrow>
             if start_pos > 0 then
               (case vw_find_contiguous_free v 0 cnt of
                  Some base \<Rightarrow> (Some \<lparr>base_slot = base, alloc_count = cnt\<rparr>, vw_mark_allocated v base cnt)
                | None \<Rightarrow> (None, v))
             else (None, v)))"

definition vw_free :: "bitmap_view \<Rightarrow> usize \<Rightarrow> usize \<Rightarrow> bitmap_view outcome" where
  "vw_free v base cnt =
     (case clear_range [base..<base + cnt] (vw_bitmap v) of
        Panic \<Rightarrow> Panic
      | Ret ws \<Rightarrow>
          (let h = vw_header v;
               h1 = h\<lparr>bh_allocated_count := bh_allocated_count h - of_nat cnt\<rparr>;
               current_hint = unat (bh_first_free_hint h);
               h2 = (if base < current_hint then h1\<lparr>bh_first_free_hint := of_nat base\<rparr> else h1)
           in Ret (v\<lparr>vw_header := h2, vw_bitmap := ws\<rparr>)))"

definition vw_init_all_free :: "bitmap_view \<Rightarrow> bitmap_view" where
  "vw_init_all_free v =
     v\<lparr>vw_header := (vw_header v)\<lparr>bh_allocated_count := 0, bh_first_free_hint := 0\<rparr>,
       vw_bitmap := map (\<lambda>_. 0) (vw_bitmap v)\<rparr>"

definition vw_stats :: "bitmap_view \<Rightarrow> bitmap_stats" where
  "vw_stats v =
     \<lparr>st_total_slots = vw_total_slots v, st_allocated_slots = vw_allocated_count v,
      st_free_slots = usize_sub (vw_total_slots v) (vw_allocated_count v),
      st_utilization_pct =
        (if vw_total_slots v > 0 then vw_allocated_count v * 100 div vw_total_slots v else 0)\<rparr>"

section \<open>The scan finds the first free block\<close>

definition block :: "usize \<Rightarrow> usize \<Rightarrow> usize set" where
  "block base cnt = {base..<base + cnt}"

definition free_block :: "(usize \<Rightarrow> bool) \<Rightarrow> usize \<Rightarrow> usize \<Rightarrow> usize \<Rightarrow> bool" where
  "free_block allocated tot cnt b \<longleftrightarrow>
     b + cnt \<le> tot \<and> (\<forall>i \<in> {b..<b + cnt}. \<not> allocated i)"

lemma scan_free_spec:
  assumes "bs + c = s" "\<forall>i \<in> {bs..<s}. \<not> P i" "c < n"
  shows "(\<forall>b. scan_free P n c bs [s..<t] = Some b \<longrightarrow>
            bs \<le> b \<and> free_block P t n b \<and> (\<forall>b'. bs \<le> b' \<and> b' < b \<longrightarrow> \<not> free_block P t n b')) \<and>
         (scan_free P n c bs [s..<t] = None \<longrightarrow> (\<forall>b' \<ge> bs. \<not> free_block P t n b'))"
  using assms
proof (induction "t - s" arbitrary: s c bs)
  case 0
  then show ?case
    by (auto simp: free_block_def)
next
  case (Suc k)
  then have st: "[s..<t] = s # [Suc s..<t]" "k = t - Suc s" "s < t"
    by (simp_all add: upt_rec)
  show ?case
  proof (cases "P s")
    case True
    have skip: "\<not> free_block P t n b'" if "bs \<le> b'" "b' \<le> s" for b'
    proof
      assume "free_block P t n b'"
      moreover have "s \<in> {b'..<b' + n}" using that Suc.prems by auto
      ultimately show False using True by (auto simp: free_block_def)
    qed
    have "scan_free P n c bs [s..<t] = scan_free P n 0 (Suc s) [Suc s..<t]"
      using True by (simp add: st)
    moreover note IH = Suc.hyps(1) [OF st(2), of "Suc s" 0]
    moreover have "0 < n" "bs \<le> s" using Suc.prems by auto
    ultimately show ?thesis
      using skip by (auto simp: Suc_le_eq not_le) (meson leI le_less_trans less_or_eq_imp_le Suc_leI)+
  next
    case False
    then have ext: "\<forall>i \<in> {bs..<Suc s}. \<not> P i"
      using Suc.prems by (auto simp: less_Suc_eq)
    show ?thesis
    proof (cases "c + 1 \<ge> n")
      case True
      then have "free_block P t n bs"
        using Suc.prems ext st(3) by (auto simp: free_block_def)
      with True False show ?thesis
        by (auto simp: st)
    next
      case False
      have "scan_free P n c bs [s..<t] = scan_free P n (c + 1) bs [Suc s..<t]"
        using \<open>\<not> P s\<close> False by (simp add: st)
      with Suc.hyps(1) [OF st(2), of bs "c + 1"] Suc.prems ext False show ?thesis
        by simp
    qed
  qed
qed

lemma length_fold_set_word [simp]: "length (fold (\<lambda>slot ws. set_word ws slot) xs ws) = length ws"
  by (induction xs arbitrary: ws) simp_all

lemma word_set_fold_set_word:
  "\<forall>i \<in> set xs. i div 64 < length ws \<Longrightarrow>
     word_set (fold (\<lambda>slot ws. set_word ws slot) xs ws) = word_set ws \<union> set xs"
  by (induction xs arbitrary: ws) (auto simp: word_set_simps)

lemma clear_range_Ret:
  "\<forall>i \<in> set xs. i div 64 < length ws \<Longrightarrow>
     \<exists>ws'. clear_range xs ws = Ret ws' \<and> length ws' = length ws \<and> word_set ws' = word_set ws - set xs"
proof (induction xs arbitrary: ws)
  case Nil
  then show ?case by simp
next
  case (Cons x xs)
  then obtain ws' where "clear_range xs (clear_word ws x) = Ret ws'" "length ws' = length ws"
    "word_set ws' = word_set (clear_word ws x) - set xs"
    using Cons.IH [of "clear_word ws x"] by auto
  with Cons.prems show ?case
    by (auto simp: word_set_clear_word)
qed

section \<open>Invariant of SlotBitmap\<close>

definition bm_used :: "slot_bitmap \<Rightarrow> usize set" where
  "bm_used b = word_set (bm_words b)"

definition bm_invar :: "slot_bitmap \<Rightarrow> bool" where
  "bm_invar b \<longleftrightarrow>
     length (bm_words b) = div_ceil (bm_total_slots b) 64 \<and>
     bm_used b \<subseteq> {..<bm_total_slots b} \<and>
     bm_allocated_count b = card (bm_used b)"

lemma bm_invar_new: "bm_invar (bm_new n)"
  by (simp add: bm_invar_def bm_new_def bm_used_def word_set_simps)

lemma bm_used_new [simp]: "bm_used (bm_new n) = {}"
  by (simp add: bm_used_def bm_new_def word_set_simps)

lemma bm_used_finite [simp]: "finite (bm_used b)"
  by (simp add: bm_used_def)

lemma bm_is_allocated_iff: "bm_invar b \<Longrightarrow> bm_is_allocated b i \<longleftrightarrow> i \<in> bm_used b"
  by (auto simp: bm_is_allocated_def bm_invar_def bm_used_def)

lemma bm_allocated_le: "bm_invar b \<Longrightarrow> bm_allocated_count b \<le> bm_total_slots b"
  using card_mono [of "{..<bm_total_slots b}" "bm_used b"] by (simp add: bm_invar_def)

lemma bm_free_count_card:
  assumes "bm_invar b"
  shows "bm_free_count b = card ({..<bm_total_slots b} - bm_used b)"
  using assms bm_allocated_le [OF assms]
  by (simp add: bm_free_count_def bm_invar_def card_Diff_subset)

lemma bm_mark_fields [simp]:
  "bm_total_slots (bm_mark_allocated b base cnt) = bm_total_slots b"
  "bm_allocated_count (bm_mark_allocated b base cnt) = bm_allocated_count b + cnt"
  "bm_words (bm_mark_allocated b base cnt) =
     fold (\<lambda>slot ws. set_word ws slot) [base..<base + cnt] (bm_words b)"
  by (simp_all add: bm_mark_allocated_def Let_def)

lemma block_words:
  assumes "bm_invar b" "base + cnt \<le> bm_total_slots b"
  shows "\<forall>i \<in> set [base..<base + cnt]. i div 64 < length (bm_words b)"
  using assms div_ceil_64_bound by (auto simp: bm_invar_def)

lemma bm_mark_used:
  assumes "bm_invar b" "base + cnt \<le> bm_total_slots b"
  shows "bm_used (bm_mark_allocated b base cnt) = bm_used b \<union> block base cnt"
  using word_set_fold_set_word [OF block_words [OF assms]] by (simp add: bm_used_def block_def)

lemma bm_mark_invar:
  assumes "bm_invar b" "base + cnt \<le> bm_total_slots b" "block base cnt \<inter> bm_used b = {}"
  shows "bm_invar (bm_mark_allocated b base cnt)"
proof -
  have "card (bm_used b \<union> block base cnt) = card (bm_used b) + cnt"
    using assms(3) by (subst card_Un_disjoint) (auto simp: block_def)
  with assms bm_mark_used [OF assms(1,2)] show ?thesis
    by (auto simp: bm_invar_def block_def)
qed

text \<open>Which base an allocation takes: the search from the hint, then from the beginning.\<close>

lemma bm_find_spec:
  assumes "bm_invar b" "0 < cnt"
  shows "bm_find_contiguous_free b start cnt = Some base \<Longrightarrow>
           start \<le> base \<and> base + cnt \<le> bm_total_slots b \<and> block base cnt \<inter> bm_used b = {}"
    and "bm_find_contiguous_free b start cnt = None \<Longrightarrow> start \<le> base' \<Longrightarrow>
           base' + cnt \<le> bm_total_slots b \<Longrightarrow> block base' cnt \<inter> bm_used b \<noteq> {}"
    and "bm_find_contiguous_free b start cnt = Some base \<Longrightarrow> start \<le> base' \<Longrightarrow> base' < base \<Longrightarrow>
           base' + cnt \<le> bm_total_slots b \<Longrightarrow> block base' cnt \<inter> bm_used b \<noteq> {}"
  using scan_free_spec [of start 0 start "bm_is_allocated b" cnt "bm_total_slots b"] assms
  by (auto simp: bm_find_contiguous_free_def free_block_def block_def bm_is_allocated_iff)

lemma bm_alloc_SomeD:
  assumes "bm_invar b" "bm_alloc_contiguous b cnt = (Some a, b')"
  shows "alloc_count a = cnt \<and> 0 < cnt \<and> base_slot a + cnt \<le> bm_total_slots b \<and>
    block (base_slot a) cnt \<inter> bm_used b = {} \<and> b' = bm_mark_allocated b (base_slot a) cnt"
proof -
  have n: "0 < cnt"
    using assms(2) by (auto simp: bm_alloc_contiguous_def split: if_splits)
  from assms(2) obtain start base where "bm_find_contiguous_free b start cnt = Some base"
    "a = \<lparr>base_slot = base, alloc_count = cnt\<rparr>" "b' = bm_mark_allocated b base cnt"
    by (auto simp: bm_alloc_contiguous_def Let_def split: if_splits option.splits)
  with bm_find_spec(1) [OF assms(1) n] n show ?thesis by auto
qed

lemma bm_alloc_NoneD: "bm_alloc_contiguous b cnt = (None, b') \<Longrightarrow> b' = b"
  by (auto simp: bm_alloc_contiguous_def Let_def split: if_splits option.splits)

lemma bm_alloc_complete:
  assumes "bm_invar b" "0 < cnt" "base + cnt \<le> bm_total_slots b" "block base cnt \<inter> bm_used b = {}"
  shows "fst (bm_alloc_contiguous b cnt) \<noteq> None"
proof -
  have "block base cnt \<subseteq> {..<bm_total_slots b} - bm_used b"
    using assms by (auto simp: block_def)
  from card_mono [OF _ this] have "cnt \<le> bm_free_count b"
    by (simp add: bm_free_count_card [OF assms(1)] block_def)
  moreover have "bm_find_contiguous_free b 0 cnt \<noteq> None"
    using bm_find_spec(2) [OF assms(1,2) _ _ assms(3)] assms(4) by blast
  ultimately show ?thesis
    using assms(2) by (auto simp: bm_alloc_contiguous_def Let_def split: option.splits)
qed

lemma bm_free_Ret:
  assumes "bm_invar b" "block base cnt \<subseteq> bm_used b"
  shows "\<exists>b'. bm_free b base cnt = Ret b' \<and> bm_invar b' \<and>
    bm_used b' = bm_used b - block base cnt \<and> bm_total_slots b' = bm_total_slots b"
proof -
  have "\<forall>i \<in> set [base..<base + cnt]. i div 64 < length (bm_words b)"
    using assms div_ceil_64_bound by (auto simp: bm_invar_def block_def subset_iff)
  from clear_range_Ret [OF this] obtain ws where ws: "clear_range [base..<base + cnt] (bm_words b) = Ret ws"
    "length ws = length (bm_words b)" "word_set ws = bm_used b - block base cnt"
    by (auto simp: bm_used_def block_def)
  have "card (bm_used b - block base cnt) = card (bm_used b) - cnt" "cnt \<le> card (bm_used b)"
    using assms(2) card_mono [OF bm_used_finite assms(2)]
    by (auto simp: card_Diff_subset block_def)
  with assms(1) ws show ?thesis
    by (auto simp: bm_free_def Let_def bm_invar_def bm_used_def)
qed

section \<open>The contract of an allocator\<close>

text \<open>
  Blocks owned by keys: distinct keys own disjoint blocks, and the allocator's used slots are
  exactly the owned ones (nothing leaks, nothing is shared).
\<close>

definition tiles :: "usize set \<Rightarrow> ('k \<rightharpoonup> usize \<times> usize) \<Rightarrow> bool" where
  "tiles used m \<longleftrightarrow>
     (\<forall>k l b n c p. m k = Some (b, n) \<longrightarrow> m l = Some (c, p) \<longrightarrow> k \<noteq> l \<longrightarrow> block b n \<inter> block c p = {}) \<and>
     used = {i. \<exists>k b n. m k = Some (b, n) \<and> i \<in> block b n}"

lemma tiles_empty: "tiles {} Map.empty"
  by (simp add: tiles_def)

lemma tiles_owned: "tiles used m \<Longrightarrow> m k = Some (b, n) \<Longrightarrow> block b n \<subseteq> used"
  by (auto simp: tiles_def)

lemma tiles_owner: "tiles used m \<Longrightarrow> s \<in> used \<Longrightarrow> \<exists>k b n. m k = Some (b, n) \<and> s \<in> block b n"
  by (simp add: tiles_def)

lemma tiles_disjoint:
  "tiles used m \<Longrightarrow> m k = Some (b, n) \<Longrightarrow> m l = Some (c, p) \<Longrightarrow> k \<noteq> l \<Longrightarrow> block b n \<inter> block c p = {}"
  unfolding tiles_def by blast

lemma tiles_add:
  assumes "tiles used m" "m k = None" "block b n \<inter> used = {}"
  shows "tiles (used \<union> block b n) (m(k \<mapsto> (b, n)))"
proof -
  have "block b n \<inter> block c p = {}" if "m l = Some (c, p)" for l c p
    using tiles_owned [OF assms(1) that] assms(3) by blast
  then show ?thesis
    using assms(1,2) unfolding tiles_def by (auto simp: Int_commute split: if_splits) (metis option.distinct(1))
qed

lemma tiles_remove:
  assumes "tiles used m" "m k = Some (b, n)"
  shows "tiles (used - block b n) (m(k := None))"
proof -
  let ?m = "m(k := None)"
  have other: "m l = Some (c, p) \<and> block b n \<inter> block c p = {}" if "?m l = Some (c, p)" for l c p
    using that tiles_disjoint [OF assms(1,2), of l c p] by (auto split: if_splits)
  have "i \<in> used - block b n \<longleftrightarrow> (\<exists>l c p. ?m l = Some (c, p) \<and> i \<in> block c p)" for i
  proof
    assume i: "i \<in> used - block b n"
    then obtain l c p where l: "m l = Some (c, p)" "i \<in> block c p"
      using tiles_owner [OF assms(1)] by blast
    with i assms(2) have "l \<noteq> k" by auto
    with l show "\<exists>l c p. ?m l = Some (c, p) \<and> i \<in> block c p" by auto
  next
    assume "\<exists>l c p. ?m l = Some (c, p) \<and> i \<in> block c p"
    with other tiles_owned [OF assms(1)] show "i \<in> used - block b n" by blast
  qed
  moreover have "block c p \<inter> block d q = {}" if "?m l = Some (c, p)" "?m j = Some (d, q)" "l \<noteq> j" for l c p j d q
    using tiles_disjoint [OF assms(1)] other that by blast
  ultimately show ?thesis
    unfolding tiles_def by blast
qed

locale slot_allocator =
  fixes alloc :: "'p \<Rightarrow> usize \<Rightarrow> slot_allocation option \<times> 'p"
    and release :: "'p \<Rightarrow> usize \<Rightarrow> usize \<Rightarrow> 'p outcome"
    and used :: "'p \<Rightarrow> usize set"
    and cap :: "'p \<Rightarrow> usize"
    and invar :: "'p \<Rightarrow> bool"
  assumes used_bound: "invar p \<Longrightarrow> used p \<subseteq> {..<cap p}"
    and alloc_Some: "invar p \<Longrightarrow> alloc p n = (Some a, p') \<Longrightarrow>
      alloc_count a = n \<and> 0 < n \<and> base_slot a + n \<le> cap p \<and> block (base_slot a) n \<inter> used p = {} \<and>
      invar p' \<and> used p' = used p \<union> block (base_slot a) n \<and> cap p' = cap p"
    and alloc_None: "invar p \<Longrightarrow> alloc p n = (None, p') \<Longrightarrow> p' = p"
    and alloc_complete: "invar p \<Longrightarrow> 0 < n \<Longrightarrow> b + n \<le> cap p \<Longrightarrow> block b n \<inter> used p = {} \<Longrightarrow>
      fst (alloc p n) \<noteq> None"
    and release_Ret: "invar p \<Longrightarrow> block b n \<subseteq> used p \<Longrightarrow>
      \<exists>p'. release p b n = Ret p' \<and> invar p' \<and> used p' = used p - block b n \<and> cap p' = cap p"
begin

lemma alloc_tiles:
  assumes "invar p" "tiles (used p) m" "m k = None" "alloc p n = (Some a, p')"
  shows "invar p'" "tiles (used p') (m(k \<mapsto> (base_slot a, n)))" "cap p' = cap p"
  using alloc_Some [OF assms(1,4)] tiles_add [OF assms(2,3)] by auto

lemma release_tiles:
  assumes "invar p" "tiles (used p) m" "m k = Some (b, n)"
  obtains p' where "release p b n = Ret p'" "invar p'" "tiles (used p') (m(k := None))" "cap p' = cap p"
    "used p' = used p - block b n"
  using release_Ret [OF assms(1) tiles_owned [OF assms(2,3)]] tiles_remove [OF assms(2,3)] by auto

text \<open>The allocator refuses exactly the requests it cannot serve.\<close>

lemma alloc_iff:
  assumes "invar p" "0 < n"
  shows "fst (alloc p n) \<noteq> None \<longleftrightarrow> (\<exists>b. b + n \<le> cap p \<and> block b n \<inter> used p = {})"
proof
  assume "fst (alloc p n) \<noteq> None"
  then obtain a p' where "alloc p n = (Some a, p')" by (metis option.exhaust prod.collapse)
  from alloc_Some [OF assms(1) this] show "\<exists>b. b + n \<le> cap p \<and> block b n \<inter> used p = {}" by blast
qed (use assms alloc_complete in blast)

text \<open>Freeing a fresh block gives the pool back, and its space can be taken again at once.\<close>

lemma alloc_release:
  assumes "invar p" "alloc p n = (Some a, p')"
  obtains q where "release p' (base_slot a) n = Ret q" "invar q" "used q = used p" "cap q = cap p"
proof -
  note A = alloc_Some [OF assms]
  then have "invar p'" "block (base_slot a) n \<subseteq> used p'" by auto
  from release_Ret [OF this] obtain q where "release p' (base_slot a) n = Ret q" "invar q"
    "used q = used p' - block (base_slot a) n" "cap q = cap p'" by blast
  moreover have "used p' - block (base_slot a) n = used p" using A by auto
  ultimately show ?thesis using A that by simp
qed

lemma release_realloc:
  assumes "invar p" "block b n \<subseteq> used p" "release p b n = Ret p'" "0 < n'" "n' \<le> n"
  shows "fst (alloc p' n') \<noteq> None"
proof -
  have p': "invar p'" "used p' = used p - block b n" "cap p' = cap p"
    using release_Ret [OF assms(1,2)] assms(3) by auto
  have "b + (n - 1) \<in> block b n"
    using assms(4,5) by (auto simp: block_def)
  then have "b + (n - 1) < cap p"
    using assms(2) used_bound [OF assms(1)] by blast
  then have "b + n \<le> cap p"
    using assms(4,5) by linarith
  then show ?thesis
    using p' assms(4,5) by (intro alloc_complete [of _ _ b]) (auto simp: block_def)
qed

end

interpretation bm: slot_allocator bm_alloc_contiguous bm_free bm_used bm_total_slots bm_invar
proof
  fix p p' n a b
  show "bm_invar p \<Longrightarrow> bm_used p \<subseteq> {..<bm_total_slots p}"
    by (simp add: bm_invar_def)
  show "bm_invar p \<Longrightarrow> bm_alloc_contiguous p n = (None, p') \<Longrightarrow> p' = p"
    by (rule bm_alloc_NoneD)
  show "bm_invar p \<Longrightarrow> 0 < n \<Longrightarrow> b + n \<le> bm_total_slots p \<Longrightarrow> block b n \<inter> bm_used p = {} \<Longrightarrow>
      fst (bm_alloc_contiguous p n) \<noteq> None"
    by (rule bm_alloc_complete)
  show "bm_invar p \<Longrightarrow> block b n \<subseteq> bm_used p \<Longrightarrow>
      \<exists>p'. bm_free p b n = Ret p' \<and> bm_invar p' \<and> bm_used p' = bm_used p - block b n \<and>
        bm_total_slots p' = bm_total_slots p"
    by (rule bm_free_Ret)
  assume "bm_invar p" "bm_alloc_contiguous p n = (Some a, p')"
  from bm_alloc_SomeD [OF this] bm_mark_used bm_mark_invar \<open>bm_invar p\<close>
  show "alloc_count a = n \<and> 0 < n \<and> base_slot a + n \<le> bm_total_slots p \<and>
      block (base_slot a) n \<inter> bm_used p = {} \<and> bm_invar p' \<and>
      bm_used p' = bm_used p \<union> block (base_slot a) n \<and> bm_total_slots p' = bm_total_slots p"
    by auto
qed

section \<open>The view implements SlotBitmap\<close>

definition view_abs :: "bitmap_view \<Rightarrow> slot_bitmap" where
  "view_abs v =
     \<lparr>bm_total_slots = unat (bh_total_slots (vw_header v)),
      bm_allocated_count = unat (bh_allocated_count (vw_header v)),
      bm_first_free_hint = unat (bh_first_free_hint (vw_header v)),
      bm_words = vw_bitmap v\<rparr>"

definition vw_invar :: "bitmap_view \<Rightarrow> bool" where
  "vw_invar v = bm_invar (view_abs v)"

definition vw_used :: "bitmap_view \<Rightarrow> usize set" where
  "vw_used v = bm_used (view_abs v)"

lemma view_abs_fields [simp]:
  "bm_total_slots (view_abs v) = vw_total_slots v"
  "bm_allocated_count (view_abs v) = vw_allocated_count v"
  "bm_first_free_hint (view_abs v) = unat (bh_first_free_hint (vw_header v))"
  "bm_words (view_abs v) = vw_bitmap v"
  by (simp_all add: view_abs_def vw_total_slots_def vw_allocated_count_def)

lemma vw_total_bound: "vw_total_slots v < 2 ^ 32"
  using unat_u32_bound [of "bh_total_slots (vw_header v)"] by (simp add: vw_total_slots_def)

lemma bm_find_view [simp]: "bm_find_contiguous_free (view_abs v) = vw_find_contiguous_free v"
  by (intro ext)
    (simp add: bm_find_contiguous_free_def vw_find_contiguous_free_def bm_is_allocated_def [abs_def]
      vw_is_allocated_def [abs_def])

lemma vw_mark_refines:
  assumes "vw_invar v" "base + cnt \<le> vw_total_slots v" "block base cnt \<inter> vw_used v = {}"
  shows "view_abs (vw_mark_allocated v base cnt) = bm_mark_allocated (view_abs v) base cnt"
proof -
  have "vw_allocated_count v + cnt \<le> vw_total_slots v"
    using bm_allocated_le [OF bm_mark_invar, of "view_abs v" base cnt] assms
    by (simp add: vw_invar_def vw_used_def)
  with vw_total_bound [of v] have "unat (bh_allocated_count (vw_header v)) + cnt < 2 ^ 32"
    by (simp add: vw_allocated_count_def)
  then have "unat (bh_allocated_count (vw_header v) + of_nat cnt) = unat (bh_allocated_count (vw_header v)) + cnt"
    by (simp add: unat_word_ariths unat_of_nat mod_add_right_eq)
  moreover have "unat (of_nat (base + cnt) :: u32) = base + cnt"
    using assms(2) vw_total_bound [of v] by (simp add: unat_of_nat del: of_nat_add)
  ultimately show ?thesis
    by (simp add: view_abs_def vw_mark_allocated_def bm_mark_allocated_def Let_def vw_total_slots_def
        del: of_nat_add)
qed

lemma vw_alloc_refines:
  assumes "vw_invar v"
  shows "bm_alloc_contiguous (view_abs v) cnt = map_prod id view_abs (vw_alloc_contiguous v cnt)"
proof (cases "cnt = 0")
  case False
  have mark: "view_abs (vw_mark_allocated v base cnt) = bm_mark_allocated (view_abs v) base cnt"
    if "vw_find_contiguous_free v start cnt = Some base" for start base
    using that assms False bm_find_spec(1) [of "view_abs v" cnt start base]
    by (intro vw_mark_refines) (simp_all add: vw_invar_def vw_used_def)
  show ?thesis
    by (auto simp: bm_alloc_contiguous_def vw_alloc_contiguous_def Let_def bm_free_count_def mark
        split: option.splits)
qed (simp add: bm_alloc_contiguous_def vw_alloc_contiguous_def)

lemma vw_free_refines:
  assumes "vw_invar v" "block base cnt \<subseteq> vw_used v"
  shows "\<exists>v'. vw_free v base cnt = Ret v' \<and> bm_free (view_abs v) base cnt = Ret (view_abs v')"
proof -
  obtain b' where b': "bm_free (view_abs v) base cnt = Ret b'"
    using bm.release_Ret [of "view_abs v" base cnt] assms by (auto simp: vw_invar_def vw_used_def)
  then obtain ws where ws: "clear_range [base..<base + cnt] (vw_bitmap v) = Ret ws"
    by (auto simp: bm_free_def split: outcome.splits)
  have "cnt \<le> vw_allocated_count v"
    using card_mono [OF _ assms(2)] assms(1) by (simp add: vw_invar_def bm_invar_def vw_used_def block_def)
  then have cnt: "cnt \<le> unat (bh_allocated_count (vw_header v))"
    by (simp add: vw_allocated_count_def)
  then have "unat (of_nat cnt :: u32) = cnt"
    using unat_u32_bound [of "bh_allocated_count (vw_header v)"] by (simp add: unat_of_nat)
  with cnt have "unat (bh_allocated_count (vw_header v) - of_nat cnt) = unat (bh_allocated_count (vw_header v)) - cnt"
    by (simp add: unat_sub word_le_nat_alt)
  moreover have "base < unat (bh_first_free_hint (vw_header v)) \<Longrightarrow> unat (of_nat base :: u32) = base"
    using unat_u32_bound [of "bh_first_free_hint (vw_header v)"] by (simp add: unat_of_nat)
  ultimately show ?thesis
    using ws cnt by (auto simp: vw_free_def bm_free_def Let_def view_abs_def vw_allocated_count_def)
qed

interpretation vw: slot_allocator vw_alloc_contiguous vw_free vw_used vw_total_slots vw_invar
proof
  fix p p' n a b
  show "vw_invar p \<Longrightarrow> vw_used p \<subseteq> {..<vw_total_slots p}"
    using bm.used_bound [of "view_abs p"] by (simp add: vw_invar_def vw_used_def)
  show "vw_invar p \<Longrightarrow> vw_alloc_contiguous p n = (None, p') \<Longrightarrow> p' = p"
    by (auto simp: vw_alloc_contiguous_def Let_def split: if_splits option.splits)
  show "vw_invar p \<Longrightarrow> 0 < n \<Longrightarrow> b + n \<le> vw_total_slots p \<Longrightarrow> block b n \<inter> vw_used p = {} \<Longrightarrow>
      fst (vw_alloc_contiguous p n) \<noteq> None"
    using bm.alloc_complete [of "view_abs p" n b] vw_alloc_refines [of p n]
    by (simp add: vw_invar_def vw_used_def)
  show "\<exists>p'. vw_free p b n = Ret p' \<and> vw_invar p' \<and> vw_used p' = vw_used p - block b n \<and>
        vw_total_slots p' = vw_total_slots p" if "vw_invar p" "block b n \<subseteq> vw_used p"
  proof -
    from that have "bm_invar (view_abs p)" "block b n \<subseteq> bm_used (view_abs p)"
      by (simp_all add: vw_invar_def vw_used_def)
    from bm.release_Ret [OF this] vw_free_refines [OF that] show ?thesis
      by (auto simp: vw_invar_def vw_used_def)
  qed
  assume "vw_invar p" "vw_alloc_contiguous p n = (Some a, p')"
  then show "alloc_count a = n \<and> 0 < n \<and> base_slot a + n \<le> vw_total_slots p \<and>
      block (base_slot a) n \<inter> vw_used p = {} \<and> vw_invar p' \<and>
      vw_used p' = vw_used p \<union> block (base_slot a) n \<and> vw_total_slots p' = vw_total_slots p"
    using bm.alloc_Some [of "view_abs p" n a "view_abs p'"] vw_alloc_refines [of p n]
    by (simp add: vw_invar_def vw_used_def)
qed

text \<open>\<open>init_all_free\<close> turns any memory of the right size into an empty, well-formed view.\<close>

lemma vw_init_all_free_ok:
  assumes "length (vw_bitmap v) = div_ceil (vw_total_slots v) 64"
  shows "vw_invar (vw_init_all_free v) \<and> vw_used (vw_init_all_free v) = {}"
  using assms
  by (simp add: vw_invar_def vw_used_def bm_invar_def bm_used_def vw_init_all_free_def view_abs_def
      vw_total_slots_def map_replicate_const word_set_simps)

definition demo_view :: bitmap_view where
  "demo_view = vw_init_all_free (vw_from_raw (header_init 70) [5, 1, 7])"

lemma demo_view_ok: "vw_invar demo_view"
  unfolding demo_view_def
  by (rule vw_init_all_free_ok [THEN conjunct1])
    (simp add: vw_from_raw_def header_init_def vw_total_slots_def div_ceil_def)

section \<open>Properties\<close>

text \<open>C17. Contiguous allocation is exact: on a well-formed bitmap a request for \<open>cnt\<close> slots
  succeeds exactly when it is positive and some block of \<open>cnt\<close> free slots exists anywhere in the
  pool (the search wraps around, so the hint never hides space); the block returned lies inside the
  pool, was entirely free, and is exactly what becomes allocated; a refusal leaves the bitmap as it
  was.  The invariant (allocated count = number of set bits, no bit beyond the pool) is kept.\<close>

theorem alloc_contiguous_exact:
  assumes "bm_invar b" and "bm_alloc_contiguous b cnt = (r, b')"
  shows "(r \<noteq> None \<longleftrightarrow>
            0 < cnt \<and> (\<exists>base. base + cnt \<le> bm_total_slots b \<and> block base cnt \<inter> bm_used b = {})) \<and>
         (case r of
            None \<Rightarrow> b' = b
          | Some a \<Rightarrow> alloc_count a = cnt \<and> base_slot a + cnt \<le> bm_total_slots b \<and>
              block (base_slot a) cnt \<inter> bm_used b = {} \<and>
              bm_used b' = bm_used b \<union> block (base_slot a) cnt) \<and>
         bm_invar b' \<and> bm_total_slots b' = bm_total_slots b"
proof (cases r)
  case None
  then have "b' = b" "0 < cnt \<Longrightarrow> \<not> (\<exists>base. base + cnt \<le> bm_total_slots b \<and> block base cnt \<inter> bm_used b = {})"
    using assms bm.alloc_None bm.alloc_iff [of b cnt] by auto
  with None assms(1) show ?thesis by auto
next
  case (Some a)
  with bm.alloc_Some [of b cnt a b'] assms show ?thesis by auto
qed

theorem alloc_contiguous_exact_witness:
  "\<exists>a b'. bm_alloc_contiguous (bm_new 10) 4 = (Some a, b') \<and> bm_invar b' \<and> bm_used b' = block (base_slot a) 4"
proof -
  obtain r b' where r: "bm_alloc_contiguous (bm_new 10) 4 = (r, b')" by fastforce
  have "bm_total_slots (bm_new 10) = 10" by (simp add: bm_new_def)
  then have "\<exists>base. base + 4 \<le> bm_total_slots (bm_new 10) \<and> block base 4 \<inter> bm_used (bm_new 10) = {}"
    by (intro exI [of _ 0]) simp
  with alloc_contiguous_exact [OF bm_invar_new r] show ?thesis
    using r by (cases r) auto
qed

text \<open>Allocation followed by freeing the returned block restores the set of allocated slots,
  never panics, and keeps the invariant.\<close>

lemma free_undoes_alloc:
  assumes "bm_invar b" and "bm_alloc_contiguous b cnt = (Some a, b')"
  shows "\<exists>b''. bm_free b' (base_slot a) (alloc_count a) = Ret b'' \<and> bm_invar b'' \<and>
    bm_used b'' = bm_used b \<and> bm_allocated_count b'' = bm_allocated_count b"
proof -
  have "alloc_count a = cnt" using bm.alloc_Some [OF assms] by simp
  with bm.alloc_release [OF assms] assms(1) show ?thesis
    by (metis bm_invar_def)
qed

text \<open>C23. The shared-memory view, whose counters are 32-bit atomics that wrap, implements the owned
  bitmap: on a well-formed view, allocation returns what \<open>SlotBitmap\<close> returns and moves the view to
  the corresponding state, and freeing allocated slots commutes with the abstraction.\<close>

theorem bitmap_view_refines:
  assumes "vw_invar v"
  shows "bm_alloc_contiguous (view_abs v) cnt = map_prod id view_abs (vw_alloc_contiguous v cnt) \<and>
    vw_invar (snd (vw_alloc_contiguous v cnt)) \<and>
    (block base n \<subseteq> vw_used v \<longrightarrow>
       (\<exists>v'. vw_free v base n = Ret v' \<and> vw_invar v' \<and> bm_free (view_abs v) base n = Ret (view_abs v')))"
proof -
  obtain r v1 where rv: "vw_alloc_contiguous v cnt = (r, v1)" by fastforce
  then have "vw_invar v1"
    using vw.alloc_Some [OF assms] vw.alloc_None [OF assms] assms by (cases r) fastforce+
  moreover have "\<exists>v'. vw_free v base n = Ret v' \<and> vw_invar v' \<and> bm_free (view_abs v) base n = Ret (view_abs v')"
    if "block base n \<subseteq> vw_used v"
    using vw.release_Ret [OF assms that] vw_free_refines [OF assms that] by auto
  ultimately show ?thesis
    using vw_alloc_refines [OF assms] rv by simp
qed

theorem bitmap_view_refines_witness:
  "bm_alloc_contiguous (view_abs demo_view) 3 =
     map_prod id view_abs (vw_alloc_contiguous demo_view 3)"
  using bitmap_view_refines [OF demo_view_ok] by blast

end
