(* ===== verification/Float64.thy ===== *)
theory Float64
  imports Prelude
begin

text \<open>
  The IEEE 754 binary64 operations the sources apply to \<open>f64\<close> values, on bit patterns: the
  conversions between integers and floats (Rust's \<open>as\<close> casts: round to nearest even one way,
  truncate and saturate the other) and the comparisons. A \<open>i64\<close> is its two's complement bit
  pattern, read with \<open>sint\<close>.
\<close>

type_synonym i64 = "64 word"

section \<open>Decoding\<close>

definition f64_negative :: "f64 \<Rightarrow> bool" where
  "f64_negative b = bit b 63"

text \<open>The magnitude of a finite value is \<open>f64_mantissa b * 2 ^ (f64_scale b) / 2 ^ 1075\<close>.\<close>

definition f64_scale :: "f64 \<Rightarrow> nat" where
  "f64_scale b = max 1 (unat (f64_exponent b))"

definition f64_mantissa :: "f64 \<Rightarrow> nat" where
  "f64_mantissa b =
     (if f64_exponent b = 0 then unat (f64_fraction b) else 2 ^ 52 + unat (f64_fraction b))"

text \<open>The magnitude in units of \<open>2 ^ -1075\<close>, an exact integer; the signed value follows.\<close>

definition f64_units :: "f64 \<Rightarrow> int" where
  "f64_units b =
     (let m = int (f64_mantissa b * 2 ^ f64_scale b) in if f64_negative b then - m else m)"

section \<open>Comparison\<close>

text \<open>\<open>a == b\<close> and \<open>a < b\<close>: false as soon as one side is a NaN, zero equals minus zero.\<close>

definition f64_key :: "f64 \<Rightarrow> int" where
  "f64_key b =
     (if f64_is_finite b then f64_units b
      else if f64_negative b then - (2 ^ 2200) else 2 ^ 2200)"

definition f64_eq :: "f64 \<Rightarrow> f64 \<Rightarrow> bool" where
  "f64_eq a b \<longleftrightarrow> \<not> f64_is_nan a \<and> \<not> f64_is_nan b \<and> f64_key a = f64_key b"

definition f64_less :: "f64 \<Rightarrow> f64 \<Rightarrow> bool" where
  "f64_less a b \<longleftrightarrow> \<not> f64_is_nan a \<and> \<not> f64_is_nan b \<and> f64_key a < f64_key b"

definition f64_le :: "f64 \<Rightarrow> f64 \<Rightarrow> bool" where
  "f64_le a b \<longleftrightarrow> \<not> f64_is_nan a \<and> \<not> f64_is_nan b \<and> f64_key a \<le> f64_key b"

definition f64_zero :: f64 where "f64_zero = 0"
definition f64_one :: f64 where "f64_one = 0x3FF0000000000000"

section \<open>Integer to float\<close>

text \<open>The number of bits of \<open>n\<close>.\<close>

fun bit_width :: "nat \<Rightarrow> nat" where
  "bit_width n = (if n = 0 then 0 else Suc (bit_width (n div 2)))"

declare bit_width.simps [simp del]

text \<open>Round to nearest, ties to even, dropping the \<open>s\<close> low bits.\<close>

definition round_shift :: "nat \<Rightarrow> nat \<Rightarrow> nat" where
  "round_shift n s =
     (let q = n div 2 ^ s; r = n mod 2 ^ s
      in if 2 * r > 2 ^ s \<or> (2 * r = 2 ^ s \<and> odd q) then q + 1 else q)"

text \<open>
  The bit pattern of the float nearest to a natural number below \<open>2 ^ 1023\<close>: with \<open>w\<close> bits the
  leading one is bit \<open>w - 1\<close>, so the biased exponent is \<open>w + 1022\<close>. A mantissa that rounds up to
  \<open>2 ^ 53\<close> carries into the exponent.
\<close>

definition f64_of_nat :: "nat \<Rightarrow> f64" where
  "f64_of_nat n =
     (if n = 0 then 0
      else let w = bit_width n;
               m = (if w \<le> 53 then n * 2 ^ (53 - w) else round_shift n (w - 53))
           in of_nat ((w + 1021) * 2 ^ 52 + m))"

definition f64_of_int :: "int \<Rightarrow> f64" where
  "f64_of_int i = (if i < 0 then f64_of_nat (nat (- i)) OR push_bit 63 1 else f64_of_nat (nat i))"

section \<open>Float to integer\<close>

text \<open>\<open>x as i64\<close>: NaN is 0, everything else truncates towards zero and saturates.\<close>

definition f64_trunc :: "f64 \<Rightarrow> int" where
  "f64_trunc b =
     (let m = int (f64_mantissa b * 2 ^ f64_scale b div 2 ^ 1075)
      in if f64_negative b then - m else m)"

definition f64_as_i64 :: "f64 \<Rightarrow> i64" where
  "f64_as_i64 b =
     (if f64_is_nan b then 0
      else if \<not> f64_is_finite b then (if f64_negative b then of_int (- (2 ^ 63)) else of_int (2 ^ 63 - 1))
      else of_int (max (- (2 ^ 63)) (min (2 ^ 63 - 1) (f64_trunc b))))"

definition i64_as_f64 :: "i64 \<Rightarrow> f64" where
  "i64_as_f64 i = f64_of_int (sint i)"

section \<open>Exact conversion of small integers\<close>

lemma bit_width_bounds: "n > 0 \<Longrightarrow> 2 ^ (bit_width n - 1) \<le> n \<and> n < 2 ^ bit_width n"
proof (induction n rule: bit_width.induct)
  case (1 n)
  show ?case
  proof (cases "n div 2 = 0")
    case True
    with "1.prems" have "n = 1" by auto
    then show ?thesis
      by (simp add: bit_width.simps [of "Suc 0"] bit_width.simps [of 0])
  next
    case False
    with "1.IH" "1.prems" have ih: "2 ^ (bit_width (n div 2) - 1) \<le> n div 2" "n div 2 < 2 ^ bit_width (n div 2)"
      by auto
    from False have pos: "0 < bit_width (n div 2)"
      by (simp add: bit_width.simps [of "n div 2"])
    have "2 ^ bit_width (n div 2) \<le> n"
      using ih(1) pos power_Suc [of "2::nat" "bit_width (n div 2) - 1"] by simp
    moreover have "n < 2 * 2 ^ bit_width (n div 2)"
      using ih(2) by linarith
    ultimately show ?thesis
      using "1.prems" by (simp add: bit_width.simps [of n])
  qed
qed

lemma bit_width_le: "n < 2 ^ k \<Longrightarrow> bit_width n \<le> k"
proof (cases "n = 0")
  case True
  then show ?thesis by (simp add: bit_width.simps)
next
  case False
  assume n: "n < 2 ^ k"
  from False bit_width_bounds have "2 ^ (bit_width n - 1) \<le> n" by blast
  with n have "2 ^ (bit_width n - 1) < (2::nat) ^ k" by linarith
  then have "bit_width n - 1 < k" by simp
  then show ?thesis by linarith
qed

text \<open>Below \<open>2 ^ 53\<close> the conversion is exact: exponent, fraction and sign decode to the number.\<close>

lemma f64_of_nat_fields:
  assumes "0 < n" and "n < 2 ^ 53"
  defines "w \<equiv> bit_width n"
  shows "unat (f64_exponent (f64_of_nat n)) = w + 1022"
    and "unat (f64_fraction (f64_of_nat n)) = n * 2 ^ (53 - w) - 2 ^ 52"
    and "\<not> f64_negative (f64_of_nat n)"
    and "2 ^ 52 \<le> n * 2 ^ (53 - w)" and "w \<le> 53" and "0 < w"
proof -
  have w53: "w \<le> 53"
    unfolding w_def using assms(2) by (rule bit_width_le)
  have wpos: "0 < w"
    unfolding w_def using assms(1) by (simp add: bit_width.simps [of n])
  have lo: "2 ^ (w - 1) \<le> n" and hi: "n < 2 ^ w"
    using bit_width_bounds [OF assms(1)] by (simp_all add: w_def)
  let ?m = "n * 2 ^ (53 - w)"
  have "2 ^ (w - 1) * 2 ^ (53 - w) \<le> ?m" using lo by (rule mult_le_mono1)
  moreover have "(2::nat) ^ (w - 1) * 2 ^ (53 - w) = 2 ^ 52"
    using w53 wpos by (simp flip: power_add)
  ultimately have m_lo: "2 ^ 52 \<le> ?m" by metis
  have "?m < 2 ^ w * 2 ^ (53 - w)" using hi by simp
  moreover have "(2::nat) ^ w * 2 ^ (53 - w) = 2 ^ 53"
    using w53 by (simp flip: power_add)
  ultimately have m_hi: "?m < 2 ^ 53" by simp
  let ?k = "(w + 1022) * 2 ^ 52 + (?m - 2 ^ 52)"
  have eq: "f64_of_nat n = of_nat ?k"
    using assms(1) w53 m_lo by (simp add: f64_of_nat_def Let_def w_def algebra_simps)
  have small: "?k < 2 ^ 63"
    using w53 m_hi by simp
  have u: "unat (f64_of_nat n) = ?k"
    unfolding eq unat_of_nat by (rule mod_less) (use small in simp)
  have frac: "?m - 2 ^ 52 < 2 ^ 52" using m_hi by simp
  have d: "?k div 2 ^ 52 = w + 1022" using frac by simp
  have dm: "?k mod 2 ^ 52 = ?m - 2 ^ 52" unfolding mod_mult_self3 using frac by (rule mod_less)
  show "unat (f64_exponent (f64_of_nat n)) = w + 1022"
    by (simp only: f64_exponent_def unsigned_take_bit_eq unat_drop_bit_eq u,
        simp only: drop_bit_eq_div take_bit_eq_mod d) (use w53 in simp)
  show "unat (f64_fraction (f64_of_nat n)) = n * 2 ^ (53 - w) - 2 ^ 52"
    by (simp only: f64_fraction_def unsigned_take_bit_eq u, simp only: take_bit_eq_mod dm)
  have "\<not> bit (unat (f64_of_nat n)) 63"
    unfolding u using small by (simp add: bit_iff_odd)
  then show "\<not> f64_negative (f64_of_nat n)"
    by (simp add: f64_negative_def bit_unsigned_iff)
  show "2 ^ 52 \<le> n * 2 ^ (53 - w)" "w \<le> 53" "0 < w"
    using m_lo w53 wpos by simp_all
qed


lemma f64_of_nat_trunc:
  assumes "n < 2 ^ 53"
  shows "f64_is_finite (f64_of_nat n)" and "f64_trunc (f64_of_nat n) = int n"
    and "\<not> f64_negative (f64_of_nat n)"
proof -
  have "f64_is_finite (f64_of_nat n) \<and> f64_trunc (f64_of_nat n) = int n \<and> \<not> f64_negative (f64_of_nat n)"
  proof (cases "n = 0")
    case True
    then show ?thesis
      by (simp add: f64_of_nat_def f64_class_defs f64_trunc_def f64_mantissa_def f64_negative_def)
  next
    case False
    then have pos: "0 < n" by simp
    note fld = f64_of_nat_fields [OF pos assms]
    let ?w = "bit_width n"
    have e: "f64_exponent (f64_of_nat n) \<noteq> 0x7FF" "f64_exponent (f64_of_nat n) \<noteq> 0"
      using fld(1,5) by (auto dest: arg_cong [where f = unat])
    have m: "f64_mantissa (f64_of_nat n) = n * 2 ^ (53 - ?w)"
      using e(2) fld(2,4) by (simp add: f64_mantissa_def)
    have sc: "f64_scale (f64_of_nat n) = ?w + 1022"
      using fld(1) by (simp add: f64_scale_def)
    have "n * 2 ^ (53 - ?w) * 2 ^ (?w + 1022) = n * 2 ^ 1075"
      using fld(5) by (simp add: mult.assoc flip: power_add del: power_numeral)
    then have "f64_mantissa (f64_of_nat n) * 2 ^ f64_scale (f64_of_nat n) div 2 ^ 1075 = n"
      unfolding m sc by (simp only: nonzero_mult_div_cancel_right power_not_zero zero_neq_numeral not_False_eq_True)
    then have "f64_trunc (f64_of_nat n) = int n"
      using fld(3) by (simp only: f64_trunc_def Let_def if_False)
    with e(1) fld(3) show ?thesis
      by (simp add: f64_is_finite_def)
  qed
  then show "f64_is_finite (f64_of_nat n)" "f64_trunc (f64_of_nat n) = int n"
    "\<not> f64_negative (f64_of_nat n)"
    by simp_all
qed

text \<open>Setting the sign bit changes nothing else.\<close>

lemma sign_bit_fields:
  assumes "b' = b OR push_bit 63 (1 :: f64)"
  shows "f64_exponent b' = f64_exponent b" and "f64_fraction b' = f64_fraction b" and "f64_negative b'"
proof -
  show "f64_exponent b' = f64_exponent b"
    by (rule bit_word_eqI)
      (auto simp: assms f64_exponent_def bit_simps)
  show "f64_fraction b' = f64_fraction b"
    by (rule bit_word_eqI) (auto simp: assms f64_fraction_def bit_simps)
  show "f64_negative b'"
    by (simp add: assms f64_negative_def bit_or_iff bit_exp_iff)
qed

lemma f64_of_int_trunc:
  assumes "\<bar>i\<bar> < 2 ^ 53"
  shows "f64_is_finite (f64_of_int i)" and "f64_trunc (f64_of_int i) = i"
proof -
  have small: "nat \<bar>i\<bar> < 2 ^ 53" using assms by simp
  note nn = f64_of_nat_trunc [OF small]
  have "f64_is_finite (f64_of_int i) \<and> f64_trunc (f64_of_int i) = i"
  proof (cases "i < 0")
    case True
    let ?b = "f64_of_nat (nat (- i))"
    let ?b' = "?b OR push_bit 63 1"
    have sg: "f64_exponent ?b' = f64_exponent ?b" "f64_fraction ?b' = f64_fraction ?b" "f64_negative ?b'"
      using sign_bit_fields [of ?b' ?b] by simp_all
    have eqn: "nat \<bar>i\<bar> = nat (- i)" "int (nat (- i)) = - i" using True by simp_all
    note b = nn [unfolded eqn]
    have "f64_trunc ?b' = - f64_trunc ?b"
      using sg b(3) by (simp only: f64_trunc_def f64_mantissa_def f64_scale_def Let_def if_True if_False)
    moreover have "f64_of_int i = ?b'"
      using True by (simp only: f64_of_int_def if_True)
    ultimately show ?thesis
      using sg(1) b by (simp only: f64_is_finite_def minus_minus not_False_eq_True)
  next
    case False
    with nn show ?thesis by (simp add: f64_of_int_def)
  qed
  then show "f64_is_finite (f64_of_int i)" "f64_trunc (f64_of_int i) = i" by simp_all
qed

lemma i64_f64_roundtrip:
  assumes "\<bar>sint i\<bar> < 2 ^ 53"
  shows "f64_as_i64 (i64_as_f64 i) = i"
proof -
  note t = f64_of_int_trunc [OF assms]
  have "\<not> f64_is_nan (f64_of_int (sint i))"
    using t(1) nan_not_finite by blast
  moreover have "max (- (2 ^ 63)) (min (2 ^ 63 - 1) (sint i)) = sint i"
    using assms by (simp add: abs_less_iff)
  ultimately show ?thesis
    using t by (simp only: f64_as_i64_def i64_as_f64_def if_False if_True not_True_eq_False of_int_sint scast_id)
qed

end
