(* ===== verification/Core_Types.thy ===== *)
theory Core_Types
  imports Float64
begin

text \<open>
  The types shared by firmware and gateway: \<open>libs/voltage-core/src/types.rs\<close> (the four remote
  point types with their packed internal ids, the quality flags, the stack-allocated point value)
  and \<open>libs/voltage-core/src/frame.rs\<close> (readings, the bounded batch of readings, commands and
  their acknowledgments).
\<close>

section \<open>Point types\<close>

datatype point_type = Telemetry | Signal | Control | Adjustment

fun as_str :: "point_type \<Rightarrow> string" where
  "as_str Telemetry = ''T''"
| "as_str Signal = ''S''"
| "as_str Control = ''C''"
| "as_str Adjustment = ''A''"

fun as_char :: "point_type \<Rightarrow> char" where
  "as_char Telemetry = CHR ''T''"
| "as_char Signal = CHR ''S''"
| "as_char Control = CHR ''C''"
| "as_char Adjustment = CHR ''A''"

fun to_u8 :: "point_type \<Rightarrow> u8" where
  "to_u8 Telemetry = 0"
| "to_u8 Signal = 1"
| "to_u8 Control = 2"
| "to_u8 Adjustment = 3"

definition from_u8 :: "u8 \<Rightarrow> point_type option" where
  "from_u8 v =
     (if v = 0 then Some Telemetry
      else if v = 1 then Some Signal
      else if v = 2 then Some Control
      else if v = 3 then Some Adjustment
      else None)"

definition from_str :: "string \<Rightarrow> point_type option" where
  "from_str s =
     (if s \<in> {''T'', ''t'', ''YC'', ''yc'', ''Yc'', ''yC''} then Some Telemetry
      else if s \<in> {''S'', ''s'', ''YX'', ''yx'', ''Yx'', ''yX''} then Some Signal
      else if s \<in> {''C'', ''c'', ''YK'', ''yk'', ''Yk'', ''yK''} then Some Control
      else if s \<in> {''A'', ''a'', ''YT'', ''yt'', ''Yt'', ''yT''} then Some Adjustment
      else None)"

fun is_measurement :: "point_type \<Rightarrow> bool" where
  "is_measurement Telemetry = True"
| "is_measurement Signal = True"
| "is_measurement _ = False"

fun is_action :: "point_type \<Rightarrow> bool" where
  "is_action Control = True"
| "is_action Adjustment = True"
| "is_action _ = False"

fun is_analog :: "point_type \<Rightarrow> bool" where
  "is_analog Telemetry = True"
| "is_analog Adjustment = True"
| "is_analog _ = False"

fun is_digital :: "point_type \<Rightarrow> bool" where
  "is_digital Signal = True"
| "is_digital Control = True"
| "is_digital _ = False"

definition is_input :: "point_type \<Rightarrow> bool" where
  "is_input p = is_measurement p"

definition is_output :: "point_type \<Rightarrow> bool" where
  "is_output p = is_action p"

text \<open>\<open>u32::MAX / 4\<close>.\<close>

definition OFFSET :: u32 where
  "OFFSET = 0xFFFFFFFF div 4"

fun type_offset :: "point_type \<Rightarrow> u32" where
  "type_offset Telemetry = 0"
| "type_offset Signal = OFFSET"
| "type_offset Control = OFFSET * 2"
| "type_offset Adjustment = OFFSET * 3"

definition to_internal_id :: "point_type \<Rightarrow> u32 \<Rightarrow> u32" where
  "to_internal_id p point_id = point_id + type_offset p"

definition from_internal_id :: "u32 \<Rightarrow> point_type \<times> u32" where
  "from_internal_id internal_id =
     (let type_index = internal_id div OFFSET;
          original_id = internal_id mod OFFSET;
          p = (if type_index = 0 then Telemetry
               else if type_index = 1 then Signal
               else if type_index = 2 then Control
               else Adjustment)
      in (p, original_id))"

lemma from_u8_to_u8 [simp]: "from_u8 (to_u8 p) = Some p"
  by (cases p) (simp_all add: from_u8_def)

lemma to_u8_inject [simp]: "to_u8 p = to_u8 q \<longleftrightarrow> p = q"
  by (metis from_u8_to_u8 option.inject)

text \<open>The declaration order of the enumeration is the order of its codes.\<close>

instantiation point_type :: linorder
begin

definition less_eq_point_type :: "point_type \<Rightarrow> point_type \<Rightarrow> bool" where
  "less_eq_point_type a b \<longleftrightarrow> to_u8 a \<le> to_u8 b"

definition less_point_type :: "point_type \<Rightarrow> point_type \<Rightarrow> bool" where
  "less_point_type a b \<longleftrightarrow> to_u8 a < to_u8 b"

instance
proof
  fix x y z :: point_type
  show "(x < y) = (x \<le> y \<and> \<not> y \<le> x)"
    by (auto simp: less_eq_point_type_def less_point_type_def less_le)
  show "x \<le> x"
    by (simp add: less_eq_point_type_def)
  show "x \<le> y \<Longrightarrow> y \<le> z \<Longrightarrow> x \<le> z"
    by (simp add: less_eq_point_type_def)
  show "x \<le> y \<Longrightarrow> y \<le> x \<Longrightarrow> x = y"
    by (metis less_eq_point_type_def order_antisym to_u8_inject)
  show "x \<le> y \<or> y \<le> x"
    by (auto simp: less_eq_point_type_def)
qed

end

section \<open>Quality\<close>

datatype quality = Good | Stale | CommFail | DeviceError | OutOfRange | Invalid

fun is_good :: "quality \<Rightarrow> bool" where
  "is_good Good = True"
| "is_good _ = False"

fun quality_to_u8 :: "quality \<Rightarrow> u8" where
  "quality_to_u8 Good = 0"
| "quality_to_u8 Stale = 1"
| "quality_to_u8 CommFail = 2"
| "quality_to_u8 DeviceError = 3"
| "quality_to_u8 OutOfRange = 4"
| "quality_to_u8 Invalid = 0xFF"

definition quality_from_u8 :: "u8 \<Rightarrow> quality" where
  "quality_from_u8 v =
     (if v = 0 then Good
      else if v = 1 then Stale
      else if v = 2 then CommFail
      else if v = 3 then DeviceError
      else if v = 4 then OutOfRange
      else Invalid)"

section \<open>Values\<close>

datatype point_value =
    Float f64
  | Integer i64
  | Bool bool
  | String16 "u8 list" u8

definition value_from_bytes :: "u8 list \<Rightarrow> point_value" where
  "value_from_bytes bytes =
     (let len = min (length bytes) 16
      in String16 (take len bytes @ replicate (16 - len) 0) (of_nat len))"

fun as_f64 :: "point_value \<Rightarrow> f64 option" where
  "as_f64 (Float v) = Some v"
| "as_f64 (Integer v) = Some (i64_as_f64 v)"
| "as_f64 (Bool v) = Some (if v then f64_one else f64_zero)"
| "as_f64 (String16 _ _) = None"

fun as_i64 :: "point_value \<Rightarrow> i64 option" where
  "as_i64 (Float v) = Some (f64_as_i64 v)"
| "as_i64 (Integer v) = Some v"
| "as_i64 (Bool v) = Some (if v then 1 else 0)"
| "as_i64 (String16 _ _) = None"

fun as_bool :: "point_value \<Rightarrow> bool option" where
  "as_bool (Float v) = Some (\<not> f64_eq v f64_zero)"
| "as_bool (Integer v) = Some (v \<noteq> 0)"
| "as_bool (Bool v) = Some v"
| "as_bool (String16 _ _) = None"

fun as_str_bytes :: "point_value \<Rightarrow> (u8 list \<times> u8) option" where
  "as_str_bytes (String16 buf len) = Some (buf, len)"
| "as_str_bytes _ = None"

definition value_default :: point_value where
  "value_default = Float f64_zero"

section \<open>Readings and batches\<close>

definition MAX_BATCH_POINTS :: nat where
  "MAX_BATCH_POINTS = 64"

record point_reading =
  rd_point_id :: u32
  rd_point_type :: point_type
  rd_value :: point_value
  rd_quality :: quality
  rd_timestamp :: u64

definition telemetry :: "u32 \<Rightarrow> f64 \<Rightarrow> u64 \<Rightarrow> point_reading" where
  "telemetry point_id v timestamp =
     \<lparr>rd_point_id = point_id, rd_point_type = Telemetry, rd_value = Float v,
      rd_quality = Good, rd_timestamp = timestamp\<rparr>"

definition signal :: "u32 \<Rightarrow> bool \<Rightarrow> u64 \<Rightarrow> point_reading" where
  "signal point_id v timestamp =
     \<lparr>rd_point_id = point_id, rd_point_type = Signal, rd_value = Bool v,
      rd_quality = Good, rd_timestamp = timestamp\<rparr>"

definition with_quality :: "point_reading \<Rightarrow> quality \<Rightarrow> point_reading" where
  "with_quality r q = r\<lparr>rd_quality := q\<rparr>"

record point_batch =
  pb_instance_id :: u32
  pb_readings :: "point_reading list"
  pb_count :: usize

definition batch_new :: "u32 \<Rightarrow> point_batch" where
  "batch_new instance_id =
     \<lparr>pb_instance_id = instance_id,
      pb_readings = replicate MAX_BATCH_POINTS (telemetry 0 f64_zero 0),
      pb_count = 0\<rparr>"

definition batch_push :: "point_batch \<Rightarrow> point_reading \<Rightarrow> bool \<times> point_batch" where
  "batch_push b r =
     (if pb_count b \<ge> MAX_BATCH_POINTS then (False, b)
      else (True, b\<lparr>pb_readings := (pb_readings b)[pb_count b := r], pb_count := pb_count b + 1\<rparr>))"

definition batch_readings :: "point_batch \<Rightarrow> point_reading list" where
  "batch_readings b = take (pb_count b) (pb_readings b)"

definition batch_len :: "point_batch \<Rightarrow> usize" where
  "batch_len b = pb_count b"

definition batch_is_empty :: "point_batch \<Rightarrow> bool" where
  "batch_is_empty b \<longleftrightarrow> pb_count b = 0"

definition batch_clear :: "point_batch \<Rightarrow> point_batch" where
  "batch_clear b = b\<lparr>pb_count := 0\<rparr>"

section \<open>Commands\<close>

record control_command =
  cc_instance_id :: u32
  cc_point_id :: u32
  cc_value :: point_value
  cc_sequence :: u32
  cc_timeout_ms :: u32

definition digital :: "u32 \<Rightarrow> u32 \<Rightarrow> bool \<Rightarrow> u32 \<Rightarrow> control_command" where
  "digital instance_id point_id on sequence =
     \<lparr>cc_instance_id = instance_id, cc_point_id = point_id, cc_value = Bool on,
      cc_sequence = sequence, cc_timeout_ms = 5000\<rparr>"

definition analog :: "u32 \<Rightarrow> u32 \<Rightarrow> f64 \<Rightarrow> u32 \<Rightarrow> control_command" where
  "analog instance_id point_id v sequence =
     \<lparr>cc_instance_id = instance_id, cc_point_id = point_id, cc_value = Float v,
      cc_sequence = sequence, cc_timeout_ms = 5000\<rparr>"

definition with_timeout :: "control_command \<Rightarrow> u32 \<Rightarrow> control_command" where
  "with_timeout c timeout_ms = c\<lparr>cc_timeout_ms := timeout_ms\<rparr>"

datatype command_status = Pending | Success | Failed | Timeout | Rejected

record command_ack =
  ack_sequence :: u32
  ack_status :: command_status
  ack_error_code :: u16
  ack_timestamp :: u64

definition ack_success :: "u32 \<Rightarrow> u64 \<Rightarrow> command_ack" where
  "ack_success sequence timestamp =
     \<lparr>ack_sequence = sequence, ack_status = Success, ack_error_code = 0, ack_timestamp = timestamp\<rparr>"

definition ack_failed :: "u32 \<Rightarrow> u16 \<Rightarrow> u64 \<Rightarrow> command_ack" where
  "ack_failed sequence error_code timestamp =
     \<lparr>ack_sequence = sequence, ack_status = Failed, ack_error_code = error_code,
      ack_timestamp = timestamp\<rparr>"

section \<open>Codes and names of point types\<close>

lemma from_u8_Some: "from_u8 v = Some p \<Longrightarrow> v = to_u8 p"
  by (auto simp: from_u8_def split: if_splits)

lemma unat_to_u8_less [simp]: "unat (to_u8 p) < 4"
  by (cases p) simp_all

lemma from_str_as_str [simp]: "from_str (as_str p) = Some p"
  by (cases p) (simp_all add: from_str_def)

lemma quality_roundtrip: "quality_from_u8 (quality_to_u8 q) = q"
  by (cases q) (simp_all add: quality_from_u8_def)

lemma action_iff_not_measurement: "is_action p \<longleftrightarrow> \<not> is_measurement p"
  by (cases p) simp_all

lemma analog_iff_not_digital: "is_analog p \<longleftrightarrow> \<not> is_digital p"
  by (cases p) simp_all

section \<open>Packed internal ids\<close>

lemma OFFSET_val: "OFFSET = 0x3FFFFFFF"
  by (simp add: OFFSET_def)

lemma unat_OFFSET: "unat OFFSET = 0x3FFFFFFF"
  by (simp add: OFFSET_val)

text \<open>The block of internal ids of a point type starts at \<open>to_u8 p * OFFSET\<close>.\<close>

lemma unat_type_offset: "unat (type_offset p) = unat (to_u8 p) * 0x3FFFFFFF"
  by (cases p) (simp_all add: OFFSET_val)

lemma unat_to_internal_id:
  assumes "unat point_id < 0x3FFFFFFF"
  shows "unat (to_internal_id p point_id) = unat (to_u8 p) * 0x3FFFFFFF + unat point_id"
proof -
  have "unat (to_u8 p) * 0x3FFFFFFF + unat point_id < 2 ^ 32"
    using assms by (cases p) simp_all
  then have "(unat (to_u8 p) * 0x3FFFFFFF + unat point_id) mod 2 ^ LENGTH(32) =
    unat (to_u8 p) * 0x3FFFFFFF + unat point_id"
    by simp
  then show ?thesis
    by (simp only: to_internal_id_def unat_word_ariths unat_type_offset add.commute)
qed

lemma from_internal_id_unat:
  "snd (from_internal_id i) = i mod OFFSET"
  "fst (from_internal_id i) =
     (if unat i div 0x3FFFFFFF = 0 then Telemetry
      else if unat i div 0x3FFFFFFF = 1 then Signal
      else if unat i div 0x3FFFFFFF = 2 then Control
      else Adjustment)"
  by (simp_all add: from_internal_id_def Let_def word_unat_eq_iff unat_div unat_OFFSET)

lemma internal_id_decode:
  assumes "unat point_id < 0x3FFFFFFF"
  shows "from_internal_id (to_internal_id p point_id) = (p, point_id)"
proof (rule prod_eqI)
  note u = unat_to_internal_id [OF assms, of p]
  have d: "unat (to_internal_id p point_id) div 0x3FFFFFFF = unat (to_u8 p)"
    using assms by (simp add: u)
  show "fst (from_internal_id (to_internal_id p point_id)) = fst (p, point_id)"
    by (simp only: from_internal_id_unat d) (cases p; simp)
  have "unat (to_internal_id p point_id mod OFFSET) = unat point_id"
    using assms by (simp add: unat_mod unat_OFFSET u)
  then show "snd (from_internal_id (to_internal_id p point_id)) = snd (p, point_id)"
    by (simp add: from_internal_id_unat word_unat_eq_iff)
qed

section \<open>Batches as bounded lists\<close>

definition batch_wf :: "point_batch \<Rightarrow> bool" where
  "batch_wf b \<longleftrightarrow> length (pb_readings b) = MAX_BATCH_POINTS \<and> pb_count b \<le> MAX_BATCH_POINTS"

lemma batch_wf_new: "batch_wf (batch_new i)"
  by (simp add: batch_wf_def batch_new_def)

lemma batch_readings_new [simp]: "batch_readings (batch_new i) = []"
  by (simp add: batch_readings_def batch_new_def)

lemma batch_readings_clear [simp]: "batch_readings (batch_clear b) = []"
  by (simp add: batch_readings_def batch_clear_def)

lemma batch_len_readings: "batch_wf b \<Longrightarrow> batch_len b = length (batch_readings b)"
  by (simp add: batch_wf_def batch_len_def batch_readings_def)

lemma batch_push_cases:
  assumes "batch_wf b"
  shows "batch_push b r = (ok, b') \<Longrightarrow> batch_wf b' \<and> ok = (length (batch_readings b) < MAX_BATCH_POINTS) \<and>
    batch_readings b' = (if ok then batch_readings b @ [r] else batch_readings b)"
  using assms
  by (auto simp: batch_push_def batch_wf_def batch_readings_def take_Suc_conv_app_nth split: if_splits)

fun push_all :: "point_batch \<Rightarrow> point_reading list \<Rightarrow> point_batch" where
  "push_all b [] = b"
| "push_all b (r # rs) = push_all (snd (batch_push b r)) rs"

lemma push_all_readings:
  "batch_wf b \<Longrightarrow> batch_readings (push_all b rs) = take MAX_BATCH_POINTS (batch_readings b @ rs)"
proof (induction rs arbitrary: b)
  case Nil
  then show ?case
    by (simp add: batch_wf_def batch_readings_def)
next
  case (Cons r rs)
  obtain ok b' where p: "batch_push b r = (ok, b')" by fastforce
  note pc = batch_push_cases [OF Cons.prems p]
  have le: "length (batch_readings b) \<le> MAX_BATCH_POINTS"
    using Cons.prems by (simp add: batch_wf_def batch_readings_def)
  show ?case
    using pc le Cons.IH [of b'] by (cases ok) (auto simp: p)
qed

section \<open>Properties\<close>

text \<open>Packing a point type and a point id into one internal id loses nothing exactly for the point
  ids below \<open>OFFSET\<close>, which is \<open>0x3FFFFFFF\<close>: decoding gives back the type and the id.  (The
  first id that fails is \<open>0x3FFFFFFF\<close>, one less than the quarter boundary \<open>0x40000000\<close>.)\<close>

lemma internal_id_roundtrip:
  "from_internal_id (to_internal_id p point_id) = (p, point_id) \<longleftrightarrow> point_id < OFFSET"
proof
  assume "from_internal_id (to_internal_id p point_id) = (p, point_id)"
  then have "point_id = to_internal_id p point_id mod OFFSET"
    by (metis from_internal_id_unat(1) snd_conv)
  then have "unat point_id = unat (to_internal_id p point_id) mod unat OFFSET"
    by (metis unat_mod)
  then show "point_id < OFFSET"
    by (simp add: word_less_nat_alt unat_OFFSET)
next
  assume "point_id < OFFSET"
  then have "unat point_id < 0x3FFFFFFF"
    by (simp only: word_less_nat_alt unat_OFFSET)
  then show "from_internal_id (to_internal_id p point_id) = (p, point_id)"
    by (rule internal_id_decode)
qed

text \<open>A point batch behaves as a list bounded by 64: after pushing any readings into a new batch it
  holds the first 64 of them in order, a further push is accepted exactly while there is room, and
  clearing empties it.\<close>

theorem point_batch_bounded_list:
  "batch_readings (push_all (batch_new i) rs) = take MAX_BATCH_POINTS rs \<and>
   (fst (batch_push (push_all (batch_new i) rs) r) \<longleftrightarrow> length rs < MAX_BATCH_POINTS) \<and>
   batch_readings (batch_clear (push_all (batch_new i) rs)) = []"
proof -
  have wf: "batch_wf (push_all b rs)" if "batch_wf b" for b
    using that
  proof (induction rs arbitrary: b)
    case (Cons r rs)
    have "batch_wf (snd (batch_push b r))"
      using batch_push_cases [OF Cons.prems, of r] by (metis prod.collapse)
    with Cons.IH show ?case by simp
  qed simp
  have rd: "batch_readings (push_all (batch_new i) rs) = take MAX_BATCH_POINTS rs"
    using push_all_readings [OF batch_wf_new] by simp
  have "fst (batch_push (push_all (batch_new i) rs) r) \<longleftrightarrow>
      length (batch_readings (push_all (batch_new i) rs)) < MAX_BATCH_POINTS"
    using batch_push_cases [OF wf [OF batch_wf_new], of i r] by (metis prod.collapse)
  with rd show ?thesis
    by (simp add: min_def split: if_splits)
qed

text \<open>The numeric views of a value agree where they must: an integer below \<open>2 ^ 53\<close> in magnitude
  survives the trip through \<open>f64\<close>, and a boolean reads the same through all three views.\<close>

theorem value_views_agree:
  assumes "\<bar>sint v\<bar> < 2 ^ 53"
  shows "map_option (\<lambda>f. as_i64 (Float f)) (as_f64 (Integer v)) = Some (as_i64 (Integer v)) \<and>
    as_bool (Bool b) = map_option (\<lambda>i. i \<noteq> 0) (as_i64 (Bool b))"
  using i64_f64_roundtrip [OF assms] by (cases b) simp_all

theorem value_views_agree_witness:
  "map_option (\<lambda>f. as_i64 (Float f)) (as_f64 (Integer 42)) = Some (as_i64 (Integer 42))"
  using value_views_agree [of 42 True] by simp

end
