(* ===== verification/Float_Arith.thy ===== *)
theory Float_Arith
  imports Float64
begin

text \<open>
  Arithmetic and parsing of \<open>f64\<close>: every finite value is an integer multiple of \<open>2 ^ -1074\<close>, so an
  exact result is a ratio of natural numbers, and \<open>f64_round\<close> gives the bit pattern nearest to it
  (ties to even, overflow to infinity).  Rust leaves the bits of a computed NaN open; the model uses
  the quiet NaN.
\<close>

section \<open>Rounding\<close>

definition UNIT :: nat where
  "UNIT = 2 ^ 1074"

text \<open>Nearest natural number to \<open>p / q\<close>, ties to even.\<close>

definition round_ratio :: "nat \<Rightarrow> nat \<Rightarrow> nat" where
  "round_ratio p q =
     (let k = p div q; r = p mod q
      in if 2 * r > q \<or> (2 * r = q \<and> odd k) then k + 1 else k)"

text \<open>
  The bits (without sign) nearest to \<open>p / q\<close>: \<open>s\<close> is the number of bits the value has beyond a
  53-bit significand in units of \<open>2 ^ -1074\<close>; a significand that rounds up to \<open>2 ^ 53\<close> carries into
  the exponent field.
\<close>

definition f64_round :: "nat \<Rightarrow> nat \<Rightarrow> nat" where
  "f64_round p q =
     (let n = p * UNIT;
          s = bit_width (n div q) - 53
      in min (s * 2 ^ 52 + round_ratio n (q * 2 ^ s)) (0x7FF * 2 ^ 52))"

definition f64_signed :: "bool \<Rightarrow> nat \<Rightarrow> f64" where
  "f64_signed neg bits = of_nat ((if neg then 2 ^ 63 else 0) + bits)"

definition f64_nan :: f64 where
  "f64_nan = 0x7FF8000000000000"

definition f64_infinity :: "bool \<Rightarrow> f64" where
  "f64_infinity neg = f64_signed neg (0x7FF * 2 ^ 52)"

section \<open>Operations\<close>

text \<open>The magnitude in units of \<open>2 ^ -1074\<close>.\<close>

definition f64_mag :: "f64 \<Rightarrow> nat" where
  "f64_mag b = f64_mantissa b * 2 ^ (f64_scale b - 1)"

definition f64_value :: "f64 \<Rightarrow> int" where
  "f64_value b = (if f64_negative b then - int (f64_mag b) else int (f64_mag b))"

definition f64_mul :: "f64 \<Rightarrow> f64 \<Rightarrow> f64" where
  "f64_mul a b =
     (let neg = (f64_negative a \<noteq> f64_negative b) in
      if f64_is_nan a \<or> f64_is_nan b then f64_nan
      else if \<not> f64_is_finite a then (if f64_is_finite b \<and> f64_mag b = 0 then f64_nan else f64_infinity neg)
      else if \<not> f64_is_finite b then (if f64_mag a = 0 then f64_nan else f64_infinity neg)
      else f64_signed neg (f64_round (f64_mag a * f64_mag b) (UNIT * UNIT)))"

definition f64_add :: "f64 \<Rightarrow> f64 \<Rightarrow> f64" where
  "f64_add a b =
     (if f64_is_nan a \<or> f64_is_nan b then f64_nan
      else if \<not> f64_is_finite a then
        (if \<not> f64_is_finite b \<and> f64_negative a \<noteq> f64_negative b then f64_nan else a)
      else if \<not> f64_is_finite b then b
      else let v = f64_value a + f64_value b in
        if v = 0 then f64_signed (f64_negative a \<and> f64_negative b) 0
        else f64_signed (v < 0) (f64_round (nat \<bar>v\<bar>) UNIT))"

section \<open>Parsing\<close>

definition is_digit :: "char \<Rightarrow> bool" where
  "is_digit c \<longleftrightarrow> 48 \<le> (of_char c :: nat) \<and> (of_char c :: nat) \<le> 57"

definition digit_val :: "char \<Rightarrow> nat" where
  "digit_val c = of_char c - 48"

definition digits_val :: "string \<Rightarrow> nat" where
  "digits_val s = fold (\<lambda>c n. n * 10 + digit_val c) s 0"

text \<open>An optional leading sign.\<close>

fun split_sign :: "string \<Rightarrow> bool \<times> string" where
  "split_sign (c # s) =
     (if c = CHR ''-'' then (True, s) else if c = CHR ''+'' then (False, s) else (False, c # s))"
| "split_sign [] = (False, [])"

definition to_lower :: "char \<Rightarrow> char" where
  "to_lower c =
     (if 65 \<le> (of_char c :: nat) \<and> (of_char c :: nat) \<le> 90 then char_of (of_char c + 32 :: nat) else c)"

text \<open>The exponent part: nothing, or \<open>e\<close> or \<open>E\<close>, a sign and digits.\<close>

fun parse_exponent :: "string \<Rightarrow> int option" where
  "parse_exponent [] = Some 0"
| "parse_exponent (c # s) =
     (if to_lower c = CHR ''e'' then
        (let (neg, ds) = split_sign s in
         if ds = [] \<or> \<not> list_all is_digit ds then None
         else Some (if neg then - int (digits_val ds) else int (digits_val ds)))
      else None)"

text \<open>\<open>s.parse::<f64>()\<close>.\<close>

definition parse_f64 :: "string \<Rightarrow> f64 option" where
  "parse_f64 str =
     (let (neg, s) = split_sign str;
          low = map to_lower s
      in if low = ''nan'' then Some (if neg then f64_nan OR push_bit 63 1 else f64_nan)
         else if low = ''inf'' \<or> low = ''infinity'' then Some (f64_infinity neg)
         else let ip = takeWhile is_digit s;
                  rest = dropWhile is_digit s;
                  (fp, rest2) =
                    (case rest of
                       (c # r) \<Rightarrow> if c = CHR ''.'' then (takeWhile is_digit r, dropWhile is_digit r) else ([], rest)
                     | [] \<Rightarrow> ([], []))
              in if ip = [] \<and> fp = [] then None
                 else (case parse_exponent rest2 of
                         None \<Rightarrow> None
                       | Some e \<Rightarrow>
                           (let d = digits_val (ip @ fp);
                                e10 = e - int (length fp)
                            in Some (f64_signed neg
                                 (if e10 \<ge> 0 then f64_round (d * 10 ^ nat e10) 1
                                  else f64_round d (10 ^ nat (- e10)))))))"

text \<open>\<open>s.parse::<u32>()\<close>: an optional plus sign and digits whose value fits.\<close>

definition parse_u32 :: "string \<Rightarrow> u32 option" where
  "parse_u32 str =
     (let ds = (case str of (c # s) \<Rightarrow> if c = CHR ''+'' then s else str | [] \<Rightarrow> [])
      in if ds = [] \<or> \<not> list_all is_digit ds \<or> digits_val ds \<ge> 2 ^ 32 then None
         else Some (of_nat (digits_val ds)))"

text \<open>\<open>n.to_string()\<close>.\<close>

fun nat_digits :: "nat \<Rightarrow> string" where
  "nat_digits n =
     (if n < 10 then [char_of (48 + n)] else nat_digits (n div 10) @ [char_of (48 + n mod 10)])"

declare nat_digits.simps [simp del]

definition u32_to_string :: "u32 \<Rightarrow> string" where
  "u32_to_string n = nat_digits (unat n)"

section \<open>Printing and parsing numbers\<close>

lemma digits_val_append: "digits_val (xs @ [c]) = digits_val xs * 10 + digit_val c"
  by (simp add: digits_val_def)

lemma of_char_digit: "k < 10 \<Longrightarrow> (of_char (char_of (48 + k :: nat)) :: nat) = 48 + k"
  by simp

lemma nat_digits_props:
  "digits_val (nat_digits n) = n \<and> list_all is_digit (nat_digits n) \<and> nat_digits n \<noteq> []"
proof (induction n rule: nat_digits.induct)
  case (1 n)
  show ?case
  proof (cases "n < 10")
    case True
    then show ?thesis
      by (simp add: nat_digits.simps [of n] digits_val_def digit_val_def is_digit_def)
  next
    case False
    with 1 show ?thesis
      by (simp add: nat_digits.simps [of n] digits_val_append digit_val_def is_digit_def)
  qed
qed

lemma digit_not_plus: "is_digit c \<Longrightarrow> c \<noteq> CHR ''+''"
  by (auto simp: is_digit_def)

lemma parse_u32_to_string [simp]: "parse_u32 (u32_to_string n) = Some n"
proof -
  let ?s = "nat_digits (unat n)"
  have p: "digits_val ?s = unat n" "list_all is_digit ?s" "?s \<noteq> []"
    using nat_digits_props by auto
  then obtain c s where cs: "?s = c # s" by (meson list.exhaust)
  have "c \<noteq> CHR ''+''"
    using p(2) digit_not_plus by (simp add: cs)
  then show ?thesis
    using p unat_u32_bound [of n] by (simp add: parse_u32_def u32_to_string_def cs Let_def not_le)
qed

section \<open>Representable values are not changed by rounding\<close>

lemma unat_fields: "unat b = (if f64_negative b then 2 ^ 63 else 0) + unat (f64_exponent b) * 2 ^ 52 + unat (f64_fraction b)"
proof -
  have e: "unat (f64_exponent b) = unat b div 2 ^ 52 mod 2 ^ 11"
    by (simp only: f64_exponent_def unsigned_take_bit_eq unat_drop_bit_eq, simp only: drop_bit_eq_div take_bit_eq_mod)
  have f: "unat (f64_fraction b) = unat b mod 2 ^ 52"
    by (simp only: f64_fraction_def unsigned_take_bit_eq, simp only: take_bit_eq_mod)
  have n: "f64_negative b \<longleftrightarrow> odd (unat b div 2 ^ 63)"
    by (simp only: f64_negative_def bit_iff_odd [symmetric]) (simp add: bit_unsigned_iff)
  have "unat b div 2 ^ 63 < 2"
    using unat_u64_bound [of b] by simp
  then have s: "unat b div 2 ^ 63 = (if f64_negative b then 1 else 0)"
    unfolding n by (cases "unat b div 2 ^ 63"; cases "unat b div 2 ^ 63 - 1") auto
  have "unat b div 2 ^ 52 div 2 ^ 11 = unat b div 2 ^ 63"
    by (simp add: div_mult2_eq [symmetric])
  then have "unat b div 2 ^ 52 = unat b div 2 ^ 63 * 2 ^ 11 + unat (f64_exponent b)"
    unfolding e by (metis div_mult_mod_eq)
  moreover have "unat b = unat b div 2 ^ 52 * 2 ^ 52 + unat (f64_fraction b)"
    unfolding f by (metis div_mult_mod_eq)
  ultimately have "unat b = (unat b div 2 ^ 63 * 2 ^ 11 + unat (f64_exponent b)) * 2 ^ 52 + unat (f64_fraction b)"
    by metis
  then show ?thesis
    unfolding s by (simp add: algebra_simps)
qed

lemma f64_signed_fields:
  "f64_signed (f64_negative b) (unat (f64_exponent b) * 2 ^ 52 + unat (f64_fraction b)) = b"
proof -
  have "f64_signed (f64_negative b) (unat (f64_exponent b) * 2 ^ 52 + unat (f64_fraction b)) = of_nat (unat b)"
    unfolding f64_signed_def unat_fields [of b] by (simp only: add.assoc)
  then show ?thesis by simp
qed

lemma round_ratio_exact: "0 < q \<Longrightarrow> round_ratio (m * q) q = m"
  by (simp add: round_ratio_def)

lemma f64_round_scale: "0 < c \<Longrightarrow> f64_round (p * c) (q * c) = f64_round p q"
proof -
  assume c: "0 < c"
  have d: "(a * c) div (b * c) = a div b" "(a * c) mod (b * c) = (a mod b) * c" for a b
    using c by simp_all
  have r: "round_ratio (a * c) (b * c) = round_ratio a b" for a b
    using c by (simp add: round_ratio_def d Let_def flip: mult.assoc)
  have "p * c * UNIT = (p * UNIT) * c" "q * c * 2 ^ s = (q * 2 ^ s) * c" for s
    by (simp_all add: ac_simps)
  then show ?thesis
    by (simp only: f64_round_def Let_def d r)
qed

lemma bit_width_shift: "0 < m \<Longrightarrow> bit_width (m * 2 ^ k) = bit_width m + k"
proof (induction k)
  case (Suc k)
  then show ?case
    by (subst bit_width.simps) simp
qed simp

lemma fraction_bound: "unat (f64_fraction b) < 2 ^ 52"
  by (simp only: f64_fraction_def unsigned_take_bit_eq, simp only: take_bit_eq_mod) simp

lemma bit_width_eq: "2 ^ k \<le> n \<Longrightarrow> n < 2 ^ Suc k \<Longrightarrow> bit_width n = Suc k"
proof (rule antisym)
  assume n: "2 ^ k \<le> n" "n < 2 ^ Suc k"
  from bit_width_le [OF n(2)] show "bit_width n \<le> Suc k" .
  from n(1) have "0 < n" by (metis not_gr_zero power_not_zero zero_neq_numeral le_zero_eq)
  with bit_width_bounds [of n] n(1) have "(2::nat) ^ k < 2 ^ bit_width n" by linarith
  then show "Suc k \<le> bit_width n" by simp
qed

text \<open>A finite value is its own nearest representable value.\<close>

lemma f64_round_mag:
  assumes "f64_is_finite b"
  shows "f64_round (f64_mag b) UNIT = unat (f64_exponent b) * 2 ^ 52 + unat (f64_fraction b)"
proof -
  let ?e = "unat (f64_exponent b)" and ?f = "unat (f64_fraction b)" and ?m = "f64_mantissa b"
  have U: "0 < UNIT" by (simp add: UNIT_def)
  have f: "?f < 2 ^ 52" by (rule fraction_bound)
  have e: "?e < 0x7FF"
  proof -
    have "?e < 2 ^ 11"
      by (simp only: f64_exponent_def unsigned_take_bit_eq, simp only: take_bit_eq_mod) simp
    moreover have "?e \<noteq> 0x7FF"
      using assms by (auto simp: f64_is_finite_def word_unat_eq_iff)
    ultimately show ?thesis by simp
  qed
  define s where "s = f64_scale b - 1"
  have s: "bit_width (f64_mag b) - 53 = s"
  proof (cases "?e = 0")
    case True
    then have "f64_mag b = ?f" "s = 0"
      by (simp_all add: f64_mag_def f64_mantissa_def f64_scale_def s_def unat_eq_0)
    then show ?thesis
      using bit_width_le [OF f] by simp
  next
    case False
    then have m: "?m = 2 ^ 52 + ?f"
      by (auto simp: f64_mantissa_def)
    have "bit_width ?m = Suc 52"
      using f by (intro bit_width_eq) (simp_all add: m)
    then show ?thesis
      using m bit_width_shift [of ?m s] by (simp add: f64_mag_def s_def)
  qed
  have "f64_round (f64_mag b) UNIT = min (s * 2 ^ 52 + round_ratio (f64_mag b * UNIT) (UNIT * 2 ^ s)) (0x7FF * 2 ^ 52)"
    using U by (simp only: f64_round_def Let_def nonzero_mult_div_cancel_right s)
  also have "f64_mag b * UNIT = ?m * (UNIT * 2 ^ s)"
    by (simp add: f64_mag_def s_def)
  also have "round_ratio (?m * (UNIT * 2 ^ s)) (UNIT * 2 ^ s) = ?m"
    using U by (intro round_ratio_exact) simp
  also have "s * 2 ^ 52 + ?m = ?e * 2 ^ 52 + ?f"
  proof (cases ?e)
    case 0
    then show ?thesis by (simp add: s_def f64_scale_def f64_mantissa_def unat_eq_0)
  next
    case (Suc k)
    then have "f64_exponent b \<noteq> 0" by auto
    with Suc show ?thesis by (simp add: s_def f64_scale_def f64_mantissa_def)
  qed
  also have "min (?e * 2 ^ 52 + ?f) (0x7FF * 2 ^ 52) = ?e * 2 ^ 52 + ?f"
  proof -
    have "?e * 2 ^ 52 \<le> 0x7FE * 2 ^ 52" using e by simp
    with f show ?thesis by simp
  qed
  finally show ?thesis .
qed

text \<open>\<open>1.0 * v\<close> is \<open>v\<close>, and \<open>v + 0.0\<close> is \<open>v\<close> except that it turns \<open>-0.0\<close> into \<open>0.0\<close>.\<close>

lemma f64_one_facts: "f64_is_finite f64_one" "\<not> f64_negative f64_one" "f64_mag f64_one = UNIT"
proof -
  have e: "f64_exponent f64_one = 0x3FF" "f64_fraction f64_one = 0"
    by (simp_all add: f64_one_def f64_exponent_def f64_fraction_def drop_bit_eq_div take_bit_eq_mod)
  show "f64_is_finite f64_one"
    by (simp add: f64_is_finite_def e)
  show "\<not> f64_negative f64_one"
    by (simp add: f64_negative_def f64_one_def bit_iff_odd)
  have "f64_mantissa f64_one = 2 ^ 52" "f64_scale f64_one = 1023"
    by (simp_all add: f64_mantissa_def f64_scale_def e)
  then have "f64_mag f64_one = 2 ^ 52 * 2 ^ 1022"
    by (simp only: f64_mag_def) simp
  also have "\<dots> = UNIT"
    unfolding UNIT_def by (simp only: power_add [symmetric]) simp
  finally show "f64_mag f64_one = UNIT" .
qed

lemma f64_one_mul:
  assumes "f64_is_finite v"
  shows "f64_mul f64_one v = v"
proof -
  have "f64_round (f64_mag f64_one * f64_mag v) (UNIT * UNIT) = f64_round (f64_mag v) UNIT"
    using f64_round_scale [of UNIT "f64_mag v" UNIT] by (simp add: f64_one_facts mult.commute) (simp add: UNIT_def)
  moreover have "\<not> f64_is_nan f64_one" "\<not> f64_is_nan v"
    using nan_not_finite f64_one_facts assms by blast+
  ultimately show ?thesis
    using assms f64_signed_fields [of v]
    by (simp only: f64_mul_def Let_def f64_one_facts f64_round_mag if_False if_True not_True_eq_False
        not_False_eq_True simp_thms)
qed

lemma f64_zero_facts: "f64_is_finite f64_zero" "\<not> f64_negative f64_zero" "f64_mag f64_zero = 0"
  by (simp_all add: f64_zero_def f64_is_finite_def f64_exponent_def f64_negative_def f64_mag_def
      f64_mantissa_def f64_fraction_def)

lemma f64_mag_0_iff: "f64_mag b = 0 \<longleftrightarrow> f64_exponent b = 0 \<and> f64_fraction b = 0"
  by (simp add: f64_mag_def f64_mantissa_def unat_eq_0)

lemma f64_add_zero:
  assumes "f64_is_finite v"
  shows "f64_add v f64_zero = (if f64_mag v = 0 then f64_zero else v)"
proof (cases "f64_mag v = 0")
  case True
  with assms show ?thesis
    using nan_not_finite f64_zero_facts
    by (auto simp: f64_add_def f64_value_def f64_signed_def f64_zero_def)
next
  case False
  have "\<not> f64_is_nan f64_zero" "\<not> f64_is_nan v"
    using nan_not_finite f64_zero_facts assms by blast+
  moreover have "f64_value v \<noteq> 0" "(f64_value v < 0) = f64_negative v" "nat \<bar>f64_value v\<bar> = f64_mag v"
    using False by (auto simp: f64_value_def)
  moreover have "f64_value f64_zero = 0"
    by (simp add: f64_value_def f64_zero_facts)
  ultimately show ?thesis
    using assms False f64_signed_fields [of v]
    by (simp add: f64_add_def f64_zero_facts f64_round_mag)
qed

text \<open>Numeric equality only looks at the value.\<close>

lemma f64_units_mag: "f64_units b = 2 * f64_value b"
proof -
  have "(2::int) ^ f64_scale b = 2 * 2 ^ (f64_scale b - 1)"
    by (simp add: f64_scale_def power_eq_if max_def)
  then show ?thesis
    by (simp add: f64_units_def f64_value_def f64_mag_def Let_def)
qed

lemma f64_eq_finite: "f64_is_finite a \<Longrightarrow> f64_is_finite b \<Longrightarrow> f64_eq a b \<longleftrightarrow> f64_value a = f64_value b"
  using nan_not_finite by (auto simp: f64_eq_def f64_key_def f64_units_mag)

lemma f64_eq_refl: "f64_is_finite a \<Longrightarrow> f64_eq a a"
  by (simp add: f64_eq_finite)

end
