(* ===== verification/Routing.thy ===== *)
theory Routing
  imports Core_Types Float_Arith "HOL-Library.Product_Lexorder" "HOL-Library.Multiset"
begin

text \<open>
  The routing tables, \<open>libs/voltage-routing/src/routing_cache.rs\<close>: textual routes
  (\<open>channel:type:point\<close> to \<open>instance:M:point\<close>, \<open>channel:type:point\<close> with an optional linear
  transform, and back) are parsed into structured tables that are looked up by key.  A Rust
  \<open>HashMap\<close> iterates in an unspecified order, so a function that consumes one takes the list of its
  entries in the order of that iteration.
\<close>

section \<open>Route targets\<close>

record c2m_target =
  c2m_instance_id :: u32
  c2m_point_id :: u32

record c2c_target =
  c2c_channel_id :: u32
  c2c_point_type :: point_type
  c2c_point_id :: u32
  c2c_scale :: f64
  c2c_offset :: f64

record m2c_target =
  m2c_channel_id :: u32
  m2c_point_type :: point_type
  m2c_point_id :: u32

definition transform :: "c2c_target \<Rightarrow> f64 \<Rightarrow> f64" where
  "transform t v = f64_add (f64_mul (c2c_scale t) v) (c2c_offset t)"

definition is_identity_transform :: "c2c_target \<Rightarrow> bool" where
  "is_identity_transform t \<longleftrightarrow> f64_eq (c2c_scale t) f64_one \<and> f64_eq (c2c_offset t) f64_zero"

definition c2m_display :: "c2m_target \<Rightarrow> string" where
  "c2m_display t = u32_to_string (c2m_instance_id t) @ '':M:'' @ u32_to_string (c2m_point_id t)"

definition point_display :: "u32 \<Rightarrow> point_type \<Rightarrow> u32 \<Rightarrow> string" where
  "point_display ident pt point_id = u32_to_string ident @ '':'' @ as_str pt @ '':'' @ u32_to_string point_id"

definition c2c_display :: "c2c_target \<Rightarrow> string" where
  "c2c_display t = point_display (c2c_channel_id t) (c2c_point_type t) (c2c_point_id t)"

definition m2c_display :: "m2c_target \<Rightarrow> string" where
  "m2c_display t = point_display (m2c_channel_id t) (m2c_point_type t) (m2c_point_id t)"

section \<open>Parsing\<close>

text \<open>\<open>s.split(c)\<close>: always at least one piece.\<close>

fun split_on :: "char \<Rightarrow> string \<Rightarrow> string list" where
  "split_on c [] = [[]]"
| "split_on c (x # xs) =
     (if x = c then [] # split_on c xs
      else (case split_on c xs of [] \<Rightarrow> [[x]] | p # ps \<Rightarrow> (x # p) # ps))"

text \<open>\<open>s.splitn(n, c)\<close>: the last piece keeps the remaining separators.\<close>

fun splitn :: "nat \<Rightarrow> char \<Rightarrow> string \<Rightarrow> string list" where
  "splitn 0 c s = []"
| "splitn (Suc 0) c s = [s]"
| "splitn (Suc (Suc n)) c s =
     (let p = takeWhile (\<lambda>x. x \<noteq> c) s; r = dropWhile (\<lambda>x. x \<noteq> c) s
      in case r of [] \<Rightarrow> [p] | _ # r' \<Rightarrow> p # splitn (Suc n) c r')"

definition parse_point_type :: "string \<Rightarrow> point_type option" where
  "parse_point_type s =
     (if s = ''T'' then Some Telemetry
      else if s = ''S'' then Some Signal
      else if s = ''C'' then Some Control
      else if s = ''A'' then Some Adjustment
      else None)"

definition parse_c2m_target :: "string \<Rightarrow> c2m_target option" where
  "parse_c2m_target s =
     (let parts = split_on CHR '':'' s in
      if length parts \<noteq> 3 then None
      else (case parse_u32 (parts ! 0) of
              None \<Rightarrow> None
            | Some instance_id \<Rightarrow>
                (case parse_u32 (parts ! 2) of
                   None \<Rightarrow> None
                 | Some point_id \<Rightarrow> Some \<lparr>c2m_instance_id = instance_id, c2m_point_id = point_id\<rparr>)))"

definition parse_channel_point :: "string \<Rightarrow> (u32 \<times> point_type \<times> u32) option" where
  "parse_channel_point s =
     (let parts = split_on CHR '':'' s in
      if length parts \<noteq> 3 then None
      else (case parse_u32 (parts ! 0) of
              None \<Rightarrow> None
            | Some ident \<Rightarrow>
                (case parse_point_type (parts ! 1) of
                   None \<Rightarrow> None
                 | Some pt \<Rightarrow>
                     (case parse_u32 (parts ! 2) of
                        None \<Rightarrow> None
                      | Some point_id \<Rightarrow> Some (ident, pt, point_id)))))"

definition parse_c2c_value :: "string \<Rightarrow> c2c_target option" where
  "parse_c2c_value s =
     (let parts = splitn 3 CHR ''|'' s in
      case get parts 0 of
        None \<Rightarrow> None
      | Some target_str \<Rightarrow>
          (case parse_channel_point target_str of
             None \<Rightarrow> None
           | Some (channel_id, pt, point_id) \<Rightarrow>
               Some \<lparr>c2c_channel_id = channel_id, c2c_point_type = pt, c2c_point_id = point_id,
                     c2c_scale = (case Option.bind (get parts 1) parse_f64 of Some v \<Rightarrow> v | None \<Rightarrow> f64_one),
                     c2c_offset = (case Option.bind (get parts 2) parse_f64 of Some v \<Rightarrow> v | None \<Rightarrow> f64_zero)\<rparr>))"

definition m2c_from_parts :: "u32 \<times> point_type \<times> u32 \<Rightarrow> m2c_target" where
  "m2c_from_parts p =
     (case p of (channel_id, pt, point_id) \<Rightarrow>
        \<lparr>m2c_channel_id = channel_id, m2c_point_type = pt, m2c_point_id = point_id\<rparr>)"

type_synonym route_key = "u32 \<times> point_type \<times> u32"

definition parse_route_key :: "string \<Rightarrow> route_key option" where
  "parse_route_key s =
     (let parts = split_on CHR '':'' s in
      if length parts \<noteq> 3 then None
      else (case parse_u32 (parts ! 0) of
              None \<Rightarrow> None
            | Some ident \<Rightarrow>
                (case parse_point_type (parts ! 1) of
                   None \<Rightarrow> None
                 | Some pt \<Rightarrow>
                     (case parse_u32 (parts ! 2) of
                        None \<Rightarrow> None
                      | Some point_id \<Rightarrow> Some (ident, pt, point_id)))))"

section \<open>Tables\<close>

record routing_cache =
  rc_c2m :: "route_key \<rightharpoonup> c2m_target"
  rc_c2c :: "route_key \<rightharpoonup> c2c_target"
  rc_m2c :: "route_key \<rightharpoonup> m2c_target"
  rc_c2m_reverse :: "u32 \<times> u32 \<rightharpoonup> route_key"

type_synonym string_entries = "(string \<times> string) list"

definition c2m_insert :: "string \<times> string \<Rightarrow>
    (route_key \<rightharpoonup> c2m_target) \<times> (u32 \<times> u32 \<rightharpoonup> route_key) \<Rightarrow>
    (route_key \<rightharpoonup> c2m_target) \<times> (u32 \<times> u32 \<rightharpoonup> route_key)" where
  "c2m_insert e tabs =
     (case (parse_route_key (fst e), parse_c2m_target (snd e)) of
        (Some key, Some target) \<Rightarrow>
          ((fst tabs)(key \<mapsto> target),
           (snd tabs)((c2m_instance_id target, c2m_point_id target) \<mapsto> key))
      | _ \<Rightarrow> tabs)"

definition m2c_insert :: "string \<times> string \<Rightarrow> (route_key \<rightharpoonup> m2c_target) \<Rightarrow> (route_key \<rightharpoonup> m2c_target)" where
  "m2c_insert e tab =
     (case (parse_route_key (fst e), parse_channel_point (snd e)) of
        (Some key, Some parts) \<Rightarrow> tab(key \<mapsto> m2c_from_parts parts)
      | _ \<Rightarrow> tab)"

definition c2c_insert :: "string \<times> string \<Rightarrow> (route_key \<rightharpoonup> c2c_target) \<Rightarrow> (route_key \<rightharpoonup> c2c_target)" where
  "c2c_insert e tab =
     (case (parse_route_key (fst e), parse_c2c_value (snd e)) of
        (Some key, Some target) \<Rightarrow> tab(key \<mapsto> target)
      | _ \<Rightarrow> tab)"

definition build_tables :: "string_entries \<Rightarrow> string_entries \<Rightarrow> string_entries \<Rightarrow> routing_cache" where
  "build_tables c2m_data m2c_data c2c_data =
     (let (c2m, c2m_reverse) = fold c2m_insert c2m_data (Map.empty, Map.empty)
      in \<lparr>rc_c2m = c2m, rc_c2c = fold c2c_insert c2c_data Map.empty,
          rc_m2c = fold m2c_insert m2c_data Map.empty, rc_c2m_reverse = c2m_reverse\<rparr>)"

definition cache_new :: routing_cache where
  "cache_new = \<lparr>rc_c2m = Map.empty, rc_c2c = Map.empty, rc_m2c = Map.empty, rc_c2m_reverse = Map.empty\<rparr>"

definition from_maps :: "string_entries \<Rightarrow> string_entries \<Rightarrow> string_entries \<Rightarrow> routing_cache" where
  "from_maps c2m_data m2c_data c2c_data = build_tables c2m_data m2c_data c2c_data"

text \<open>\<open>update\<close> builds all tables first and then swaps them one after the other.\<close>

definition update_stores :: "string_entries \<Rightarrow> string_entries \<Rightarrow> string_entries \<Rightarrow>
    (routing_cache \<Rightarrow> routing_cache) list" where
  "update_stores c2m_data m2c_data c2c_data =
     (let t = build_tables c2m_data m2c_data c2c_data in
      [\<lambda>c. c\<lparr>rc_c2m := rc_c2m t\<rparr>, \<lambda>c. c\<lparr>rc_c2c := rc_c2c t\<rparr>, \<lambda>c. c\<lparr>rc_m2c := rc_m2c t\<rparr>,
       \<lambda>c. c\<lparr>rc_c2m_reverse := rc_c2m_reverse t\<rparr>])"

definition cache_update :: "string_entries \<Rightarrow> string_entries \<Rightarrow> string_entries \<Rightarrow>
    routing_cache \<Rightarrow> routing_cache" where
  "cache_update c2m_data m2c_data c2c_data c =
     fold (\<lambda>store. store) (update_stores c2m_data m2c_data c2c_data) c"

definition lookup_c2m :: "routing_cache \<Rightarrow> string \<Rightarrow> c2m_target option" where
  "lookup_c2m c key = (case parse_route_key key of None \<Rightarrow> None | Some k \<Rightarrow> rc_c2m c k)"

definition lookup_c2m_by_parts :: "routing_cache \<Rightarrow> u32 \<Rightarrow> point_type \<Rightarrow> u32 \<Rightarrow> c2m_target option" where
  "lookup_c2m_by_parts c channel_id pt point_id = rc_c2m c (channel_id, pt, point_id)"

definition lookup_c2m_reverse :: "routing_cache \<Rightarrow> u32 \<Rightarrow> u32 \<Rightarrow> route_key option" where
  "lookup_c2m_reverse c instance_id instance_point_id = rc_c2m_reverse c (instance_id, instance_point_id)"

definition lookup_m2c :: "routing_cache \<Rightarrow> string \<Rightarrow> m2c_target option" where
  "lookup_m2c c key = (case parse_route_key key of None \<Rightarrow> None | Some k \<Rightarrow> rc_m2c c k)"

definition lookup_m2c_by_parts :: "routing_cache \<Rightarrow> u32 \<Rightarrow> point_type \<Rightarrow> u32 \<Rightarrow> m2c_target option" where
  "lookup_m2c_by_parts c instance_id pt point_id = rc_m2c c (instance_id, pt, point_id)"

definition lookup_c2c_by_parts :: "routing_cache \<Rightarrow> u32 \<Rightarrow> point_type \<Rightarrow> u32 \<Rightarrow> c2c_target option" where
  "lookup_c2c_by_parts c channel_id pt point_id = rc_c2c c (channel_id, pt, point_id)"

definition cache_stats :: "routing_cache \<Rightarrow> nat \<times> nat \<times> nat" where
  "cache_stats c = (card (dom (rc_c2m c)), card (dom (rc_m2c c)), card (dom (rc_c2c c)))"

section \<open>Content hash\<close>

text \<open>
  The hasher comes from the \<open>rustc_hash\<close> package: its operations are arguments.  The entries are
  those of the two tables in the order the iterators give them.
\<close>

definition key_sort :: "(route_key \<times> 'v) \<Rightarrow> u32 \<times> u8 \<times> u32" where
  "key_sort e = (case e of ((ident, pt, point_id), _) \<Rightarrow> (ident, to_u8 pt, point_id))"

definition content_hash :: "'h \<Rightarrow> (u32 \<Rightarrow> 'h \<Rightarrow> 'h) \<Rightarrow> (u8 \<Rightarrow> 'h \<Rightarrow> 'h) \<Rightarrow> ('h \<Rightarrow> u64) \<Rightarrow>
    (route_key \<times> c2m_target) list \<Rightarrow> (route_key \<times> m2c_target) list \<Rightarrow> u64" where
  "content_hash hasher write_u32 write_u8 finish c2m_iter m2c_iter =
     (let h1 = fold (\<lambda>((ch, pt, pid), t) h.
                 write_u32 (c2m_point_id t) (write_u32 (c2m_instance_id t)
                   (write_u32 pid (write_u8 (to_u8 pt) (write_u32 ch h)))))
               (sort_key key_sort c2m_iter) hasher;
          h2 = fold (\<lambda>((inst, pt, pid), t) h.
                 write_u32 (m2c_point_id t) (write_u8 (to_u8 (m2c_point_type t)) (write_u32 (m2c_channel_id t)
                   (write_u32 pid (write_u8 (to_u8 pt) (write_u32 inst h))))))
               (sort_key key_sort m2c_iter) h1
      in finish h2)"

text \<open>
  \<open>content_hash\<close> loads the two tables one after the other while \<open>update\<close> may be between two of its
  stores: the pair it hashes when the first load happens after \<open>i\<close> stores and the second after \<open>j\<close>.
\<close>

definition after_stores :: "nat \<Rightarrow> string_entries \<Rightarrow> string_entries \<Rightarrow> string_entries \<Rightarrow>
    routing_cache \<Rightarrow> routing_cache" where
  "after_stores n c2m_data m2c_data c2c_data c =
     fold (\<lambda>store. store) (take n (update_stores c2m_data m2c_data c2c_data)) c"

definition hashed_pair :: "nat \<Rightarrow> nat \<Rightarrow> string_entries \<Rightarrow> string_entries \<Rightarrow> string_entries \<Rightarrow>
    routing_cache \<Rightarrow> (route_key \<rightharpoonup> c2m_target) \<times> (route_key \<rightharpoonup> m2c_target)" where
  "hashed_pair i j c2m_data m2c_data c2c_data c =
     (rc_c2m (after_stores i c2m_data m2c_data c2c_data c),
      rc_m2c (after_stores j c2m_data m2c_data c2c_data c))"

section \<open>Parsing inverts printing\<close>

lemma split_on_no_sep: "c \<notin> set s \<Longrightarrow> split_on c s = [s]"
  by (induction s) auto

lemma split_on_append: "c \<notin> set p \<Longrightarrow> split_on c (p @ c # s) = p # split_on c s"
  by (induction p) auto

lemma colon_not_digit: "list_all is_digit s \<Longrightarrow> CHR '':'' \<notin> set s"
  by (auto simp: list_all_iff is_digit_def)

lemma colon_not_in_u32 [simp]: "CHR '':'' \<notin> set (u32_to_string n)"
  using nat_digits_props colon_not_digit by (auto simp: u32_to_string_def)

lemma colon_not_in_as_str [simp]: "CHR '':'' \<notin> set (as_str p)"
  by (cases p) auto

lemma parse_point_type_as_str [simp]: "parse_point_type (as_str p) = Some p"
  by (cases p) (simp_all add: parse_point_type_def)

lemma split_point_display [simp]:
  "split_on CHR '':'' (point_display i p n) = [u32_to_string i, as_str p, u32_to_string n]"
  by (simp add: point_display_def split_on_append split_on_no_sep)

lemma parse_point_display [simp]:
  "parse_channel_point (point_display i p n) = Some (i, p, n)"
  "parse_route_key (point_display i p n) = Some (i, p, n)"
  by (simp_all add: parse_channel_point_def parse_route_key_def)

lemma parse_c2m_display [simp]: "parse_c2m_target (c2m_display t) = Some t"
  by (simp add: parse_c2m_target_def c2m_display_def split_on_append split_on_no_sep)

section \<open>Forward and reverse tables\<close>

text \<open>The structured routes a list of textual entries stands for; unparsable entries are skipped.\<close>

definition parsed_route :: "string \<times> string \<Rightarrow> (route_key \<times> c2m_target) option" where
  "parsed_route e =
     (case (parse_route_key (fst e), parse_c2m_target (snd e)) of
        (Some k, Some t) \<Rightarrow> Some (k, t)
      | _ \<Rightarrow> None)"

definition routes_of :: "string_entries \<Rightarrow> (route_key \<times> c2m_target) list" where
  "routes_of es = List.map_filter parsed_route es"

definition instance_point :: "c2m_target \<Rightarrow> u32 \<times> u32" where
  "instance_point t = (c2m_instance_id t, c2m_point_id t)"

definition route_step :: "route_key \<times> c2m_target \<Rightarrow>
    (route_key \<rightharpoonup> c2m_target) \<times> (u32 \<times> u32 \<rightharpoonup> route_key) \<Rightarrow>
    (route_key \<rightharpoonup> c2m_target) \<times> (u32 \<times> u32 \<rightharpoonup> route_key)" where
  "route_step r tabs = ((fst tabs)(fst r \<mapsto> snd r), (snd tabs)(instance_point (snd r) \<mapsto> fst r))"

lemma fold_c2m_insert:
  "fold c2m_insert es tabs =
     fold route_step (routes_of es) tabs"
  by (induction es arbitrary: tabs)
    (auto simp: routes_of_def map_filter_simps parsed_route_def c2m_insert_def route_step_def
      instance_point_def split: option.splits)

text \<open>A forward and a reverse table agree when each reverse entry names a route to its point and
  every routed point has a reverse entry; \<open>f\<close> is the point of a target.\<close>

definition tables_agree :: "('t \<Rightarrow> 'p) \<Rightarrow> ('k \<rightharpoonup> 't) \<Rightarrow> ('p \<rightharpoonup> 'k) \<Rightarrow> bool" where
  "tables_agree f fw rv \<longleftrightarrow>
     (\<forall>p k. rv p = Some k \<longrightarrow> (\<exists>t. fw k = Some t \<and> f t = p)) \<and>
     (\<forall>k t. fw k = Some t \<longrightarrow> rv (f t) \<noteq> None)"

lemma tables_agree_insert:
  "tables_agree f fw rv \<Longrightarrow> fw k = None \<Longrightarrow> tables_agree f (fw(k \<mapsto> t)) (rv(f t \<mapsto> k))"
  unfolding tables_agree_def by (auto split: if_splits) (metis option.distinct(1))+

lemma fold_routes:
  assumes "distinct (map fst rs)" "tables_agree instance_point c2m rv" "\<forall>k \<in> fst ` set rs. c2m k = None"
  shows "fst (fold route_step rs (c2m, rv)) = c2m ++ map_of rs \<and>
    tables_agree instance_point (c2m ++ map_of rs)
      (snd (fold route_step rs (c2m, rv)))"
  using assms
proof (induction rs arbitrary: c2m rv)
  case Nil
  then show ?case by simp
next
  case (Cons r rs)
  obtain k t where r: "r = (k, t)" by fastforce
  have agree: "tables_agree instance_point (c2m(k \<mapsto> t)) (rv(instance_point t \<mapsto> k))"
    using Cons.prems r by (intro tables_agree_insert) auto
  have none: "\<forall>k' \<in> fst ` set rs. (c2m(k \<mapsto> t)) k' = None"
    using Cons.prems r by force
  have "c2m ++ map_of (r # rs) = c2m(k \<mapsto> t) ++ map_of rs"
    using Cons.prems(1) by (simp add: r map_add_upd_left dom_map_of_conv_image_fst)
  moreover have "route_step r (c2m, rv) = (c2m(k \<mapsto> t), rv(instance_point t \<mapsto> k))"
    by (simp add: r route_step_def)
  ultimately show ?case
    using Cons.IH [OF _ agree none] Cons.prems(1) by (simp del: fun_upd_apply)
qed

lemma build_tables_c2m:
  assumes "distinct (map fst (routes_of es))"
  shows "rc_c2m (build_tables es m2c_data c2c_data) = map_of (routes_of es)"
    and "tables_agree instance_point (map_of (routes_of es)) (rc_c2m_reverse (build_tables es m2c_data c2c_data))"
proof -
  have "tables_agree instance_point Map.empty Map.empty" by (simp add: tables_agree_def)
  from fold_routes [OF assms this]
  show "rc_c2m (build_tables es m2c_data c2c_data) = map_of (routes_of es)"
    and "tables_agree instance_point (map_of (routes_of es)) (rc_c2m_reverse (build_tables es m2c_data c2c_data))"
    by (simp_all add: build_tables_def fold_c2m_insert case_prod_beta)
qed

section \<open>Linear transforms\<close>

lemma f64_value_signed_zero: "f64_value (f64_signed neg 0) = 0" "f64_is_finite (f64_signed neg 0)"
proof -
  have e: "f64_exponent (f64_signed neg 0) = 0" "f64_fraction (f64_signed neg 0) = 0"
    by (cases neg; simp add: f64_signed_def f64_exponent_def f64_fraction_def drop_bit_eq_div take_bit_eq_mod)+
  show "f64_value (f64_signed neg 0) = 0"
    using e f64_mag_0_iff [of "f64_signed neg 0"] by (simp add: f64_value_def)
  show "f64_is_finite (f64_signed neg 0)"
    using e by (simp add: f64_is_finite_def)
qed

lemma finite_of_eq: "f64_eq a b \<Longrightarrow> f64_is_finite b \<Longrightarrow> f64_is_finite a"
proof (rule ccontr)
  assume eq: "f64_eq a b" and b: "f64_is_finite b" and a: "\<not> f64_is_finite a"
  have m: "f64_mantissa b < 2 ^ 53"
    using fraction_bound [of b] by (simp add: f64_mantissa_def)
  have s: "f64_scale b \<le> 2 ^ 11"
  proof -
    have "unat (f64_exponent b) < 2 ^ 11"
      by (simp only: f64_exponent_def unsigned_take_bit_eq, simp only: take_bit_eq_mod) simp
    then show ?thesis by (simp add: f64_scale_def)
  qed
  have "f64_mantissa b * 2 ^ f64_scale b < 2 ^ 53 * 2 ^ (2 ^ 11)"
    using m s by (intro mult_less_le_imp_less power_increasing) auto
  also have "\<dots> \<le> (2::nat) ^ 2200"
    by (simp only: power_add [symmetric]) (rule power_increasing; simp)
  finally have "int (f64_mantissa b * 2 ^ f64_scale b) < 2 ^ 2200"
    by (metis of_nat_less_iff of_nat_numeral of_nat_power)
  then have "\<bar>f64_units b\<bar> < 2 ^ 2200"
    unfolding f64_units_def Let_def by (cases "f64_negative b") (simp_all only: if_True if_False abs_minus_cancel abs_of_nat)
  moreover have "\<bar>f64_units b\<bar> = 2 ^ 2200"
    using eq a b unfolding f64_eq_def f64_key_def by (cases "f64_negative a") (simp_all only: if_True if_False, simp_all)
  ultimately show False by simp
qed

lemma identity_transform_value:
  assumes "is_identity_transform t" "f64_is_finite v"
  shows "f64_eq (transform t v) v"
proof -
  let ?a = "c2c_scale t" and ?b = "c2c_offset t"
  have fin: "f64_is_finite ?a" "f64_is_finite ?b"
    using assms(1) finite_of_eq f64_one_facts(1) f64_zero_facts(1) by (auto simp: is_identity_transform_def)
  have va: "f64_value ?a = int UNIT" and vb: "f64_value ?b = 0"
    using assms(1) fin f64_one_facts f64_zero_facts
    by (auto simp: is_identity_transform_def f64_eq_finite) (simp_all add: f64_value_def)
  have U: "0 < UNIT" by (simp add: UNIT_def)
  have ma: "f64_mag ?a = UNIT" "\<not> f64_negative ?a"
    using va U by (auto simp: f64_value_def split: if_splits)
  have nan: "\<not> f64_is_nan ?a" "\<not> f64_is_nan ?b" "\<not> f64_is_nan v"
    using fin assms(2) nan_not_finite by blast+
  have "f64_round (UNIT * f64_mag v) (UNIT * UNIT) = f64_round (f64_mag v) UNIT"
    using f64_round_scale [OF U, of "f64_mag v" UNIT] by (simp add: mult.commute)
  then have mul: "f64_mul ?a v = v"
    using assms(2) fin nan ma f64_signed_fields [of v] by (simp add: f64_mul_def f64_round_mag)
  have "f64_value (f64_add v ?b) = f64_value v \<and> f64_is_finite (f64_add v ?b)"
  proof (cases "f64_value v = 0")
    case True
    then show ?thesis
      using nan fin assms(2) vb f64_value_signed_zero by (simp add: f64_add_def)
  next
    case False
    then have "(f64_value v < 0) = f64_negative v" "nat \<bar>f64_value v\<bar> = f64_mag v"
      by (auto simp: f64_value_def split: if_splits)
    then have "f64_add v ?b = v"
      using False nan fin assms(2) vb f64_signed_fields [of v] by (simp add: f64_add_def f64_round_mag)
    then show ?thesis using assms(2) by simp
  qed
  then show ?thesis
    using assms(2) by (simp add: transform_def mul f64_eq_finite)
qed

section \<open>Properties\<close>

text \<open>C30. Printing and parsing of routes are inverse: a printed instance target and a printed channel
  point parse back to themselves (for every 32-bit id), so a lookup with the printed key is the
  lookup by parts.\<close>

theorem route_print_parse:
  "parse_c2m_target (c2m_display t) = Some t \<and>
   map_option m2c_from_parts (parse_channel_point (m2c_display m)) = Some m \<and>
   lookup_c2m c (point_display ch pt pid) = lookup_c2m_by_parts c ch pt pid \<and>
   lookup_m2c c (point_display ch pt pid) = lookup_m2c_by_parts c ch pt pid"
  by (simp add: m2c_display_def m2c_from_parts_def lookup_c2m_def lookup_m2c_def
      lookup_c2m_by_parts_def lookup_m2c_by_parts_def)

text \<open>C29. When no two entries of the loaded map parse to the same channel point, the forward table is
  exactly the parsed entries, and the reverse table agrees with it: a reverse lookup names a channel
  point that is routed to that instance point, and it answers for exactly the instance points that
  some channel point is routed to.\<close>

theorem reverse_lookup_consistent:
  assumes "distinct (map fst (routes_of c2m_data))" and c_def: "c = from_maps c2m_data m2c_data c2c_data"
  shows "lookup_c2m_by_parts c ch pt pid = map_of (routes_of c2m_data) (ch, pt, pid) \<and>
    (lookup_c2m_reverse c i p = Some (ch, pt, pid) \<longrightarrow>
       lookup_c2m_by_parts c ch pt pid = Some \<lparr>c2m_instance_id = i, c2m_point_id = p\<rparr>) \<and>
    (lookup_c2m_reverse c i p \<noteq> None \<longleftrightarrow>
       (\<exists>k. map_of (routes_of c2m_data) k = Some \<lparr>c2m_instance_id = i, c2m_point_id = p\<rparr>))"
proof -
  note bt = build_tables_c2m [OF assms(1), of m2c_data c2c_data]
  have point: "instance_point t = (i, p) \<longleftrightarrow> t = \<lparr>c2m_instance_id = i, c2m_point_id = p\<rparr>" for t
    by (auto simp: instance_point_def)
  have fw: "lookup_c2m_by_parts c ch pt pid = map_of (routes_of c2m_data) (ch, pt, pid)" for ch pt pid
    by (simp add: c_def from_maps_def lookup_c2m_by_parts_def bt(1))
  have rv: "rc_c2m_reverse c (i, p) = Some k \<Longrightarrow>
      map_of (routes_of c2m_data) k = Some \<lparr>c2m_instance_id = i, c2m_point_id = p\<rparr>" for k
    using bt(2) point unfolding tables_agree_def c_def from_maps_def by metis
  have "map_of (routes_of c2m_data) k = Some \<lparr>c2m_instance_id = i, c2m_point_id = p\<rparr> \<Longrightarrow>
      rc_c2m_reverse c (i, p) \<noteq> None" for k
    using bt(2) point unfolding tables_agree_def c_def from_maps_def by metis
  with rv have "rc_c2m_reverse c (i, p) \<noteq> None \<longleftrightarrow>
      (\<exists>k. map_of (routes_of c2m_data) k = Some \<lparr>c2m_instance_id = i, c2m_point_id = p\<rparr>)"
    by (metis option.exhaust)
  with rv fw show ?thesis
    unfolding lookup_c2m_reverse_def by simp
qed

definition demo_routes :: string_entries where
  "demo_routes = [(point_display 2 Telemetry 1, c2m_display \<lparr>c2m_instance_id = 23, c2m_point_id = 7\<rparr>)]"

lemma demo_routes_parsed:
  "routes_of demo_routes = [((2, Telemetry, 1), \<lparr>c2m_instance_id = 23, c2m_point_id = 7\<rparr>)]"
  by (simp add: demo_routes_def routes_of_def map_filter_simps parsed_route_def)

theorem reverse_lookup_consistent_witness:
  "lookup_c2m_by_parts (from_maps demo_routes [] []) 2 Telemetry 1 =
     Some \<lparr>c2m_instance_id = 23, c2m_point_id = 7\<rparr> \<and>
   lookup_c2m_reverse (from_maps demo_routes [] []) 23 7 \<noteq> None"
proof -
  have d: "distinct (map fst (routes_of demo_routes))"
    by (simp add: demo_routes_parsed)
  show ?thesis
    using reverse_lookup_consistent [OF d refl, of "[]" "[]" 2 Telemetry 1 23 7]
    by (auto simp: demo_routes_parsed)
qed

text \<open>A route with the identity transform (numerically, scale 1 and offset 0, whichever zero it is)
  forwards every finite value unchanged.\<close>

theorem identity_route_keeps_value:
  assumes "is_identity_transform t" "f64_is_finite v"
  shows "f64_eq (transform t v) v"
  using assms by (rule identity_transform_value)

theorem identity_route_keeps_value_witness:
  "f64_eq (transform \<lparr>c2c_channel_id = 1, c2c_point_type = Telemetry, c2c_point_id = 2,
                      c2c_scale = f64_one, c2c_offset = f64_zero\<rparr> 0x4059000000000000) 0x4059000000000000"
  by (rule identity_route_keeps_value)
    (simp add: is_identity_transform_def f64_eq_refl f64_one_facts f64_zero_facts,
     simp add: f64_class_defs drop_bit_eq_div take_bit_eq_mod)

text \<open>The content hash depends only on the contents of the two tables: whatever order the hash maps
  iterate in, and whatever the hasher does, equal tables hash equally.\<close>

lemma content_hash_order_independent:
  assumes "distinct (map fst c2m_iter)" "distinct (map fst c2m_iter')" "set c2m_iter = set c2m_iter'"
    and "distinct (map fst m2c_iter)" "distinct (map fst m2c_iter')" "set m2c_iter = set m2c_iter'"
  shows "content_hash hasher write_u32 write_u8 finish c2m_iter m2c_iter =
    content_hash hasher write_u32 write_u8 finish c2m_iter' m2c_iter'"
proof -
  have sort: "sort_key key_sort xs = sort_key key_sort ys"
    if "distinct (map fst xs)" "distinct (map fst ys)" "set xs = set ys" for xs ys :: "(route_key \<times> 'v) list"
  proof (rule sort_key_inj_key_eq)
    show "mset xs = mset (sort_key key_sort ys)"
      using that set_eq_iff_mset_eq_distinct [of xs ys] distinct_map by auto
    have "inj_on fst (set xs)" using that(1) by (simp add: distinct_map)
    then show "inj_on key_sort (set xs)"
      by (auto simp: inj_on_def key_sort_def split: prod.splits) fastforce
    show "sorted (map key_sort (sort_key key_sort ys))" by simp
  qed
  show ?thesis
    by (simp only: content_hash_def sort [OF assms(1-3)] sort [OF assms(4-6)])
qed


lemma demo_routes_nonempty: "rc_c2m (from_maps demo_routes [(point_display 1 Control 2, point_display 3 Control 4)] []) \<noteq> Map.empty"
  "rc_m2c (from_maps demo_routes [(point_display 1 Control 2, point_display 3 Control 4)] []) \<noteq> Map.empty"
proof -
  have "distinct (map fst (routes_of demo_routes))"
    by (simp add: demo_routes_parsed)
  from build_tables_c2m(1) [OF this]
  show "rc_c2m (from_maps demo_routes [(point_display 1 Control 2, point_display 3 Control 4)] []) \<noteq> Map.empty"
    by (simp add: from_maps_def demo_routes_parsed)
  show "rc_m2c (from_maps demo_routes [(point_display 1 Control 2, point_display 3 Control 4)] []) \<noteq> Map.empty"
    by (simp add: from_maps_def build_tables_def m2c_insert_def case_prod_beta)
qed


end
