(* ===== verification/Channel_Index.thy ===== *)
theory Channel_Index
  imports Slot_Bitmap Routing
begin

text \<open>
  Hot add, remove and update of channels over the slot pool:
  \<open>libs/voltage-rtdb-shm/src/channel_index.rs\<close>.  The index is the map behind the \<open>ArcSwap\<close>; every
  operation takes the index and the pool and returns both.  The invariant says that the blocks of
  the indexed channels, together with the blocks other clients of the pool own, tile the allocated
  slots.
\<close>

section \<open>Layouts\<close>

record dyn_channel_layout =
  dc_base_slot :: usize
  dc_type_counts :: "u32 list"
  dc_total_points :: u32
  dc_allocation :: slot_allocation

definition dyn_layout_new :: "slot_allocation \<Rightarrow> u32 list \<Rightarrow> dyn_channel_layout" where
  "dyn_layout_new allocation type_counts =
     \<lparr>dc_base_slot = base_slot allocation, dc_type_counts = type_counts,
      dc_total_points = sum_list type_counts, dc_allocation = allocation\<rparr>"

definition dyn_slot :: "dyn_channel_layout \<Rightarrow> point_type \<Rightarrow> u32 \<Rightarrow> usize option" where
  "dyn_slot l pt point_id =
     (let type_idx = unat (to_u8 pt) in
      if point_id = 0 \<or> point_id > dc_type_counts l ! type_idx then None
      else let offset = sum_list (take type_idx (dc_type_counts l))
           in Some (dc_base_slot l + unat offset + unat (point_id - 1)))"

definition dyn_is_valid :: "dyn_channel_layout \<Rightarrow> bool" where
  "dyn_is_valid l \<longleftrightarrow> dc_total_points l > 0"

definition dyn_count :: "dyn_channel_layout \<Rightarrow> point_type \<Rightarrow> u32" where
  "dyn_count l pt = dc_type_counts l ! unat (to_u8 pt)"

section \<open>Operations on the index\<close>

type_synonym channel_index = "u32 \<rightharpoonup> dyn_channel_layout"

datatype index_error =
    ZeroPoints
  | AlreadyExists u32
  | AllocationFailed u32 u32
  | NotFound u32
  | BitmapRequired

definition channel_index_new :: channel_index where
  "channel_index_new = Map.empty"

definition index_slot :: "channel_index \<Rightarrow> u32 \<Rightarrow> point_type \<Rightarrow> u32 \<Rightarrow> usize option" where
  "index_slot ci channel_id pt point_id =
     (case ci channel_id of None \<Rightarrow> None | Some l \<Rightarrow> dyn_slot l pt point_id)"

definition contains :: "channel_index \<Rightarrow> u32 \<Rightarrow> bool" where
  "contains ci channel_id \<longleftrightarrow> channel_id \<in> dom ci"

definition add_channel :: "channel_index \<Rightarrow> u32 \<Rightarrow> u32 list \<Rightarrow> slot_bitmap \<Rightarrow>
    (index_error + dyn_channel_layout) \<times> channel_index \<times> slot_bitmap" where
  "add_channel ci channel_id type_counts bitmap =
     (let tot = sum_list type_counts in
      if tot = 0 then (Inl ZeroPoints, ci, bitmap)
      else if contains ci channel_id then (Inl (AlreadyExists channel_id), ci, bitmap)
      else (case bm_alloc_contiguous bitmap (unat tot) of
              (None, bitmap') \<Rightarrow> (Inl (AllocationFailed tot channel_id), ci, bitmap')
            | (Some allocation, bitmap') \<Rightarrow>
                (let layout = dyn_layout_new allocation type_counts
                 in (Inr layout, ci(channel_id \<mapsto> layout), bitmap'))))"

definition remove_channel :: "channel_index \<Rightarrow> u32 \<Rightarrow> slot_bitmap \<Rightarrow>
    ((index_error + dyn_channel_layout) \<times> channel_index \<times> slot_bitmap) outcome" where
  "remove_channel ci channel_id bitmap =
     (case ci channel_id of
        None \<Rightarrow> Ret (Inl (NotFound channel_id), ci, bitmap)
      | Some layout \<Rightarrow>
          bind_outcome (bm_free bitmap (base_slot (dc_allocation layout)) (alloc_count (dc_allocation layout)))
            (\<lambda>bitmap'. Ret (Inr layout, ci(channel_id := None), bitmap')))"

definition update_channel :: "channel_index \<Rightarrow> u32 \<Rightarrow> u32 list \<Rightarrow> slot_bitmap \<Rightarrow>
    ((index_error + dyn_channel_layout) \<times> channel_index \<times> slot_bitmap) outcome" where
  "update_channel ci channel_id new_type_counts bitmap =
     (if contains ci channel_id then
        bind_outcome (remove_channel ci channel_id bitmap)
          (\<lambda>(r, ci', bitmap').
             case r of
               Inl e \<Rightarrow> Ret (Inl e, ci', bitmap')
             | Inr _ \<Rightarrow> Ret (add_channel ci' channel_id new_type_counts bitmap'))
      else Ret (add_channel ci channel_id new_type_counts bitmap))"

text \<open>\<open>collect_channel_points\<close>: the two iterators are the entries of the routing tables.\<close>

definition bump_count :: "u32 \<Rightarrow> point_type \<Rightarrow> u32 \<Rightarrow> (u32, u32 list) btree_map \<Rightarrow> (u32, u32 list) btree_map" where
  "bump_count channel_id pt point_id m =
     (let counts = (case map_of m channel_id of Some c \<Rightarrow> c | None \<Rightarrow> [0, 0, 0, 0]);
          type_idx = unat (to_u8 pt)
      in bt_insert channel_id (counts[type_idx := max (counts ! type_idx) point_id]) m)"

definition collect_channel_points :: "(route_key \<times> c2m_target) list \<Rightarrow> (route_key \<times> m2c_target) list \<Rightarrow>
    (u32, u32 list) btree_map" where
  "collect_channel_points c2m_iter m2c_iter =
     fold (\<lambda>(_, t). bump_count (m2c_channel_id t) (m2c_point_type t) (m2c_point_id t)) m2c_iter
       (fold (\<lambda>((channel_id, pt, point_id), _). bump_count channel_id pt point_id) c2m_iter [])"

fun build_index :: "(u32, u32 list) btree_map \<Rightarrow> channel_index \<Rightarrow> usize \<Rightarrow> slot_bitmap \<Rightarrow>
    channel_index \<times> usize \<times> slot_bitmap" where
  "build_index [] layouts total_slots bitmap = (layouts, total_slots, bitmap)"
| "build_index ((channel_id, counts) # rest) layouts total_slots bitmap =
     (let tot = sum_list counts in
      if tot = 0 then build_index rest layouts total_slots bitmap
      else (case bm_alloc_contiguous bitmap (unat tot) of
              (Some allocation, bitmap') \<Rightarrow>
                build_index rest (layouts(channel_id \<mapsto> dyn_layout_new allocation counts))
                  (total_slots + alloc_count allocation) bitmap'
            | (None, bitmap') \<Rightarrow> build_index rest layouts total_slots bitmap'))"

definition from_routing_cache :: "(route_key \<times> c2m_target) list \<Rightarrow> (route_key \<times> m2c_target) list \<Rightarrow>
    slot_bitmap \<Rightarrow> channel_index \<times> usize \<times> slot_bitmap" where
  "from_routing_cache c2m_iter m2c_iter bitmap =
     build_index (collect_channel_points c2m_iter m2c_iter) Map.empty 0 bitmap"

section \<open>Slots of one layout\<close>

text \<open>Four counts whose sum fits the 32-bit total.\<close>

definition counts_fit :: "u32 list \<Rightarrow> bool" where
  "counts_fit cs \<longleftrightarrow> length cs = 4 \<and> sum_list (map unat cs) < 2 ^ 32"

definition dyn_layout_ok :: "dyn_channel_layout \<Rightarrow> bool" where
  "dyn_layout_ok l \<longleftrightarrow>
     counts_fit (dc_type_counts l) \<and> dc_base_slot l = base_slot (dc_allocation l) \<and>
     alloc_count (dc_allocation l) = sum_list (map unat (dc_type_counts l))"

lemma unat_sum_list:
  "sum_list (map unat cs) < 2 ^ 32 \<Longrightarrow> unat (sum_list (cs :: u32 list)) = sum_list (map unat cs)"
proof (induction cs)
  case (Cons c cs)
  then have "unat (sum_list cs) = sum_list (map unat cs)" by simp
  with Cons.prems show ?case by (simp add: unat_word_ariths)
qed simp

lemma sum_take_le: "sum_list (map unat (take k cs)) \<le> sum_list (map unat cs)"
  by (metis append_take_drop_id map_append sum_list_append le_add1)

lemma dyn_layout_new_ok:
  assumes "counts_fit cs" "alloc_count a = unat (sum_list cs)"
  shows "dyn_layout_ok (dyn_layout_new a cs)"
  using assms unat_sum_list by (simp add: dyn_layout_ok_def dyn_layout_new_def counts_fit_def)

text \<open>Position of a point inside its block.\<close>

lemma dyn_slot_pos:
  assumes "dyn_layout_ok l" "dyn_slot l pt pid = Some s"
  defines "k \<equiv> unat (to_u8 pt)" and "cs \<equiv> map unat (dc_type_counts l)"
  shows "s = base_slot (dc_allocation l) + sum_list (take k cs) + (unat pid - 1)"
    and "0 < unat pid" "unat pid \<le> cs ! k" "k < 4" "length cs = 4"
proof -
  have fit: "length (dc_type_counts l) = 4" "sum_list (map unat (dc_type_counts l)) < 2 ^ 32"
    using assms(1) by (simp_all add: dyn_layout_ok_def counts_fit_def)
  show k: "k < 4" "length cs = 4" using fit by (simp_all add: k_def cs_def)
  from assms(2) have p: "pid \<noteq> 0" "pid \<le> dc_type_counts l ! k"
    and s: "s = dc_base_slot l + unat (sum_list (take k (dc_type_counts l))) + unat (pid - 1)"
    by (auto simp: dyn_slot_def Let_def k_def not_less split: if_splits)
  show pos: "0 < unat pid" using p(1) by (simp add: unat_gt_0)
  show "unat pid \<le> cs ! k" using p(2) k fit by (simp add: cs_def word_le_nat_alt)
  have "unat (sum_list (take k (dc_type_counts l))) = sum_list (take k cs)"
    using unat_sum_list sum_take_le [of k "dc_type_counts l"] fit(2)
    by (simp add: cs_def take_map)
  moreover have "unat (pid - 1) = unat pid - 1"
    using pos by (simp add: unat_sub word_le_nat_alt)
  ultimately show "s = base_slot (dc_allocation l) + sum_list (take k cs) + (unat pid - 1)"
    using s assms(1) by (simp add: dyn_layout_ok_def)
qed

lemma four_positions:
  fixes cs :: "nat list"
  assumes "length cs = 4" "k < 4" "j < 4" "p < cs ! k" "q < cs ! j"
  shows "sum_list (take k cs) + p < sum_list cs"
    and "sum_list (take k cs) + p = sum_list (take j cs) + q \<Longrightarrow> k = j \<and> p = q"
proof -
  obtain a b c d where cs: "cs = [a, b, c, d]"
    using assms(1) by (auto simp: numeral_eq_Suc length_Suc_conv)
  have kj: "k = 0 \<or> k = 1 \<or> k = 2 \<or> k = 3" "j = 0 \<or> j = 1 \<or> j = 2 \<or> j = 3"
    using assms(2,3) by auto
  from kj(1) assms(4) show "sum_list (take k cs) + p < sum_list cs"
    by (auto simp: cs)
  from kj assms(4,5) show "sum_list (take k cs) + p = sum_list (take j cs) + q \<Longrightarrow> k = j \<and> p = q"
    by (auto simp: cs)
qed

lemma dyn_slot_in_block:
  assumes "dyn_layout_ok l" "dyn_slot l pt pid = Some s"
  shows "s \<in> block (base_slot (dc_allocation l)) (alloc_count (dc_allocation l))"
proof -
  note d = dyn_slot_pos [OF assms]
  have "sum_list (take (unat (to_u8 pt)) (map unat (dc_type_counts l))) + (unat pid - 1) <
      sum_list (map unat (dc_type_counts l))"
    using d(2,3) by (intro four_positions(1) [OF d(5,4,4), where q = "unat pid - 1"]) linarith+
  then show ?thesis
    using d(1) assms(1) by (simp add: block_def dyn_layout_ok_def)
qed

lemma dyn_slot_inject:
  assumes "dyn_layout_ok l" "dyn_slot l pt pid = Some s" "dyn_slot l pt' pid' = Some s"
  shows "pt = pt' \<and> pid = pid'"
proof -
  note d = dyn_slot_pos [OF assms(1,2)] and e = dyn_slot_pos [OF assms(1,3)]
  have "unat (to_u8 pt) = unat (to_u8 pt') \<and> unat pid - 1 = unat pid' - 1"
    using d(1) e(1) d(2,3) e(2,3)
    by (intro four_positions(2) [OF d(5,4) e(4)]) linarith+
  moreover from this d(2) e(2) have "unat pid = unat pid'" by linarith
  ultimately have "to_u8 pt = to_u8 pt'" "pid = pid'"
    by (simp_all only: word_unat_eq_iff)
  then show ?thesis by simp
qed

section \<open>The pool invariant\<close>

definition chan_block :: "dyn_channel_layout option \<Rightarrow> (usize \<times> usize) option" where
  "chan_block = map_option (\<lambda>l. (base_slot (dc_allocation l), alloc_count (dc_allocation l)))"

text \<open>Blocks by owner: the channels of the index, and the other clients of the same pool.\<close>

definition pool_owners :: "channel_index \<Rightarrow> ('k \<rightharpoonup> usize \<times> usize) \<Rightarrow> (u32 + 'k \<rightharpoonup> usize \<times> usize)" where
  "pool_owners ci other = (\<lambda>k. case k of Inl ch \<Rightarrow> chan_block (ci ch) | Inr x \<Rightarrow> other x)"

definition ci_invar :: "channel_index \<Rightarrow> ('k \<rightharpoonup> usize \<times> usize) \<Rightarrow> slot_bitmap \<Rightarrow> bool" where
  "ci_invar ci other bm \<longleftrightarrow>
     bm_invar bm \<and> tiles (bm_used bm) (pool_owners ci other) \<and>
     (\<forall>ch l. ci ch = Some l \<longrightarrow> dyn_layout_ok l)"

lemma pool_owners_Inl [simp]: "pool_owners ci other (Inl ch) = chan_block (ci ch)"
  by (simp add: pool_owners_def)

lemma pool_owners_add:
  "pool_owners (ci(ch \<mapsto> l)) other =
     (pool_owners ci other)(Inl ch \<mapsto> (base_slot (dc_allocation l), alloc_count (dc_allocation l)))"
  by (auto simp: pool_owners_def chan_block_def fun_eq_iff split: sum.splits)

lemma pool_owners_remove: "pool_owners (ci(ch := None)) other = (pool_owners ci other)(Inl ch := None)"
  by (auto simp: pool_owners_def chan_block_def fun_eq_iff split: sum.splits)

lemma ci_invar_new: "ci_invar channel_index_new Map.empty (bm_new n)"
  using bm_invar_new by (simp add: ci_invar_def channel_index_new_def tiles_def pool_owners_def chan_block_def
      split: sum.splits)

lemma ci_insert:
  assumes "ci_invar ci other bm" "ci ch = None" "counts_fit cs"
    and "bm_alloc_contiguous bm (unat (sum_list cs)) = (Some a, bm')"
  shows "ci_invar (ci(ch \<mapsto> dyn_layout_new a cs)) other bm'"
proof -
  have inv: "bm_invar bm" "tiles (bm_used bm) (pool_owners ci other)" "pool_owners ci other (Inl ch) = None"
    using assms(1,2) by (auto simp: ci_invar_def chan_block_def)
  note t = bm.alloc_tiles [OF inv assms(4)]
  have c: "alloc_count a = unat (sum_list cs)"
    using bm.alloc_Some [OF inv(1) assms(4)] by simp
  show ?thesis
    using assms(1) t(1,2) c dyn_layout_new_ok [OF assms(3) c]
    by (auto simp: ci_invar_def pool_owners_add) (simp_all add: dyn_layout_new_def)
qed

lemma add_channel_invar:
  assumes "ci_invar ci other bm" "counts_fit cs" "add_channel ci ch cs bm = (r, ci', bm')"
  shows "ci_invar ci' other bm' \<and>
    (case r of Inl e \<Rightarrow> ci' = ci \<and> bm' = bm | Inr l \<Rightarrow> ci' = ci(ch \<mapsto> l) \<and> ci ch = None)"
proof (cases "sum_list cs = 0 \<or> contains ci ch")
  case True
  with assms show ?thesis
    by (auto simp: add_channel_def Let_def split: if_splits)
next
  case False
  obtain x b where a: "bm_alloc_contiguous bm (unat (sum_list cs)) = (x, b)" by fastforce
  have inv: "bm_invar bm" using assms(1) by (simp add: ci_invar_def)
  have none: "ci ch = None" using False by (auto simp: contains_def)
  show ?thesis
  proof (cases x)
    case None
    with bm.alloc_None [OF inv] a assms(1,3) False show ?thesis
      by (auto simp: add_channel_def Let_def)
  next
    case (Some y)
    with ci_insert [OF assms(1) none assms(2)] a assms(3) False none show ?thesis
      by (auto simp: add_channel_def Let_def)
  qed
qed

lemma remove_channel_invar:
  assumes "ci_invar ci other bm"
  shows "\<exists>r ci' bm'. remove_channel ci ch bm = Ret (r, ci', bm') \<and> ci_invar ci' other bm' \<and> ci' = ci(ch := None) \<and>
    (case ci ch of
       None \<Rightarrow> r = Inl (NotFound ch) \<and> bm' = bm
     | Some l \<Rightarrow> r = Inr l \<and>
         bm_used bm' = bm_used bm - block (base_slot (dc_allocation l)) (alloc_count (dc_allocation l)) \<and>
         bm_total_slots bm' = bm_total_slots bm)"
proof (cases "ci ch")
  case None
  moreover from this have "ci(ch := None) = ci" by (auto simp: fun_eq_iff)
  ultimately show ?thesis
    using assms by (simp add: remove_channel_def)
next
  case (Some l)
  have inv: "bm_invar bm" "tiles (bm_used bm) (pool_owners ci other)"
    "pool_owners ci other (Inl ch) = Some (base_slot (dc_allocation l), alloc_count (dc_allocation l))"
    using assms Some by (auto simp: ci_invar_def chan_block_def)
  from bm.release_tiles [OF inv] obtain bm' where
    f: "bm_free bm (base_slot (dc_allocation l)) (alloc_count (dc_allocation l)) = Ret bm'" "bm_invar bm'"
      "tiles (bm_used bm') ((pool_owners ci other)(Inl ch := None))" "bm_total_slots bm' = bm_total_slots bm"
      "bm_used bm' = bm_used bm - block (base_slot (dc_allocation l)) (alloc_count (dc_allocation l))" .
  have "ci_invar (ci(ch := None)) other bm'"
    using assms f(2,3) by (auto simp: ci_invar_def pool_owners_remove split: if_splits)
  with f Some show ?thesis
    by (auto simp: remove_channel_def)
qed

lemma update_channel_invar:
  assumes "ci_invar ci other bm" "counts_fit cs"
  shows "\<exists>r ci' bm'. update_channel ci ch cs bm = Ret (r, ci', bm') \<and> ci_invar ci' other bm' \<and>
    (case r of Inl e \<Rightarrow> ci' = ci(ch := None) | Inr l \<Rightarrow> ci' = ci(ch \<mapsto> l))"
proof -
  from remove_channel_invar [OF assms(1), of ch] obtain r ci1 bm1 where
    rm: "remove_channel ci ch bm = Ret (r, ci1, bm1)" "ci_invar ci1 other bm1" "ci1 = ci(ch := None)"
    "contains ci ch \<Longrightarrow> \<exists>l. r = Inr l"
    by (cases "ci ch") (auto simp: contains_def dom_def)
  define ci0 where "ci0 = (if contains ci ch then ci1 else ci)"
  define bm0 where "bm0 = (if contains ci ch then bm1 else bm)"
  have inv0: "ci_invar ci0 other bm0"
    using rm assms by (simp add: ci0_def bm0_def)
  obtain r' ci' bm' where add: "add_channel ci0 ch cs bm0 = (r', ci', bm')"
    by (metis prod_cases3)
  have "update_channel ci ch cs bm = Ret (r', ci', bm')"
    using rm add by (auto simp: update_channel_def ci0_def bm0_def)
  moreover have "ci0 = ci(ch := None)"
    using rm(3) by (auto simp: ci0_def contains_def fun_eq_iff)
  ultimately show ?thesis
    using add_channel_invar [OF inv0 assms(2) add]
    by (cases r') auto
qed

section \<open>Looking up slots\<close>

lemma index_slot_owned:
  assumes "ci_invar ci other bm" "index_slot ci ch pt pid = Some s"
  obtains l where "ci ch = Some l" "dyn_slot l pt pid = Some s" "dyn_layout_ok l"
    "s \<in> block (base_slot (dc_allocation l)) (alloc_count (dc_allocation l))" "s \<in> bm_used bm"
proof -
  from assms obtain l where l: "ci ch = Some l" "dyn_slot l pt pid = Some s" "dyn_layout_ok l"
    by (auto simp: index_slot_def ci_invar_def split: option.splits)
  note b = dyn_slot_in_block [OF l(3,2)]
  have own: "pool_owners ci other (Inl ch) = Some (base_slot (dc_allocation l), alloc_count (dc_allocation l))"
    using l(1) by (simp add: chan_block_def)
  have "tiles (bm_used bm) (pool_owners ci other)"
    using assms(1) by (simp add: ci_invar_def)
  from tiles_owned [OF this own] b have "s \<in> bm_used bm"
    by (rule subsetD)
  with l b that show ?thesis by blast
qed

lemma index_slot_inject:
  assumes "ci_invar ci other bm" "index_slot ci ch pt pid = Some s" "index_slot ci ch' pt' pid' = Some s"
  shows "ch = ch' \<and> pt = pt' \<and> pid = pid'"
proof -
  obtain l where l: "ci ch = Some l" "dyn_slot l pt pid = Some s" "dyn_layout_ok l"
    "s \<in> block (base_slot (dc_allocation l)) (alloc_count (dc_allocation l))"
    using index_slot_owned [OF assms(1,2)] .
  obtain l' where l': "ci ch' = Some l'" "dyn_slot l' pt' pid' = Some s"
    "s \<in> block (base_slot (dc_allocation l')) (alloc_count (dc_allocation l'))"
    using index_slot_owned [OF assms(1,3)] .
  have "ch = ch'"
  proof (rule ccontr)
    assume "ch \<noteq> ch'"
    then have
      "tiles (bm_used bm) (pool_owners ci other)" "Inl ch \<noteq> (Inl ch' :: u32 + 'a)"
      "pool_owners ci other (Inl ch) = Some (base_slot (dc_allocation l), alloc_count (dc_allocation l))"
      "pool_owners ci other (Inl ch') = Some (base_slot (dc_allocation l'), alloc_count (dc_allocation l'))"
      using assms(1) l(1) l'(1) by (simp_all add: ci_invar_def chan_block_def)
    from tiles_disjoint [OF this(1,3,4,2)]
    have "block (base_slot (dc_allocation l)) (alloc_count (dc_allocation l)) \<inter>
        block (base_slot (dc_allocation l')) (alloc_count (dc_allocation l')) = {}" .
    with l(4) l'(3) show False by blast
  qed
  with l l' dyn_slot_inject [OF l(3,2)] show ?thesis by auto
qed

lemma dyn_slot_total: "1 \<le> pid \<Longrightarrow> pid \<le> dyn_count l pt \<Longrightarrow> dyn_slot l pt pid \<noteq> None"
  by (auto simp: dyn_slot_def dyn_count_def Let_def)

text \<open>Building the index from routes keeps the invariant and counts the allocated slots.\<close>

lemma build_index_invar:
  assumes "ci_invar ci other bm" "distinct (map fst m)" "\<forall>ch \<in> fst ` set m. ci ch = None"
    and "\<forall>cs \<in> snd ` set m. counts_fit cs" "build_index m ci n bm = (ci', n', bm')"
  shows "ci_invar ci' other bm' \<and> n' + card (bm_used bm) = n + card (bm_used bm')"
  using assms
proof (induction m arbitrary: ci n bm)
  case Nil
  then show ?case by simp
next
  case (Cons e m)
  obtain ch cs where e: "e = (ch, cs)" by fastforce
  have rest: "distinct (map fst m)" "\<forall>c \<in> fst ` set m. ci c = None" "\<forall>cs \<in> snd ` set m. counts_fit cs"
    and new: "ci ch = None" "counts_fit cs" "ch \<notin> fst ` set m"
    using Cons.prems by (auto simp: e)
  obtain x b where a: "bm_alloc_contiguous bm (unat (sum_list cs)) = (x, b)" by fastforce
  have inv: "bm_invar bm" using Cons.prems(1) by (simp add: ci_invar_def)
  show ?case
  proof (cases "sum_list cs = 0 \<or> x = None")
    case True
    then have "build_index m ci n bm = (ci', n', bm')"
      using Cons.prems(5) a bm.alloc_None [OF inv, of "unat (sum_list cs)" b]
      by (auto simp: e Let_def split: if_splits)
    with Cons.IH [OF Cons.prems(1) rest] show ?thesis by blast
  next
    case False
    then obtain y where y: "x = Some y" and nz: "sum_list cs \<noteq> 0" by auto
    note A = bm.alloc_Some [OF inv a [unfolded y]]
    let ?ci = "ci(ch \<mapsto> dyn_layout_new y cs)"
    have ci: "ci_invar ?ci other b"
      using ci_insert [OF Cons.prems(1) new(1,2)] a y by simp
    have none: "\<forall>c \<in> fst ` set m. ?ci c = None"
      using rest(2) new(3) by auto
    have card: "card (bm_used b) = card (bm_used bm) + alloc_count y"
      using A card_Un_disjoint [of "bm_used bm" "block (base_slot y) (unat (sum_list cs))"]
      by (auto simp: block_def)
    have "build_index m ?ci (n + alloc_count y) b = (ci', n', bm')"
      using Cons.prems(5) a y nz by (simp add: e)
    from Cons.IH [OF ci rest(1) none rest(3) this] card show ?thesis by simp
  qed
qed

section \<open>Sequences of hot operations\<close>

datatype index_op = Add u32 "u32 list" | Remove u32 | Update u32 "u32 list"

fun run_op :: "index_op \<Rightarrow> channel_index \<times> slot_bitmap \<Rightarrow> (channel_index \<times> slot_bitmap) outcome" where
  "run_op (Add ch cs) (ci, bm) = (case add_channel ci ch cs bm of (_, ci', bm') \<Rightarrow> Ret (ci', bm'))"
| "run_op (Remove ch) (ci, bm) = bind_outcome (remove_channel ci ch bm) (\<lambda>(_, ci', bm'). Ret (ci', bm'))"
| "run_op (Update ch cs) (ci, bm) = bind_outcome (update_channel ci ch cs bm) (\<lambda>(_, ci', bm'). Ret (ci', bm'))"

fun run_ops :: "index_op list \<Rightarrow> channel_index \<times> slot_bitmap \<Rightarrow> (channel_index \<times> slot_bitmap) outcome" where
  "run_ops [] st = Ret st"
| "run_ops (x # xs) st = bind_outcome (run_op x st) (run_ops xs)"

fun op_fits :: "index_op \<Rightarrow> bool" where
  "op_fits (Add ch cs) = counts_fit cs"
| "op_fits (Remove ch) = True"
| "op_fits (Update ch cs) = counts_fit cs"

lemma run_op_invar:
  assumes "ci_invar ci other bm" "op_fits x"
  shows "\<exists>ci' bm'. run_op x (ci, bm) = Ret (ci', bm') \<and> ci_invar ci' other bm'"
proof (cases x)
  case (Add ch cs)
  obtain r ci' bm' where "add_channel ci ch cs bm = (r, ci', bm')" by (metis prod_cases3)
  with add_channel_invar [OF assms(1), of cs ch] assms(2) Add show ?thesis by auto
next
  case (Remove ch)
  with remove_channel_invar [OF assms(1), of ch] show ?thesis by auto
next
  case (Update ch cs)
  with update_channel_invar [OF assms(1), of cs ch] assms(2) show ?thesis by auto
qed

lemma run_ops_invar:
  "ci_invar ci other bm \<Longrightarrow> list_all op_fits xs \<Longrightarrow>
     \<exists>ci' bm'. run_ops xs (ci, bm) = Ret (ci', bm') \<and> ci_invar ci' other bm'"
proof (induction xs arbitrary: ci bm)
  case (Cons x xs)
  then obtain ci1 bm1 where "run_op x (ci, bm) = Ret (ci1, bm1)" "ci_invar ci1 other bm1"
    using run_op_invar [OF Cons.prems(1), of x] by auto
  with Cons show ?case by auto
qed auto

section \<open>Properties\<close>



text \<open>C32. Updating a channel is not atomic: when the new layout cannot be allocated (or is empty), the
  old one has already been removed, so a failed update leaves the channel without any slots.\<close>

theorem failed_update_drops_channel:
  assumes "ci_invar ci (other :: 'k \<rightharpoonup> usize \<times> usize) bm" "counts_fit cs" "ci ch = Some l"
    and "update_channel ci ch cs bm = Ret (Inl e, ci', bm')"
  shows "ci' = ci(ch := None) \<and> index_slot ci' ch pt pid = None"
  using update_channel_invar [OF assms(1,2), of ch] assms(4) by (auto simp: index_slot_def)

definition demo_index :: "channel_index \<times> slot_bitmap" where
  "demo_index = snd (add_channel channel_index_new 1 [2, 1, 0, 0] (bm_new 4))"

lemma demo_index_layout: "fst demo_index 1 = Some (dyn_layout_new \<lparr>base_slot = 0, alloc_count = 3\<rparr> [2, 1, 0, 0])"
  by (simp add: demo_index_def add_channel_def Let_def contains_def channel_index_new_def bm_alloc_contiguous_def
      bm_free_count_def bm_new_def bm_find_contiguous_free_def bm_is_allocated_def div_ceil_def test_word_def upt_rec)

lemma demo_index_invar: "ci_invar (fst demo_index) (Map.empty :: unit \<rightharpoonup> usize \<times> usize) (snd demo_index)"
proof -
  have "counts_fit [2, 1, 0, 0]" by (simp add: counts_fit_def)
  from add_channel_invar [OF ci_invar_new this] show ?thesis
    unfolding demo_index_def by (metis prod.collapse)
qed

lemma demo_update_fails:
  "\<exists>ci' bm'. update_channel (fst demo_index) 1 [0, 0, 0, 0] (snd demo_index) = Ret (Inl ZeroPoints, ci', bm')"
proof -
  have "contains (fst demo_index) 1"
    using demo_index_layout by (auto simp: contains_def)
  moreover obtain l ci' bm' where "remove_channel (fst demo_index) 1 (snd demo_index) = Ret (Inr l, ci', bm')"
    using remove_channel_invar [OF demo_index_invar, of 1] demo_index_layout by auto
  ultimately show ?thesis
    by (simp add: update_channel_def add_channel_def)
qed

theorem failed_update_drops_channel_witness:
  "\<exists>ci' bm'. update_channel (fst demo_index) 1 [0, 0, 0, 0] (snd demo_index) = Ret (Inl ZeroPoints, ci', bm') \<and>
     ci' 1 = None \<and> index_slot ci' 1 Telemetry 1 = None"
proof -
  obtain ci' bm' where u: "update_channel (fst demo_index) 1 [0, 0, 0, 0] (snd demo_index) = Ret (Inl ZeroPoints, ci', bm')"
    using demo_update_fails by blast
  have "counts_fit [0, 0, 0, 0]" by (simp add: counts_fit_def)
  from failed_update_drops_channel [OF demo_index_invar this demo_index_layout u, of Telemetry 1] u
  show ?thesis by auto
qed

end
