(* ===== verification/Instance_Index.thy ===== *)
theory Instance_Index
  imports Channel_Index
begin

text \<open>
  Hot add and remove of instances: \<open>libs/voltage-rtdb-shm/src/instance_index.rs\<close>.  An instance owns
  a block of the slot pool for its private points and may reference slots of channels for its routed
  points; a referenced slot shadows a private one.  The pool invariant is the one of the channel
  index, with the instances as the other clients.
\<close>

section \<open>Layouts\<close>

record shared_slot_ref =
  sr_slot_id :: usize
  sr_point_type :: point_type
  sr_point_id :: u32
  sr_source_channel_id :: u32
  sr_source_point_type :: point_type
  sr_source_point_id :: u32

record dyn_instance_layout =
  di_instance_id :: u32
  di_own_base :: usize
  di_own_counts :: "u32 list"
  di_own_total :: u32
  di_own_allocation :: "slot_allocation option"
  di_shared_slots :: "shared_slot_ref list"
  di_shared_lookup :: "point_type \<times> u32 \<rightharpoonup> usize"

definition inst_layout_new :: "u32 \<Rightarrow> slot_allocation option \<Rightarrow> u32 list \<Rightarrow> dyn_instance_layout" where
  "inst_layout_new instance_id allocation own_counts =
     \<lparr>di_instance_id = instance_id,
      di_own_base = (case allocation of Some a \<Rightarrow> base_slot a | None \<Rightarrow> 0),
      di_own_counts = own_counts, di_own_total = sum_list own_counts,
      di_own_allocation = allocation, di_shared_slots = [], di_shared_lookup = Map.empty\<rparr>"

definition own_type_idx :: "point_type \<Rightarrow> nat option" where
  "own_type_idx pt = (case pt of Telemetry \<Rightarrow> Some 0 | Adjustment \<Rightarrow> Some 1 | _ \<Rightarrow> None)"

definition own_slot :: "dyn_instance_layout \<Rightarrow> point_type \<Rightarrow> u32 \<Rightarrow> usize option" where
  "own_slot l pt point_id =
     (case own_type_idx pt of
        None \<Rightarrow> None
      | Some type_idx \<Rightarrow>
          if point_id = 0 \<or> point_id > di_own_counts l ! type_idx then None
          else let offset = sum_list (take type_idx (di_own_counts l))
               in Some (di_own_base l + unat offset + unat (point_id - 1)))"

definition inst_slot :: "dyn_instance_layout \<Rightarrow> point_type \<Rightarrow> u32 \<Rightarrow> usize option" where
  "inst_slot l pt point_id =
     (case di_shared_lookup l (pt, point_id) of
        Some slot_id \<Rightarrow> Some slot_id
      | None \<Rightarrow> own_slot l pt point_id)"

definition layout_add_shared :: "dyn_instance_layout \<Rightarrow> shared_slot_ref \<Rightarrow> dyn_instance_layout" where
  "layout_add_shared l r =
     (let key = (sr_point_type r, sr_point_id r) in
      case di_shared_lookup l key of
        None \<Rightarrow> l\<lparr>di_shared_lookup := (di_shared_lookup l)(key \<mapsto> sr_slot_id r),
                  di_shared_slots := di_shared_slots l @ [r]\<rparr>
      | Some _ \<Rightarrow> l)"

text \<open>\<open>position\<close> finds the first matching entry, \<open>Vec::remove\<close> takes it out.\<close>

fun remove_first :: "('a \<Rightarrow> bool) \<Rightarrow> 'a list \<Rightarrow> 'a option \<times> 'a list" where
  "remove_first p [] = (None, [])"
| "remove_first p (x # xs) =
     (if p x then (Some x, xs) else (case remove_first p xs of (r, ys) \<Rightarrow> (r, x # ys)))"

definition layout_remove_shared :: "dyn_instance_layout \<Rightarrow> point_type \<Rightarrow> u32 \<Rightarrow>
    shared_slot_ref option \<times> dyn_instance_layout" where
  "layout_remove_shared l pt point_id =
     (let l1 = l\<lparr>di_shared_lookup := (di_shared_lookup l)((pt, point_id) := None)\<rparr>;
          (removed, rest) =
            remove_first (\<lambda>s. sr_point_type s = pt \<and> sr_point_id s = point_id) (di_shared_slots l1)
      in (removed, l1\<lparr>di_shared_slots := rest\<rparr>))"

definition inst_is_valid :: "dyn_instance_layout \<Rightarrow> bool" where
  "inst_is_valid l \<longleftrightarrow> di_own_total l > 0 \<or> di_shared_slots l \<noteq> []"

definition own_count :: "dyn_instance_layout \<Rightarrow> point_type \<Rightarrow> u32" where
  "own_count l pt =
     (case pt of Telemetry \<Rightarrow> di_own_counts l ! 0 | Adjustment \<Rightarrow> di_own_counts l ! 1 | _ \<Rightarrow> 0)"

definition shared_count :: "dyn_instance_layout \<Rightarrow> usize" where
  "shared_count l = length (di_shared_slots l)"

section \<open>Operations on the index\<close>

type_synonym instance_index = "u32 \<rightharpoonup> dyn_instance_layout"

definition instance_index_new :: instance_index where
  "instance_index_new = Map.empty"

definition inst_index_slot :: "instance_index \<Rightarrow> u32 \<Rightarrow> point_type \<Rightarrow> u32 \<Rightarrow> usize option" where
  "inst_index_slot ii instance_id pt point_id =
     (case ii instance_id of None \<Rightarrow> None | Some l \<Rightarrow> inst_slot l pt point_id)"

definition inst_contains :: "instance_index \<Rightarrow> u32 \<Rightarrow> bool" where
  "inst_contains ii instance_id \<longleftrightarrow> instance_id \<in> dom ii"

definition add_instance :: "instance_index \<Rightarrow> u32 \<Rightarrow> u32 list \<Rightarrow> slot_bitmap option \<Rightarrow>
    (index_error + dyn_instance_layout) \<times> instance_index \<times> slot_bitmap option" where
  "add_instance ii instance_id own_counts bitmap =
     (if inst_contains ii instance_id then (Inl (AlreadyExists instance_id), ii, bitmap)
      else let tot = sum_list own_counts in
        if tot > 0 then
          (case bitmap of
             None \<Rightarrow> (Inl BitmapRequired, ii, None)
           | Some bm \<Rightarrow>
               (case bm_alloc_contiguous bm (unat tot) of
                  (None, bm') \<Rightarrow> (Inl (AllocationFailed tot instance_id), ii, Some bm')
                | (Some a, bm') \<Rightarrow>
                    (let layout = inst_layout_new instance_id (Some a) own_counts
                     in (Inr layout, ii(instance_id \<mapsto> layout), Some bm'))))
        else let layout = inst_layout_new instance_id None own_counts
             in (Inr layout, ii(instance_id \<mapsto> layout), bitmap))"

definition remove_instance :: "instance_index \<Rightarrow> u32 \<Rightarrow> slot_bitmap option \<Rightarrow>
    ((index_error + dyn_instance_layout) \<times> instance_index \<times> slot_bitmap option) outcome" where
  "remove_instance ii instance_id bitmap =
     (case ii instance_id of
        None \<Rightarrow> Ret (Inl (NotFound instance_id), ii, bitmap)
      | Some layout \<Rightarrow>
          (case (di_own_allocation layout, bitmap) of
             (Some a, Some bm) \<Rightarrow>
               bind_outcome (bm_free bm (base_slot a) (alloc_count a))
                 (\<lambda>bm'. Ret (Inr layout, ii(instance_id := None), Some bm'))
           | _ \<Rightarrow> Ret (Inr layout, ii(instance_id := None), bitmap)))"

definition add_shared_slot :: "instance_index \<Rightarrow> u32 \<Rightarrow> shared_slot_ref \<Rightarrow>
    (index_error + unit) \<times> instance_index" where
  "add_shared_slot ii instance_id r =
     (case ii instance_id of
        None \<Rightarrow> (Inl (NotFound instance_id), ii)
      | Some l \<Rightarrow> (Inr (), ii(instance_id \<mapsto> layout_add_shared l r)))"

definition remove_shared_slot :: "instance_index \<Rightarrow> u32 \<Rightarrow> point_type \<Rightarrow> u32 \<Rightarrow>
    (index_error + shared_slot_ref option) \<times> instance_index" where
  "remove_shared_slot ii instance_id pt point_id =
     (case ii instance_id of
        None \<Rightarrow> (Inl (NotFound instance_id), ii)
      | Some l \<Rightarrow>
          (let (removed, l') = layout_remove_shared l pt point_id
           in (Inr removed, ii(instance_id \<mapsto> l'))))"

definition clear_shared_slots :: "instance_index \<Rightarrow> u32 \<Rightarrow> (index_error + usize) \<times> instance_index" where
  "clear_shared_slots ii instance_id =
     (case ii instance_id of
        None \<Rightarrow> (Inl (NotFound instance_id), ii)
      | Some l \<Rightarrow>
          (Inr (length (di_shared_slots l)),
           ii(instance_id \<mapsto> l\<lparr>di_shared_slots := [], di_shared_lookup := Map.empty\<rparr>)))"

section \<open>Shared slots: list and lookup table agree\<close>

definition ref_key :: "shared_slot_ref \<Rightarrow> point_type \<times> u32" where
  "ref_key r = (sr_point_type r, sr_point_id r)"

definition shared_ok :: "dyn_instance_layout \<Rightarrow> bool" where
  "shared_ok l \<longleftrightarrow>
     distinct (map ref_key (di_shared_slots l)) \<and>
     di_shared_lookup l = map_of (map (\<lambda>r. (ref_key r, sr_slot_id r)) (di_shared_slots l))"

lemma shared_ok_new: "shared_ok (inst_layout_new i a cs)"
  by (simp add: shared_ok_def inst_layout_new_def)

lemma lookup_dom: "shared_ok l \<Longrightarrow> (di_shared_lookup l k = None) = (k \<notin> ref_key ` set (di_shared_slots l))"
  by (simp add: shared_ok_def map_of_eq_None_iff image_image)

lemma map_of_snoc: "k \<notin> fst ` set xs \<Longrightarrow> map_of (xs @ [(k, v)]) = (map_of xs)(k \<mapsto> v)"
  by (induction xs) (auto simp: fun_eq_iff)

lemma shared_ok_add:
  assumes "shared_ok l"
  shows "shared_ok (layout_add_shared l r)"
proof (cases "di_shared_lookup l (ref_key r)")
  case None
  then have "ref_key r \<notin> ref_key ` set (di_shared_slots l)"
    using lookup_dom [OF assms] by simp
  moreover from this have "ref_key r \<notin> fst ` set (map (\<lambda>r. (ref_key r, sr_slot_id r)) (di_shared_slots l))"
    by (auto simp: image_image)
  ultimately show ?thesis
    using assms None map_of_snoc [of "ref_key r" "map (\<lambda>r. (ref_key r, sr_slot_id r)) (di_shared_slots l)" "sr_slot_id r"]
    by (auto simp: shared_ok_def layout_add_shared_def Let_def ref_key_def [symmetric])
next
  case (Some x)
  with assms show ?thesis
    by (simp add: layout_add_shared_def Let_def ref_key_def [symmetric])
qed

lemma remove_first_key:
  assumes "distinct (map f xs)"
  shows "map f (snd (remove_first (\<lambda>x. f x = k) xs)) = removeAll k (map f xs)"
    and "map_of (map (\<lambda>x. (f x, g x)) (snd (remove_first (\<lambda>x. f x = k) xs))) =
      (map_of (map (\<lambda>x. (f x, g x)) xs))(k := None)"
  using assms
proof (induction xs)
  case (Cons x xs)
  {
    case 1
    with Cons show ?case by (auto split: prod.splits)
  next
    case 2
    show ?case
    proof (cases "f x = k")
      case True
      with 2 have "map_of (map (\<lambda>x. (f x, g x)) xs) k = None"
        by (simp add: map_of_eq_None_iff image_image)
      with True show ?thesis by (auto simp: fun_eq_iff)
    next
      case False
      with Cons 2 show ?thesis by (auto simp: case_prod_beta fun_eq_iff)
    qed
  }
qed simp_all

lemma shared_ok_remove:
  assumes "shared_ok l"
  shows "shared_ok (snd (layout_remove_shared l pt pid))"
proof -
  have p: "(\<lambda>s. sr_point_type s = pt \<and> sr_point_id s = pid) = (\<lambda>s. ref_key s = (pt, pid))"
    by (auto simp: ref_key_def)
  have d: "distinct (map ref_key (di_shared_slots l))"
    using assms by (simp add: shared_ok_def)
  show ?thesis
    using remove_first_key(1) [OF d, of "(pt, pid)"] remove_first_key(2) [OF d, of sr_slot_id "(pt, pid)"] assms
    by (simp add: shared_ok_def layout_remove_shared_def Let_def p case_prod_beta distinct_removeAll)
qed

section \<open>The pool with channels and instances\<close>

definition own_fit :: "u32 list \<Rightarrow> bool" where
  "own_fit cs \<longleftrightarrow> length cs = 2 \<and> sum_list (map unat cs) < 2 ^ 32"

definition inst_layout_ok :: "dyn_instance_layout \<Rightarrow> bool" where
  "inst_layout_ok l \<longleftrightarrow>
     own_fit (di_own_counts l) \<and> shared_ok l \<and>
     (case di_own_allocation l of
        None \<Rightarrow> sum_list (map unat (di_own_counts l)) = 0
      | Some a \<Rightarrow> di_own_base l = base_slot a \<and> alloc_count a = sum_list (map unat (di_own_counts l)))"

definition inst_block :: "dyn_instance_layout option \<Rightarrow> (usize \<times> usize) option" where
  "inst_block lo = Option.bind lo (\<lambda>l. map_option (\<lambda>a. (base_slot a, alloc_count a)) (di_own_allocation l))"

definition inst_blocks :: "instance_index \<Rightarrow> (u32 \<rightharpoonup> usize \<times> usize)" where
  "inst_blocks ii = (\<lambda>i. inst_block (ii i))"

text \<open>Channels and instances together tile the pool.\<close>

definition pool_invar :: "channel_index \<Rightarrow> instance_index \<Rightarrow> slot_bitmap \<Rightarrow> bool" where
  "pool_invar ci ii bm \<longleftrightarrow>
     ci_invar ci (inst_blocks ii) bm \<and> (\<forall>i l. ii i = Some l \<longrightarrow> inst_layout_ok l)"

lemma pool_owners_Inr [simp]: "pool_owners ci other (Inr i) = other i"
  by (simp add: pool_owners_def)

lemma pool_owners_inst: "pool_owners ci (other(i := x)) = (pool_owners ci other)(Inr i := x)"
  by (auto simp: pool_owners_def fun_eq_iff split: sum.splits)

lemma inst_blocks_upd: "inst_blocks (ii(i := x)) = (inst_blocks ii)(i := inst_block x)"
  by (auto simp: inst_blocks_def)

lemma inst_layout_new_ok:
  assumes "own_fit cs" "\<And>a. al = Some a \<Longrightarrow> alloc_count a = unat (sum_list cs)" "al = None \<Longrightarrow> sum_list cs = 0"
  shows "inst_layout_ok (inst_layout_new i al cs)"
proof -
  have u: "unat (sum_list cs) = sum_list (map unat cs)"
    using assms(1) unat_sum_list by (simp add: own_fit_def)
  have s: "shared_ok (inst_layout_new i al cs)" by (rule shared_ok_new)
  show ?thesis
  proof (cases al)
    case None
    then have "sum_list (map unat cs) = 0" using u assms(3) by simp
    with None s assms(1) show ?thesis by (simp add: inst_layout_ok_def inst_layout_new_def)
  next
    case (Some a)
    with s assms(1,2) u show ?thesis by (simp add: inst_layout_ok_def inst_layout_new_def)
  qed
qed

lemma add_instance_invar:
  assumes "pool_invar ci ii bm" "own_fit cs" "add_instance ii i cs (Some bm) = (r, ii', b')"
  shows "\<exists>bm'. b' = Some bm' \<and> pool_invar ci ii' bm' \<and>
    (case r of Inl e \<Rightarrow> ii' = ii \<and> bm' = bm | Inr l \<Rightarrow> ii' = ii(i \<mapsto> l) \<and> ii i = None)"
proof (cases "inst_contains ii i")
  case True
  with assms show ?thesis by (auto simp: add_instance_def)
next
  case False
  then have none: "ii i = None" by (auto simp: inst_contains_def)
  show ?thesis
  proof (cases "sum_list cs > 0")
    case zero: False
    let ?l = "inst_layout_new i None cs"
    have "inst_layout_ok ?l"
      using zero assms(2) by (intro inst_layout_new_ok) (auto simp: word_gt_0)
    moreover have "inst_blocks (ii(i \<mapsto> ?l)) = inst_blocks ii"
      using none by (auto simp: inst_blocks_def inst_block_def inst_layout_new_def fun_eq_iff)
    ultimately show ?thesis
      using assms False zero none by (auto simp: add_instance_def pool_invar_def Let_def)
  next
    case pos: True
    obtain x b where a: "bm_alloc_contiguous bm (unat (sum_list cs)) = (x, b)" by fastforce
    have inv: "bm_invar bm" using assms(1) by (simp add: pool_invar_def ci_invar_def)
    show ?thesis
    proof (cases x)
      case None
      then have "b = bm" using bm.alloc_None [OF inv] a by simp
      with None a assms(1,3) False pos show ?thesis
        by (auto simp: add_instance_def Let_def)
    next
      case (Some y)
      let ?l = "inst_layout_new i (Some y) cs"
      have own: "tiles (bm_used bm) (pool_owners ci (inst_blocks ii))"
        "pool_owners ci (inst_blocks ii) (Inr i) = None"
        using assms(1) none by (auto simp: pool_invar_def ci_invar_def inst_blocks_def inst_block_def)
      note t = bm.alloc_tiles [OF inv own a [unfolded Some]]
      have c: "alloc_count y = unat (sum_list cs)"
        using bm.alloc_Some [OF inv a [unfolded Some]] by simp
      have ok: "inst_layout_ok ?l"
        using c assms(2) by (intro inst_layout_new_ok) auto
      have "inst_block (Some ?l) = Some (base_slot y, unat (sum_list cs))"
        using c by (simp add: inst_block_def inst_layout_new_def)
      then have "pool_invar ci (ii(i \<mapsto> ?l)) b"
        using assms(1) t ok by (auto simp: pool_invar_def ci_invar_def inst_blocks_upd pool_owners_inst)
      then show ?thesis
        using assms(3) False pos a Some none by (auto simp: add_instance_def Let_def)
    qed
  qed
qed

lemma remove_instance_invar:
  assumes "pool_invar ci ii bm"
  shows "\<exists>r bm'. remove_instance ii i (Some bm) = Ret (r, ii(i := None), Some bm') \<and>
    pool_invar ci (ii(i := None)) bm' \<and> (r = Inl (NotFound i) \<longleftrightarrow> ii i = None)"
proof (cases "ii i")
  case None
  then have "ii(i := None) = ii" by (auto simp: fun_eq_iff)
  with None assms show ?thesis by (simp add: remove_instance_def)
next
  case (Some l)
  have oks: "\<forall>j l. (ii(i := None)) j = Some l \<longrightarrow> inst_layout_ok l"
    using assms by (auto simp: pool_invar_def split: if_splits)
  show ?thesis
  proof (cases "di_own_allocation l")
    case None
    then have "inst_blocks (ii(i := None)) = inst_blocks ii"
      using Some by (auto simp: inst_blocks_def inst_block_def fun_eq_iff)
    with None Some assms oks show ?thesis
      by (auto simp: remove_instance_def pool_invar_def)
  next
    case al: (Some a)
    have inv: "bm_invar bm" "tiles (bm_used bm) (pool_owners ci (inst_blocks ii))"
      "pool_owners ci (inst_blocks ii) (Inr i) = Some (base_slot a, alloc_count a)"
      using assms Some al by (auto simp: pool_invar_def ci_invar_def inst_blocks_def inst_block_def)
    from bm.release_tiles [OF inv] obtain bm' where f: "bm_free bm (base_slot a) (alloc_count a) = Ret bm'"
      "bm_invar bm'" "tiles (bm_used bm') ((pool_owners ci (inst_blocks ii))(Inr i := None))" .
    have "pool_invar ci (ii(i := None)) bm'"
      using assms f oks by (auto simp: pool_invar_def ci_invar_def inst_blocks_upd pool_owners_inst inst_block_def)
    with f Some al show ?thesis by (auto simp: remove_instance_def)
  qed
qed

section \<open>Lookups\<close>

lemma own_slot_in_block:
  assumes "inst_layout_ok l" "own_slot l pt pid = Some s"
  shows "\<exists>a. di_own_allocation l = Some a \<and> s \<in> block (base_slot a) (alloc_count a)"
proof -
  obtain k where k: "own_type_idx pt = Some k" "pid \<noteq> 0" "pid \<le> di_own_counts l ! k"
    and s: "s = di_own_base l + unat (sum_list (take k (di_own_counts l))) + unat (pid - 1)"
    using assms(2) by (auto simp: own_slot_def not_less Let_def split: option.splits if_splits)
  obtain m a where cs: "di_own_counts l = [m, a]" and fit: "unat m + unat a < 2 ^ 32"
    using assms(1) by (auto simp: inst_layout_ok_def own_fit_def numeral_2_eq_2 length_Suc_conv)
  have k01: "k = 0 \<or> k = 1"
    using k(1) by (auto simp: own_type_idx_def split: point_type.splits)
  have "0 < unat pid" "unat (pid - 1) = unat pid - 1"
    using k(2) by (simp_all add: unat_gt_0 unat_sub word_le_nat_alt Suc_le_eq)
  then have "unat (sum_list (take k [m, a])) + unat (pid - 1) < unat m + unat a"
    using k01 k(3) by (auto simp: cs word_le_nat_alt)
  then show ?thesis
    using s assms(1) by (auto simp: inst_layout_ok_def cs block_def split: option.splits)
qed

text \<open>Adding a reference makes the point resolve to it, unless the point already had one.\<close>

lemma layout_add_shared_slot:
  "inst_slot (layout_add_shared l r) pt pid =
     (if (pt, pid) = ref_key r \<and> di_shared_lookup l (ref_key r) = None then Some (sr_slot_id r)
      else inst_slot l pt pid)"
  by (auto simp: inst_slot_def layout_add_shared_def ref_key_def own_slot_def Let_def split: option.splits)

lemma layout_remove_shared_slot:
  "inst_slot (snd (layout_remove_shared l pt pid)) pt' pid' =
     (if (pt', pid') = (pt, pid) then own_slot l pt pid else inst_slot l pt' pid')"
  by (auto simp: inst_slot_def layout_remove_shared_def own_slot_def Let_def case_prod_beta split: option.splits)

section \<open>Properties\<close>

text \<open>C26. Channels and instances share one pool safely: adding an instance (whatever the outcome) and
  removing one keep the invariant that the blocks of all channels and all instances are pairwise
  disjoint and together are exactly the allocated slots, and removal never panics.\<close>

theorem instances_share_pool:
  assumes "pool_invar ci ii bm" "own_fit cs"
  shows "(\<exists>r ii' bm'. add_instance ii i cs (Some bm) = (r, ii', Some bm') \<and> pool_invar ci ii' bm') \<and>
    (\<exists>r bm'. remove_instance ii i (Some bm) = Ret (r, ii(i := None), Some bm') \<and>
       pool_invar ci (ii(i := None)) bm')"
proof -
  obtain r ii' b' where a: "add_instance ii i cs (Some bm) = (r, ii', b')" by (metis prod_cases3)
  from add_instance_invar [OF assms a] a remove_instance_invar [OF assms(1), of i] show ?thesis by auto
qed

theorem instances_share_pool_witness:
  "\<exists>r ii' bm'. add_instance instance_index_new 7 [2, 3] (Some (bm_new 16)) = (r, ii', Some bm') \<and>
     pool_invar channel_index_new ii' bm'"
proof -
  have "inst_blocks instance_index_new = Map.empty"
    by (simp add: inst_blocks_def inst_block_def instance_index_new_def fun_eq_iff)
  then have "pool_invar channel_index_new instance_index_new (bm_new 16)"
    using ci_invar_new by (simp add: pool_invar_def instance_index_new_def)
  from instances_share_pool [OF this, of "[2, 3]"] show ?thesis
    by (auto simp: own_fit_def)
qed

text \<open>Routed points resolve to the channel's slot: adding a reference for a point without one makes
  the point (and no other) resolve to the referenced slot; removing it again restores what the point
  resolved to before; list and lookup table of the references stay consistent throughout.\<close>

lemma shared_slot_add_remove:
  assumes "shared_ok l" "di_shared_lookup l (ref_key r) = None"
  shows "inst_slot (layout_add_shared l r) (sr_point_type r) (sr_point_id r) = Some (sr_slot_id r) \<and>
    ((pt, pid) \<noteq> ref_key r \<longrightarrow> inst_slot (layout_add_shared l r) pt pid = inst_slot l pt pid) \<and>
    inst_slot (snd (layout_remove_shared (layout_add_shared l r) (sr_point_type r) (sr_point_id r))) pt pid =
      inst_slot l pt pid \<and>
    shared_ok (layout_add_shared l r) \<and>
    shared_ok (snd (layout_remove_shared (layout_add_shared l r) (sr_point_type r) (sr_point_id r)))"
proof -
  have own: "own_slot (layout_add_shared l r) = own_slot l"
    by (auto simp: layout_add_shared_def own_slot_def Let_def fun_eq_iff split: option.splits)
  have shadow: "inst_slot l (sr_point_type r) (sr_point_id r) = own_slot l (sr_point_type r) (sr_point_id r)"
    using assms(2) by (simp add: inst_slot_def ref_key_def)
  have add: "inst_slot (layout_add_shared l r) p i =
      (if (p, i) = (sr_point_type r, sr_point_id r) then Some (sr_slot_id r) else inst_slot l p i)" for p i
    using assms(2) by (simp only: layout_add_shared_slot ref_key_def simp_thms)
  have remove: "inst_slot (snd (layout_remove_shared (layout_add_shared l r) (sr_point_type r) (sr_point_id r))) pt pid =
      inst_slot l pt pid"
    using shadow by (simp only: layout_remove_shared_slot own add) simp
  show ?thesis
    using add [of pt pid] remove shared_ok_add [OF assms(1)] shared_ok_remove [OF shared_ok_add [OF assms(1)]]
    by (simp add: add ref_key_def)
qed

end
