(* ===== verification/Point_Slot.thy ===== *)
theory Point_Slot
  imports Core_Types
begin

text \<open>
  The shared-memory cell of one point: \<open>libs/voltage-rtdb-shm/src/core/slot.rs\<close>.  The first half
  gives the operations as functions on the cell; a load that races with the writer is a function of
  the five words the loads observed.  The second half is the seqlock as a transition system.  One
  writer runs \<open>set\<close> and one reader runs \<open>try_load_consistent\<close>; the three data stores
  (respectively loads) may happen in any order between the fences that enclose them, because the
  fences order them only against the accesses to \<open>seq\<close>.
\<close>

section \<open>The cell\<close>

record point_slot =
  value_bits :: u64
  timestamp :: u64
  raw_bits :: u64
  seq :: u32
  dirty :: u32

definition SLOT_UNWRITTEN_BITS :: u64 where
  "SLOT_UNWRITTEN_BITS = 0x7FF8000000000000"

definition slot_new :: point_slot where
  "slot_new =
     \<lparr>value_bits = SLOT_UNWRITTEN_BITS, timestamp = 0, raw_bits = SLOT_UNWRITTEN_BITS,
      seq = 0, dirty = 0\<rparr>"

definition is_unwritten :: "point_slot \<Rightarrow> bool" where
  "is_unwritten s = f64_is_nan (value_bits s)"

definition init_unwritten :: "point_slot \<Rightarrow> point_slot" where
  "init_unwritten s = s\<lparr>value_bits := SLOT_UNWRITTEN_BITS, raw_bits := SLOT_UNWRITTEN_BITS\<rparr>"

definition get_value :: "point_slot \<Rightarrow> f64" where
  "get_value s = value_bits s"

definition get_timestamp :: "point_slot \<Rightarrow> u64" where
  "get_timestamp s = timestamp s"

definition get_raw :: "point_slot \<Rightarrow> f64" where
  "get_raw s = raw_bits s"

definition MAX_CONSISTENCY_RETRIES :: nat where
  "MAX_CONSISTENCY_RETRIES = 32768"

text \<open>A consistent sample: engineering value, raw value, timestamp.\<close>

type_synonym sample = "f64 \<times> f64 \<times> u64"

text \<open>One attempt of the seqlock read, as a function of what its five loads return.\<close>

record observation =
  ob_seq1 :: u32
  ob_value :: u64
  ob_raw :: u64
  ob_ts :: u64
  ob_seq2 :: u32

definition try_load_consistent :: "observation \<Rightarrow> sample option" where
  "try_load_consistent ob =
     (if ob_seq1 ob AND 1 \<noteq> 0 then None
      else if ob_seq1 ob = ob_seq2 ob then Some (ob_value ob, ob_raw ob, ob_ts ob)
      else None)"

text \<open>The attempts of a retry loop observe the memory at different times.\<close>

fun load_attempts :: "nat \<Rightarrow> (nat \<Rightarrow> observation) \<Rightarrow> sample option" where
  "load_attempts 0 obs = None"
| "load_attempts (Suc n) obs =
     (case try_load_consistent (obs 0) of
        Some r \<Rightarrow> Some r
      | None \<Rightarrow> load_attempts n (\<lambda>i. obs (Suc i)))"

definition load_consistent :: "(nat \<Rightarrow> observation) \<Rightarrow> sample option" where
  "load_consistent obs = load_attempts MAX_CONSISTENCY_RETRIES obs"

text \<open>The observation of a reader that no writer interferes with.\<close>

definition observe :: "point_slot \<Rightarrow> observation" where
  "observe s =
     \<lparr>ob_seq1 = seq s, ob_value = value_bits s, ob_raw = raw_bits s, ob_ts = timestamp s,
      ob_seq2 = seq s\<rparr>"

definition slot_set :: "point_slot \<Rightarrow> f64 \<Rightarrow> f64 \<Rightarrow> u64 \<Rightarrow> point_slot" where
  "slot_set s v raw ts =
     (let s1 = s\<lparr>seq := seq s + 1\<rparr>;
          s2 = s1\<lparr>value_bits := v\<rparr>;
          s3 = s2\<lparr>raw_bits := raw\<rparr>;
          s4 = s3\<lparr>timestamp := ts\<rparr>;
          s5 = s4\<lparr>seq := seq s4 + 1\<rparr>
      in s5\<lparr>dirty := 1\<rparr>)"

definition is_dirty :: "point_slot \<Rightarrow> bool" where
  "is_dirty s \<longleftrightarrow> dirty s \<noteq> 0"

definition clear_dirty :: "point_slot \<Rightarrow> point_slot" where
  "clear_dirty s = s\<lparr>dirty := 0\<rparr>"

definition seq_raw :: "point_slot \<Rightarrow> u32" where
  "seq_raw s = seq s"

definition set_seq_for_testing :: "point_slot \<Rightarrow> u32 \<Rightarrow> point_slot" where
  "set_seq_for_testing s val = s\<lparr>seq := val\<rparr>"

section \<open>The seqlock protocol\<close>

datatype field = FValue | FRaw | FTimestamp

fun load_field :: "field \<Rightarrow> point_slot \<Rightarrow> u64" where
  "load_field FValue s = value_bits s"
| "load_field FRaw s = raw_bits s"
| "load_field FTimestamp s = timestamp s"

fun store_field :: "field \<Rightarrow> u64 \<Rightarrow> point_slot \<Rightarrow> point_slot" where
  "store_field FValue v s = s\<lparr>value_bits := v\<rparr>"
| "store_field FRaw v s = s\<lparr>raw_bits := v\<rparr>"
| "store_field FTimestamp v s = s\<lparr>timestamp := v\<rparr>"

fun sample_field :: "field \<Rightarrow> sample \<Rightarrow> u64" where
  "sample_field FValue (v, raw, ts) = v"
| "sample_field FRaw (v, raw, ts) = raw"
| "sample_field FTimestamp (v, raw, ts) = ts"

definition slot_sample :: "point_slot \<Rightarrow> sample" where
  "slot_sample s = (value_bits s, raw_bits s, timestamp s)"

text \<open>
  The writer is idle, between its two increments with some data stores still pending, or about to
  raise the dirty flag.  The reader has not started, has loaded \<open>seq1\<close> and some of the data, or has
  returned.  \<open>ticks\<close>, \<open>committed\<close> and the reader's \<open>began\<close>, \<open>seen\<close> and \<open>ended\<close> are ghosts: the
  number of increments of \<open>seq\<close> so far, the samples written so far (newest first), and what these
  were when the reader loaded \<open>seq1\<close> and \<open>seq2\<close>.
\<close>

datatype writer_pc = WIdle | WData sample "field set" | WDirty

datatype reader_pc =
    RIdle
  | RData (began: nat) (seen: sample) u32 "field \<Rightarrow> u64 option"
  | RDone (began: nat) (seen: sample) (ended: nat) "sample option"

record lock_state =
  mem :: point_slot
  writer :: writer_pc
  reader :: reader_pc
  ticks :: nat
  committed :: "sample list"

definition lock_init :: "point_slot \<Rightarrow> lock_state" where
  "lock_init s =
     \<lparr>mem = s, writer = WIdle, reader = RIdle, ticks = unat (seq s), committed = [slot_sample s]\<rparr>"

definition bump_seq :: "point_slot \<Rightarrow> point_slot" where
  "bump_seq s = s\<lparr>seq := seq s + 1\<rparr>"

text \<open>What the reader's code computes from the data it loaded and its second load of \<open>seq\<close>.\<close>

definition reader_result :: "u32 \<Rightarrow> (field \<Rightarrow> u64 option) \<Rightarrow> u32 \<Rightarrow> sample option" where
  "reader_result seq1 loaded seq2 =
     try_load_consistent
       \<lparr>ob_seq1 = seq1, ob_value = the (loaded FValue), ob_raw = the (loaded FRaw),
        ob_ts = the (loaded FTimestamp), ob_seq2 = seq2\<rparr>"

inductive lock_step :: "lock_state \<Rightarrow> lock_state \<Rightarrow> bool" where
  W_begin: "writer st = WIdle \<Longrightarrow>
    lock_step st (st\<lparr>mem := bump_seq (mem st), writer := WData x UNIV, ticks := Suc (ticks st)\<rparr>)"
| W_store: "writer st = WData x pend \<Longrightarrow> f \<in> pend \<Longrightarrow>
    lock_step st (st\<lparr>mem := store_field f (sample_field f x) (mem st), writer := WData x (pend - {f})\<rparr>)"
| W_end: "writer st = WData x {} \<Longrightarrow>
    lock_step st (st\<lparr>mem := bump_seq (mem st), writer := WDirty, ticks := Suc (ticks st),
                     committed := x # committed st\<rparr>)"
| W_dirty: "writer st = WDirty \<Longrightarrow>
    lock_step st (st\<lparr>mem := (mem st)\<lparr>dirty := 1\<rparr>, writer := WIdle\<rparr>)"
| R_busy: "reader st = RIdle \<Longrightarrow> seq (mem st) AND 1 \<noteq> 0 \<Longrightarrow>
    lock_step st (st\<lparr>reader := RDone (ticks st) (hd (committed st)) (ticks st) None\<rparr>)"
| R_begin: "reader st = RIdle \<Longrightarrow> seq (mem st) AND 1 = 0 \<Longrightarrow>
    lock_step st (st\<lparr>reader := RData (ticks st) (hd (committed st)) (seq (mem st)) (\<lambda>_. None)\<rparr>)"
| R_load: "reader st = RData n c s1 loaded \<Longrightarrow> loaded f = None \<Longrightarrow>
    lock_step st (st\<lparr>reader := RData n c s1 (loaded(f \<mapsto> load_field f (mem st)))\<rparr>)"
| R_end: "reader st = RData n c s1 loaded \<Longrightarrow> (\<forall>f. loaded f \<noteq> None) \<Longrightarrow>
    lock_step st (st\<lparr>reader := RDone n c (ticks st) (reader_result s1 loaded (seq (mem st)))\<rparr>)"
| D_clear: "lock_step st (st\<lparr>mem := clear_dirty (mem st)\<rparr>)"

inductive lock_reachable :: "point_slot \<Rightarrow> lock_state \<Rightarrow> bool" for s0 where
  init: "lock_reachable s0 (lock_init s0)"
| step: "lock_reachable s0 st \<Longrightarrow> lock_step st st' \<Longrightarrow> lock_reachable s0 st'"

inductive_cases lock_stepE: "lock_step st st'"

section \<open>Sequential behaviour\<close>

lemma slot_set_fields [simp]:
  "value_bits (slot_set s v raw ts) = v"
  "raw_bits (slot_set s v raw ts) = raw"
  "timestamp (slot_set s v raw ts) = ts"
  "seq (slot_set s v raw ts) = seq s + 2"
  "dirty (slot_set s v raw ts) = 1"
  by (simp_all add: slot_set_def)

lemma slot_sample_set [simp]: "slot_sample (slot_set s v raw ts) = (v, raw, ts)"
  by (simp add: slot_sample_def)

lemma new_is_unwritten: "is_unwritten slot_new"
  by (simp add: is_unwritten_def slot_new_def SLOT_UNWRITTEN_BITS_def f64_class_defs drop_bit_eq_div take_bit_eq_mod)

lemma init_is_unwritten: "is_unwritten (init_unwritten s)"
  using new_is_unwritten by (simp add: is_unwritten_def slot_new_def init_unwritten_def)

lemma set_finite_not_unwritten: "f64_is_finite v \<Longrightarrow> \<not> is_unwritten (slot_set s v raw ts)"
  using nan_not_finite by (auto simp: is_unwritten_def)

lemma and_one_iff: "(w :: u32) AND 1 = 0 \<longleftrightarrow> even w"
  by (simp add: and_one_eq even_iff_mod_2_eq_zero)

lemma try_load_quiescent: "even (seq s) \<Longrightarrow> try_load_consistent (observe s) = Some (slot_sample s)"
  by (simp add: try_load_consistent_def observe_def and_one_iff slot_sample_def)

lemma try_load_odd: "odd (ob_seq1 ob) \<Longrightarrow> try_load_consistent ob = None"
  by (simp add: try_load_consistent_def and_one_iff)

text \<open>The retry loop returns the result of the first attempt that succeeds.\<close>

lemma load_attempts_None_iff:
  "load_attempts n obs = None \<longleftrightarrow> (\<forall>i < n. try_load_consistent (obs i) = None)"
  by (induction n arbitrary: obs) (auto simp: less_Suc_eq_0_disj split: option.splits)

lemma load_attempts_Some_iff:
  "load_attempts n obs = Some r \<longleftrightarrow>
     (\<exists>i < n. try_load_consistent (obs i) = Some r \<and> (\<forall>j < i. try_load_consistent (obs j) = None))"
proof (induction n arbitrary: obs)
  case 0
  then show ?case by simp
next
  case (Suc n)
  show ?case
    by (cases "try_load_consistent (obs 0)")
      (auto simp: Suc.IH Ex_less_Suc2 All_less_Suc2)
qed

section \<open>Invariant of the protocol\<close>

lemma of_nat_word_window:
  assumes "b \<le> a" "a < b + 2 ^ 32" "(of_nat a :: u32) = of_nat b"
  shows "a = b"
proof -
  have "a mod 2 ^ 32 = b mod 2 ^ 32"
    using assms(3) by (simp add: word_of_nat_eq_iff take_bit_eq_mod)
  then have "2 ^ 32 dvd a - b"
    using assms(1) by (simp only: mod_eq_dvd_iff_nat)
  then have "2 ^ 32 \<le> a - b \<or> a - b = 0"
    using dvd_imp_le by blast
  with assms(1,2) show ?thesis by linarith
qed

lemma load_store_field [simp]:
  "load_field g (store_field f v s) = (if g = f then v else load_field g s)"
  by (cases f; cases g) simp_all

lemma load_field_unchanged [simp]:
  "load_field f (bump_seq s) = load_field f s"
  "load_field f (clear_dirty s) = load_field f s"
  "load_field f (s\<lparr>dirty := d\<rparr>) = load_field f s"
  by (cases f; simp add: bump_seq_def clear_dirty_def)+

lemma seq_unchanged [simp]:
  "seq (store_field f v s) = seq s"
  "seq (clear_dirty s) = seq s"
  "seq (bump_seq s) = seq s + 1"
  by (cases f; simp add: bump_seq_def clear_dirty_def)+

lemma sample_eq_fields: "x = y \<longleftrightarrow> (\<forall>f. sample_field f x = sample_field f y)"
proof
  assume a: "\<forall>f. sample_field f x = sample_field f y"
  show "x = y"
    using a [rule_format, of FValue] a [rule_format, of FRaw] a [rule_format, of FTimestamp]
    by (cases x; cases y) simp
qed simp

lemma sample_field_slot [simp]: "sample_field f (slot_sample s) = load_field f s"
  by (cases f) (simp_all add: slot_sample_def)

text \<open>Parity of \<open>seq\<close> tells whether a write is open; when none is, the data is the last sample.\<close>

fun writer_ok :: "lock_state \<Rightarrow> bool" where
  "writer_ok st =
     (case writer st of
        WData x pend \<Rightarrow> odd (ticks st) \<and> (\<forall>f. f \<notin> pend \<longrightarrow> load_field f (mem st) = sample_field f x)
      | _ \<Rightarrow> even (ticks st) \<and> (\<forall>f. load_field f (mem st) = sample_field f (hd (committed st))))"

text \<open>What a finished read promises: inside the window of the counter, a value is the sample.\<close>

definition read_ok :: "nat \<Rightarrow> sample \<Rightarrow> nat \<Rightarrow> sample option \<Rightarrow> bool" where
  "read_ok n c m res \<longleftrightarrow> (m < n + 2 ^ 32 \<longrightarrow> (\<forall>x. res = Some x \<longrightarrow> m = n \<and> x = c))"

text \<open>As long as the reader's window saw no increment, memory and loaded words are the sample.\<close>

fun reader_ok :: "lock_state \<Rightarrow> bool" where
  "reader_ok st =
     (case reader st of
        RIdle \<Rightarrow> True
      | RData n c s1 loaded \<Rightarrow>
          s1 = of_nat n \<and> n \<le> ticks st \<and> even n \<and> c \<in> set (committed st) \<and>
          (ticks st = n \<longrightarrow> c = hd (committed st)) \<and>
          (\<forall>f v. loaded f = Some v \<longrightarrow> ticks st = n \<longrightarrow> v = sample_field f c)
      | RDone n c m res \<Rightarrow>
          n \<le> m \<and> c \<in> set (committed st) \<and> read_ok n c m res)"

definition lock_inv :: "lock_state \<Rightarrow> bool" where
  "lock_inv st \<longleftrightarrow>
     seq (mem st) = of_nat (ticks st) \<and> committed st \<noteq> [] \<and> writer_ok st \<and> reader_ok st"

lemma even_unat: "even (unat (w :: u32)) \<longleftrightarrow> even w"
  using bit_unsigned_iff [of w 0, where 'a = nat] by (simp add: bit_0)

lemma lock_inv_init: "even (seq s) \<Longrightarrow> lock_inv (lock_init s)"
  by (simp add: lock_inv_def lock_init_def even_unat)

text \<open>A reader that ends inside the window returns the sample it began with, or nothing.\<close>

lemma reader_result_window:
  assumes "\<forall>f. loaded f \<noteq> None" "even n" "n \<le> m"
    and "\<forall>f v. loaded f = Some v \<longrightarrow> m = n \<longrightarrow> v = sample_field f c"
  shows "read_ok n c m (reader_result (of_nat n) loaded (of_nat m))"
  unfolding read_ok_def
proof (intro impI allI)
  fix x
  assume win: "m < n + 2 ^ 32" and res: "reader_result (of_nat n) loaded (of_nat m) = Some x"
  have "(of_nat m :: u32) = of_nat n"
    using res by (auto simp: reader_result_def try_load_consistent_def split: if_splits)
  then have mn: "m = n"
    using of_nat_word_window assms(3) win by blast
  have "the (loaded f) = sample_field f c" for f
    using assms(1,4) mn by (metis option.exhaust_sel)
  then show "m = n \<and> x = c"
    using mn assms(2) res by (cases c) (simp add: reader_result_def try_load_consistent_def and_one_iff)
qed

lemma lock_inv_step:
  assumes "lock_step st st'" "lock_inv st"
  shows "lock_inv st'"
  using assms
proof cases
  case (W_begin x)
  with assms(2) show ?thesis
    by (auto simp: lock_inv_def split: reader_pc.splits)
next
  case (W_store x pend f)
  with assms(2) show ?thesis
    by (auto simp: lock_inv_def split: reader_pc.splits)
next
  case (W_end x)
  with assms(2) show ?thesis
    by (auto simp: lock_inv_def split: reader_pc.splits)
next
  case W_dirty
  with assms(2) show ?thesis
    by (auto simp: lock_inv_def split: reader_pc.splits)
next
  case D_clear
  with assms(2) show ?thesis
    by (auto simp: lock_inv_def split: reader_pc.splits writer_pc.splits)
next
  case R_busy
  with assms(2) show ?thesis
    by (auto simp: lock_inv_def read_ok_def split: writer_pc.splits)
next
  case R_begin
  with assms(2) show ?thesis
    by (auto simp: lock_inv_def and_one_iff split: writer_pc.splits)
next
  case (R_load n c s1 loaded f)
  with assms(2) show ?thesis
    by (auto simp: lock_inv_def split: writer_pc.splits if_splits)
next
  case (R_end n c s1 loaded)
  from R_end(2) assms(2) have r: "s1 = of_nat n" "n \<le> ticks st" "even n" "c \<in> set (committed st)"
    "\<forall>f v. loaded f = Some v \<longrightarrow> ticks st = n \<longrightarrow> v = sample_field f c"
    by (auto simp: lock_inv_def)
  have "read_ok n c (ticks st) (reader_result s1 loaded (of_nat (ticks st)))"
    using reader_result_window [OF R_end(3) r(3,2,5)] r(1) by simp
  with R_end assms(2) r show ?thesis
    by (simp add: lock_inv_def cong: writer_pc.case_cong)
qed

lemma lock_inv_reachable: "lock_reachable s0 st \<Longrightarrow> even (seq s0) \<Longrightarrow> lock_inv st"
  by (induction rule: lock_reachable.induct) (auto intro: lock_inv_init lock_inv_step)

lemma lock_run_step: "lock_step a b \<Longrightarrow> lock_step\<^sup>*\<^sup>* b c \<Longrightarrow> lock_step\<^sup>*\<^sup>* a c"
  by (rule converse_rtranclp_into_rtranclp)

lemma lock_run_last: "lock_step a b \<Longrightarrow> lock_step\<^sup>*\<^sup>* a b"
  by (rule r_into_rtranclp)

text \<open>The function \<^const>\<open>slot_set\<close> is a run of the writer: begin, three stores, end, dirty.\<close>

lemma slot_set_run:
  assumes "writer st = WIdle"
  shows "lock_step\<^sup>*\<^sup>* st (st\<lparr>mem := slot_set (mem st) v raw ts, ticks := ticks st + 2,
                              committed := (v, raw, ts) # committed st\<rparr>)"
proof -
  let ?x = "(v, raw, ts)"
  define s1 where "s1 = st\<lparr>mem := bump_seq (mem st), writer := WData ?x UNIV, ticks := Suc (ticks st)\<rparr>"
  define s2 where "s2 = s1\<lparr>mem := store_field FValue (sample_field FValue ?x) (mem s1), writer := WData ?x (UNIV - {FValue})\<rparr>"
  define s3 where "s3 = s2\<lparr>mem := store_field FRaw (sample_field FRaw ?x) (mem s2), writer := WData ?x (UNIV - {FValue} - {FRaw})\<rparr>"
  define s4 where "s4 = s3\<lparr>mem := store_field FTimestamp (sample_field FTimestamp ?x) (mem s3), writer := WData ?x (UNIV - {FValue} - {FRaw} - {FTimestamp})\<rparr>"
  have none: "UNIV - {FValue} - {FRaw} - {FTimestamp} = {}"
    using field.exhaust by blast
  define s5 where "s5 = s4\<lparr>mem := bump_seq (mem s4), writer := WDirty, ticks := Suc (ticks s4), committed := ?x # committed s4\<rparr>"
  define s6 where "s6 = s5\<lparr>mem := (mem s5)\<lparr>dirty := 1\<rparr>, writer := WIdle\<rparr>"
  have w1: "lock_step st s1"
    unfolding s1_def by (rule lock_step.W_begin) (rule assms)
  have w2: "lock_step s1 s2"
    unfolding s2_def by (rule lock_step.W_store) (simp_all add: s1_def)
  have w3: "lock_step s2 s3"
    unfolding s3_def by (rule lock_step.W_store) (simp_all add: s2_def)
  have w4: "lock_step s3 s4"
    unfolding s4_def by (rule lock_step.W_store) (simp_all add: s3_def)
  have w5: "lock_step s4 s5"
    unfolding s5_def by (rule lock_step.W_end) (simp add: s4_def none)
  have w6: "lock_step s5 s6"
    unfolding s6_def by (rule lock_step.W_dirty) (simp add: s5_def)
  have "lock_step\<^sup>*\<^sup>* st s6"
    by (rule lock_run_step [OF w1]
             lock_run_step [OF w2]
             lock_run_step [OF w3]
             lock_run_step [OF w4]
             lock_run_step [OF w5]
             lock_run_last [OF w6])+
  moreover have "s6 = st\<lparr>mem := slot_set (mem st) v raw ts, ticks := ticks st + 2, committed := ?x # committed st\<rparr>"
    using assms by (simp add: s1_def s2_def s3_def s4_def s5_def s6_def bump_seq_def slot_set_def)
  ultimately show ?thesis by simp
qed

lemma lock_reachable_run: "lock_step\<^sup>*\<^sup>* st st' \<Longrightarrow> lock_reachable s0 st \<Longrightarrow> lock_reachable s0 st'"
  by (induction rule: rtranclp_induct) (auto intro: lock_reachable.step)

text \<open>A reader that meets no writer also is a run, and it returns the current sample.\<close>

lemma quiet_read_run:
  assumes "reader st = RIdle" "even (seq (mem st))" "committed st \<noteq> []"
  shows "lock_step\<^sup>*\<^sup>* st (st\<lparr>reader := RDone (ticks st) (hd (committed st)) (ticks st) (Some (slot_sample (mem st)))\<rparr>)"
proof -
  let ?rd = "\<lambda>l. st\<lparr>reader := RData (ticks st) (hd (committed st)) (seq (mem st)) l\<rparr>"
  let ?v = "load_field FValue (mem st)" and ?r = "load_field FRaw (mem st)" and ?t = "load_field FTimestamp (mem st)"
  let ?l3 = "(\<lambda>_. None)(FValue \<mapsto> ?v, FRaw \<mapsto> ?r, FTimestamp \<mapsto> ?t)"
  have full: "\<forall>f. ?l3 f \<noteq> None"
    by (rule allI, rule field.exhaust) auto
  have 1: "lock_step st (?rd (\<lambda>_. None))"
    using assms by (auto simp: and_one_iff intro!: lock_step.R_begin)
  have load: "lock_step (?rd l) (?rd (l(f \<mapsto> load_field f (mem st))))" if "l f = None" for l f
    using lock_step.R_load [of "?rd l" _ _ _ l f] that by simp
  let ?l0 = "\<lambda>_. None" and ?l1 = "[FValue \<mapsto> ?v]" and ?l2 = "[FValue \<mapsto> ?v, FRaw \<mapsto> ?r]"
  have 2: "lock_step (?rd ?l0) (?rd ?l1)" "lock_step (?rd ?l1) (?rd ?l2)" "lock_step (?rd ?l2) (?rd ?l3)"
    by (rule load; simp)+
  have 3: "lock_step (?rd ?l3) (st\<lparr>reader := RDone (ticks st) (hd (committed st)) (ticks st) (Some (slot_sample (mem st)))\<rparr>)"
    using lock_step.R_end [of "?rd ?l3" _ _ _ ?l3, OF _ full] assms(2)
    by (simp add: reader_result_def try_load_consistent_def and_one_iff slot_sample_def)
  show ?thesis
    by (rule lock_run_step [OF 1]
             lock_run_step [OF 2(1)]
             lock_run_step [OF 2(2)]
             lock_run_step [OF 2(3)]
             lock_run_last [OF 3])+
qed

text \<open>One write followed by one read, as a state of the protocol.\<close>

definition demo_write :: lock_state where
  "demo_write =
     (lock_init slot_new)\<lparr>mem := slot_set slot_new 1 2 3, ticks := 2,
                           committed := [(1, 2, 3), slot_sample slot_new]\<rparr>"

definition demo_read :: lock_state where
  "demo_read = demo_write\<lparr>reader := RDone 2 (1, 2, 3) 2 (Some (1, 2, 3))\<rparr>"

lemma demo_reachable: "lock_reachable slot_new demo_read"
proof -
  have "lock_step\<^sup>*\<^sup>* (lock_init slot_new) demo_write"
    using slot_set_run [of "lock_init slot_new" 1 2 3]
    by (simp add: demo_write_def lock_init_def slot_new_def numeral_2_eq_2)
  moreover have "lock_step\<^sup>*\<^sup>* demo_write demo_read"
    using quiet_read_run [of demo_write]
    by (simp add: demo_write_def demo_read_def lock_init_def slot_new_def)
  ultimately show ?thesis
    using lock_reachable_run lock_reachable.init by (meson rtranclp_trans)
qed

section \<open>Properties\<close>

text \<open>C1. The seqlock never hands out a torn read.  In every interleaving of the writer's and the
  reader's accesses to a slot whose counter starts even, with the data stores and data loads in any
  order between the fences, a read that returns a value, and during which \<open>seq\<close> was incremented
  fewer than \<open>2 ^ 32\<close> times, returns exactly the sample that was the last one completely written
  when the read loaded \<open>seq1\<close>; no write opened during that read.\<close>

theorem seqlock_no_torn_read:
  assumes "lock_reachable s0 st" "even (seq s0)"
    and "reader st = RDone n c m (Some x)" "m < n + 2 ^ 32"
  shows "x = c \<and> m = n \<and> c \<in> set (committed st)"
  using lock_inv_reachable [OF assms(1,2)] assms(3,4) by (simp add: lock_inv_def read_ok_def del: split_paired_All)

theorem seqlock_no_torn_read_witness:
  "lock_reachable slot_new demo_read \<and> (1, 2, 3) \<in> set (committed demo_read)"
  using seqlock_no_torn_read [OF demo_reachable, of 2 "(1, 2, 3)" 2 "(1, 2, 3)"] demo_reachable
  by (simp add: demo_read_def slot_new_def)

text \<open>The bounded retry loop \<open>load_consistent\<close> returns the sample of the first attempt that
  succeeds within its 32768 attempts, whatever the attempts before it observed, and gives up with
  \<open>None\<close> exactly when every one of them fails.\<close>

theorem load_consistent_first_success:
  "(load_consistent obs = None \<longleftrightarrow>
      (\<forall>i < MAX_CONSISTENCY_RETRIES. try_load_consistent (obs i) = None)) \<and>
   (load_consistent obs = Some r \<longleftrightarrow>
      (\<exists>i < MAX_CONSISTENCY_RETRIES. try_load_consistent (obs i) = Some r \<and>
         (\<forall>j < i. try_load_consistent (obs j) = None)))"
  unfolding load_consistent_def by (intro conjI load_attempts_None_iff load_attempts_Some_iff)

theorem load_consistent_first_success_witness:
  "load_consistent (\<lambda>i. observe (if i < 2 then slot_new\<lparr>seq := 1\<rparr> else slot_set slot_new 1 2 3)) =
     Some (1, 2, 3)"
  by (rule load_consistent_first_success [THEN conjunct2, THEN iffD2], rule exI [of _ 2])
    (simp add: MAX_CONSISTENCY_RETRIES_def try_load_consistent_def observe_def and_one_iff slot_new_def)

end
