(* ===== verification/Slot_Writer.thy ===== *)
theory Slot_Writer
  imports Point_Slot
begin

text \<open>
  The shared segment and its slot-level handles: \<open>core/header.rs\<close>, \<open>core/writer.rs\<close>,
  \<open>core/reader.rs\<close> and the contract \<open>core/slot_io.rs\<close> of \<open>libs/voltage-rtdb-shm/src\<close>.  The
  segment is the typed view of the mapping (header, then slots).  The locale \<open>slot_store\<close> is the
  contract of \<open>SlotIoWrite\<close>; the slot writer is its interpretation.
\<close>

section \<open>The segment\<close>

definition UNIFIED_MAGIC :: u64 where
  "UNIFIED_MAGIC = 0x564F4C544147455F"

definition UNIFIED_VERSION :: u32 where
  "UNIFIED_VERSION = 4"

definition DEFAULT_MAX_SLOTS :: u32 where
  "DEFAULT_MAX_SLOTS = 100000"

record unified_header =
  uh_magic :: u64
  uh_version :: u32
  uh_max_slots :: u32
  uh_slot_count :: u32
  uh_last_update_ts :: u64
  uh_writer_heartbeat :: u64
  uh_routing_hash :: u64
  uh_writer_generation :: u64

definition slot_offset :: usize where
  "slot_offset = 64"

definition SLOT_SIZE :: usize where
  "SLOT_SIZE = 32"

definition calculate_file_size :: "u32 \<Rightarrow> usize" where
  "calculate_file_size max_slots = slot_offset + unat max_slots * SLOT_SIZE"

record shm =
  shm_header :: unified_header
  shm_slots :: "point_slot list"

section \<open>SlotWriter\<close>

definition dirty_word_count :: "usize \<Rightarrow> usize" where
  "dirty_word_count slot_count = div_ceil slot_count 64"

definition new_dirty_words :: "usize \<Rightarrow> u64 list" where
  "new_dirty_words slot_count = replicate (dirty_word_count slot_count) 0"

record slot_writer =
  sw_shm :: shm
  sw_max_slots :: u32
  sw_slot_count :: usize
  sw_dirty_words :: "u64 list"

definition sw_from_mmap :: "shm \<Rightarrow> u32 \<Rightarrow> usize \<Rightarrow> slot_writer" where
  "sw_from_mmap mmap max_slots slot_count =
     \<lparr>sw_shm = mmap, sw_max_slots = max_slots, sw_slot_count = slot_count,
      sw_dirty_words = new_dirty_words slot_count\<rparr>"

text \<open>\<open>slot_at\<close> asserts the bound; behind it the mapping covers the slot.\<close>

definition slot_at :: "slot_writer \<Rightarrow> usize \<Rightarrow> point_slot outcome" where
  "slot_at w i = (if i < sw_slot_count w then index (shm_slots (sw_shm w)) i else Panic)"

definition sw_put_slot :: "slot_writer \<Rightarrow> usize \<Rightarrow> point_slot \<Rightarrow> slot_writer" where
  "sw_put_slot w i s = w\<lparr>sw_shm := (sw_shm w)\<lparr>shm_slots := (shm_slots (sw_shm w))[i := s]\<rparr>\<rparr>"

definition sw_heartbeat :: "slot_writer \<Rightarrow> u64 \<Rightarrow> slot_writer" where
  "sw_heartbeat w ts =
     w\<lparr>sw_shm := (sw_shm w)\<lparr>shm_header := (shm_header (sw_shm w))\<lparr>uh_writer_heartbeat := ts\<rparr>\<rparr>\<rparr>"

definition mark_dirty_slot :: "slot_writer \<Rightarrow> usize \<Rightarrow> slot_writer" where
  "mark_dirty_slot w slot =
     (if slot div 64 < length (sw_dirty_words w)
      then w\<lparr>sw_dirty_words := set_word (sw_dirty_words w) slot\<rparr> else w)"

definition sw_set_direct :: "slot_writer \<Rightarrow> usize \<Rightarrow> f64 \<Rightarrow> f64 \<Rightarrow> u64 \<Rightarrow> slot_writer outcome" where
  "sw_set_direct w slot v raw ts =
     (if \<not> slot < sw_slot_count w then Panic
      else bind_outcome (slot_at w slot)
        (\<lambda>s. Ret (sw_heartbeat (mark_dirty_slot (sw_put_slot w slot (slot_set s v raw ts)) slot) ts)))"

text \<open>\<open>w.trailing_zeros()\<close>: the position of the lowest set bit, 64 for zero.\<close>

definition trailing_zeros :: "u64 \<Rightarrow> nat" where
  "trailing_zeros b = (case find (bit b) [0..<64] of Some i \<Rightarrow> i | None \<Rightarrow> 64)"

lemma and_pred_less:
  assumes "(b :: u64) \<noteq> 0"
  shows "unat (b AND (b - 1)) < unat b"
proof -
  have "b AND (b - 1) \<le> b - 1"
    by (simp add: and.commute [of b] word_and_le2)
  then have "unat (b AND (b - 1)) \<le> unat (b - 1)"
    by (simp add: word_le_nat_alt)
  also have "\<dots> < unat b"
    using assms by (simp add: unat_gt_0 unat_sub word_le_nat_alt Suc_le_eq)
  finally show ?thesis .
qed

text \<open>The inner loop of \<open>take_dirty_slots\<close>: bit positions from the lowest up.\<close>

function drain_bits :: "u64 \<Rightarrow> nat list" where
  "drain_bits bits = (if bits = 0 then [] else trailing_zeros bits # drain_bits (bits AND (bits - 1)))"
  by auto
termination
  by (relation "measure unat") (auto intro: and_pred_less)

declare drain_bits.simps [simp del]

fun drain_words :: "usize \<Rightarrow> usize \<Rightarrow> u64 list \<Rightarrow> usize list" where
  "drain_words slot_count word_idx [] = []"
| "drain_words slot_count word_idx (word # words) =
     filter (\<lambda>slot. slot < slot_count) (map (\<lambda>bit_idx. word_idx * 64 + bit_idx) (drain_bits word)) @
     drain_words slot_count (word_idx + 1) words"

definition sw_take_dirty_slots :: "slot_writer \<Rightarrow> usize list \<times> slot_writer" where
  "sw_take_dirty_slots w =
     (drain_words (sw_slot_count w) 0 (sw_dirty_words w),
      w\<lparr>sw_dirty_words := map (\<lambda>_. 0) (sw_dirty_words w)\<rparr>)"

definition sw_generation :: "slot_writer \<Rightarrow> u64" where
  "sw_generation w = uh_writer_generation (shm_header (sw_shm w))"

definition sw_writer_heartbeat :: "slot_writer \<Rightarrow> u64" where
  "sw_writer_heartbeat w = uh_writer_heartbeat (shm_header (sw_shm w))"

definition sw_update_heartbeat :: "slot_writer \<Rightarrow> u64 \<Rightarrow> slot_writer" where
  "sw_update_heartbeat w ts = sw_heartbeat w ts"

record slot_read =
  rs_value :: f64
  rs_raw :: f64
  rs_timestamp_ms :: u64

text \<open>\<open>read_slot\<close> with the words its loads observe; without a racing writer these are the slot's.\<close>

definition read_slot_obs :: "usize \<Rightarrow> usize \<Rightarrow> observation \<Rightarrow> slot_read option" where
  "read_slot_obs slot_count i ob =
     (if i \<ge> slot_count then None
      else (case try_load_consistent ob of
              None \<Rightarrow> None
            | Some (v, raw, ts) \<Rightarrow> Some \<lparr>rs_value = v, rs_raw = raw, rs_timestamp_ms = ts\<rparr>))"

definition sw_read_slot :: "slot_writer \<Rightarrow> usize \<Rightarrow> slot_read option" where
  "sw_read_slot w i = read_slot_obs (sw_slot_count w) i (observe (shm_slots (sw_shm w) ! i))"

definition sw_write_slot :: "slot_writer \<Rightarrow> usize \<Rightarrow> f64 \<Rightarrow> f64 \<Rightarrow> u64 \<Rightarrow> (bool \<times> slot_writer) outcome" where
  "sw_write_slot w i v raw ts =
     (if i \<ge> sw_slot_count w then Ret (False, w)
      else bind_outcome (slot_at w i)
        (\<lambda>s. Ret (True, sw_heartbeat (mark_dirty_slot (sw_put_slot w i (slot_set s v raw ts)) i) ts)))"

section \<open>SlotReader\<close>

record slot_reader =
  sr_shm :: shm
  sr_max_slots :: u32
  sr_slot_count :: usize

definition sr_from_mmap :: "shm \<Rightarrow> u32 \<Rightarrow> usize \<Rightarrow> slot_reader" where
  "sr_from_mmap mmap max_slots slot_count =
     \<lparr>sr_shm = mmap, sr_max_slots = max_slots, sr_slot_count = slot_count\<rparr>"

definition sr_slot_at :: "slot_reader \<Rightarrow> usize \<Rightarrow> point_slot outcome" where
  "sr_slot_at r i = (if i < sr_slot_count r then index (shm_slots (sr_shm r)) i else Panic)"

definition sr_read_slot :: "slot_reader \<Rightarrow> usize \<Rightarrow> slot_read option" where
  "sr_read_slot r i = read_slot_obs (sr_slot_count r) i (observe (shm_slots (sr_shm r) ! i))"

definition sr_writer_heartbeat :: "slot_reader \<Rightarrow> u64" where
  "sr_writer_heartbeat r = uh_writer_heartbeat (shm_header (sr_shm r))"

definition sr_generation :: "slot_reader \<Rightarrow> u64" where
  "sr_generation r = uh_writer_generation (shm_header (sr_shm r))"

text \<open>The wall clock in milliseconds is an argument; \<open>saturating_sub\<close> stops at zero.\<close>

definition is_writer_alive :: "slot_reader \<Rightarrow> u64 \<Rightarrow> u64 \<Rightarrow> bool" where
  "is_writer_alive r now_ms timeout_ms =
     (let last_hb = sr_writer_heartbeat r in
      if last_hb = 0 then False
      else (if last_hb \<le> now_ms then now_ms - last_hb else 0) < timeout_ms)"

section \<open>Draining one word\<close>

lemma trailing_zeros_spec:
  assumes "(b :: u64) \<noteq> 0"
  shows "bit b (trailing_zeros b) \<and> trailing_zeros b < 64 \<and> (\<forall>i < trailing_zeros b. \<not> bit b i)"
proof -
  obtain k where k: "bit b k" using assms by (auto simp: bit_eq_iff)
  then have "k < 64" using bit_imp_le_length [of b k] by simp
  with k have "find (bit b) [0..<64] \<noteq> None"
    by (auto simp: find_None_iff)
  then obtain i where i: "find (bit b) [0..<64] = Some i" by auto
  then have "trailing_zeros b = i" by (simp add: trailing_zeros_def)
  with i show ?thesis by (auto simp: find_Some_iff)
qed

lemma bit_nat_pred:
  assumes "bit (n :: nat) k" "\<forall>i < k. \<not> bit n i"
  shows "bit n i \<and> bit (n - 1) i \<longleftrightarrow> bit n i \<and> i \<noteq> k"
proof -
  have "n mod 2 ^ k = 0"
  proof -
    have "take_bit k n = 0"
      using assms(2) by (auto simp: bit_eq_iff bit_take_bit_iff)
    then show ?thesis by (simp add: take_bit_eq_mod)
  qed
  moreover have "odd (n div 2 ^ k)" using assms(1) by (simp add: bit_iff_odd)
  ultimately obtain m where m: "n = 2 ^ k * (2 * m + 1)"
    by (metis oddE div_mult_mod_eq add_0_right mult.commute)
  have pred: "n - 1 = 2 ^ k * (2 * m) + (2 ^ k - 1)"
    by (simp add: m algebra_simps)
  have "(n - 1) div 2 ^ k = 2 * m"
    unfolding pred by (subst div_mult_self4) simp_all
  then have at: "\<not> bit (n - 1) k" by (simp add: bit_iff_odd)
  have above: "bit (n - 1) i = bit n i" if "k < i"
  proof -
    define d where "d = i - k - 1"
    have d: "i = k + (1 + d)" using that by (simp add: d_def)
    have "x div 2 ^ i = x div 2 ^ k div 2 div 2 ^ d" for x :: nat
      unfolding d power_add div_mult2_eq power_one_right ..
    moreover have "(n - 1) div 2 ^ k div 2 = n div 2 ^ k div 2"
      using \<open>(n - 1) div 2 ^ k = 2 * m\<close> by (simp add: m)
    ultimately show ?thesis by (simp add: bit_iff_odd)
  qed
  show ?thesis
    using at above assms by (cases i k rule: linorder_cases) auto
qed

lemma bit_and_pred:
  assumes "(b :: u64) \<noteq> 0"
  shows "bit (b AND (b - 1)) i \<longleftrightarrow> bit b i \<and> i \<noteq> trailing_zeros b"
proof -
  note tz = trailing_zeros_spec [OF assms]
  have u: "unat (b - 1) = unat b - 1"
    using assms by (simp add: unat_gt_0 unat_sub word_le_nat_alt Suc_le_eq)
  have bu: "bit w j = bit (unat w) j" for w :: u64 and j
    by (auto simp: bit_unsigned_iff dest: bit_imp_le_length)
  have "bit (unat b) (trailing_zeros b)" "\<forall>j < trailing_zeros b. \<not> bit (unat b) j"
    using tz by (simp_all add: bu [symmetric])
  from bit_nat_pred [OF this, of i] show ?thesis
    unfolding bit_and_iff bu [of b] bu [of "b - 1"] u .
qed

lemma drain_bits_spec: "sorted_wrt (<) (drain_bits b) \<and> set (drain_bits b) = {i. bit b i}"
proof (induction b rule: drain_bits.induct)
  case (1 b)
  show ?case
  proof (cases "b = 0")
    case True
    then show ?thesis by (simp add: drain_bits.simps)
  next
    case False
    have eq: "drain_bits b = trailing_zeros b # drain_bits (b AND (b - 1))"
      using False by (subst drain_bits.simps) simp
    have rest: "set (drain_bits (b AND (b - 1))) = {i. bit b i \<and> i \<noteq> trailing_zeros b}"
      using 1 [OF False] bit_and_pred [OF False] by simp
    have "trailing_zeros b < i" if "bit b i" "i \<noteq> trailing_zeros b" for i
      using trailing_zeros_spec [OF False] that by (meson linorder_neqE_nat)
    then show ?thesis
      using 1 [OF False] trailing_zeros_spec [OF False] unfolding eq sorted_wrt.simps list.set rest
      by blast
  qed
qed

lemma mult_64_le: "k * 64 \<le> (s::nat) \<longleftrightarrow> k \<le> s div 64"
  by (simp add: less_eq_div_iff_mult_less_eq)

lemma drain_words_spec:
  "sorted_wrt (<) (drain_words n k ws) \<and>
   set (drain_words n k ws) =
     {s. s < n \<and> k * 64 \<le> s \<and> s div 64 - k < length ws \<and> bit (ws ! (s div 64 - k)) (s mod 64)}"
proof (induction ws arbitrary: k)
  case Nil
  show ?case by simp
next
  case (Cons b ws)
  let ?here = "filter (\<lambda>slot. slot < n) (map (\<lambda>i. k * 64 + i) (drain_bits b))"
  have b64: "i < 64" if "bit b i" for i
    using bit_imp_le_length [OF that] by simp
  have sorted: "sorted_wrt (<) ?here"
    using drain_bits_spec [of b] by (simp add: sorted_wrt_map sorted_wrt_filter)
  have here: "set ?here = {s. s < n \<and> s div 64 = k \<and> bit b (s mod 64)}"
  proof (intro set_eqI iffI)
    fix s assume "s \<in> set ?here"
    then show "s \<in> {s. s < n \<and> s div 64 = k \<and> bit b (s mod 64)}"
      using drain_bits_spec [of b] b64 by auto
  next
    fix s assume "s \<in> {s. s < n \<and> s div 64 = k \<and> bit b (s mod 64)}"
    then show "s \<in> set ?here"
      using drain_bits_spec [of b] by (auto simp: image_iff intro!: exI [of _ "s mod 64"])
  qed
  have later: "(k + 1) * 64 \<le> s" if "s \<in> set (drain_words n (k + 1) ws)" for s
    using Cons [of "k + 1"] that by simp
  have lt: "x < y" if "x \<in> set ?here" "y \<in> set (drain_words n (k + 1) ws)" for x y
    using that(1) later [OF that(2)] unfolding here by auto
  have set_eq: "set (drain_words n k (b # ws)) =
     {s. s < n \<and> k * 64 \<le> s \<and> s div 64 - k < length (b # ws) \<and> bit ((b # ws) ! (s div 64 - k)) (s mod 64)}"
    (is "_ = ?R")
  proof -
    have "s \<in> ?R \<longleftrightarrow> s \<in> set ?here \<or> s \<in> set (drain_words n (k + 1) ws)" for s
    proof -
      consider "s div 64 < k" | "s div 64 = k" | d where "s div 64 = k + 1 + d"
        using less_imp_Suc_add [of k "s div 64"] by fastforce
      then show ?thesis
        unfolding here Cons [of "k + 1", THEN conjunct2] mem_Collect_eq mult_64_le
        by cases auto
    qed
    then show ?thesis by (simp only: drain_words.simps set_append) blast
  qed
  have "sorted_wrt (<) (drain_words n k (b # ws))"
    unfolding drain_words.simps sorted_wrt_append
    using sorted lt Cons [of "k + 1", THEN conjunct1] by blast
  then show ?case using set_eq by (rule conjI)
qed

lemma drain_words_word_set:
  "sorted_wrt (<) (drain_words n 0 ws) \<and> set (drain_words n 0 ws) = word_set ws \<inter> {..<n}"
proof -
  have "s \<in> word_set ws \<inter> {..<n} \<longleftrightarrow>
      s < n \<and> 0 * 64 \<le> s \<and> s div 64 - 0 < length ws \<and> bit (ws ! (s div 64 - 0)) (s mod 64)" for s
    unfolding Int_iff in_word_set test_word_bit lessThan_iff minus_nat.diff_0 mult_0
    by (simp only: le0 simp_thms) blast
  then have "word_set ws \<inter> {..<n} =
      {s. s < n \<and> 0 * 64 \<le> s \<and> s div 64 - 0 < length ws \<and> bit (ws ! (s div 64 - 0)) (s mod 64)}"
    by blast
  then show ?thesis using drain_words_spec [of n 0 ws] by (simp only: simp_thms)
qed

section \<open>The contract of a slot store\<close>

text \<open>A batch of writes \<open>(index, value, raw, timestamp)\<close> and the newest one for an index.\<close>

fun run_writes ::
  "('s \<Rightarrow> 'i \<Rightarrow> f64 \<Rightarrow> f64 \<Rightarrow> u64 \<Rightarrow> (bool \<times> 's) outcome) \<Rightarrow> 's \<Rightarrow> ('i \<times> sample) list \<Rightarrow> 's outcome"
where
  "run_writes wr s [] = Ret s"
| "run_writes wr s ((i, v, raw, ts) # ws) = bind_outcome (wr s i v raw ts) (\<lambda>(ok, s'). run_writes wr s' ws)"

definition newest :: "('i \<times> sample) list \<Rightarrow> 'i \<Rightarrow> sample option" where
  "newest ws i = map_of (List.rev ws) i"

lemma newest_Nil [simp]: "newest [] i = None"
  by (simp add: newest_def)

lemma newest_Cons:
  "newest ((i, x) # ws) j = (case newest ws j of None \<Rightarrow> if j = i then Some x else None | Some y \<Rightarrow> Some y)"
  by (auto simp: newest_def map_add_def split: option.splits)

definition as_read :: "sample \<Rightarrow> slot_read" where
  "as_read x = (case x of (v, raw, ts) \<Rightarrow> \<lparr>rs_value = v, rs_raw = raw, rs_timestamp_ms = ts\<rparr>)"

text \<open>Addressable cells: a write changes its own cell and nothing else, or is refused.\<close>

locale cell_store =
  fixes wr :: "'s \<Rightarrow> 'i \<Rightarrow> f64 \<Rightarrow> f64 \<Rightarrow> u64 \<Rightarrow> (bool \<times> 's) outcome"
    and rd :: "'s \<Rightarrow> 'i \<Rightarrow> slot_read option"
    and cells :: "'s \<Rightarrow> 'i set"
    and invar :: "'s \<Rightarrow> bool"
  assumes write_in: "invar s \<Longrightarrow> i \<in> cells s \<Longrightarrow>
      \<exists>s'. wr s i v raw ts = Ret (True, s') \<and> invar s' \<and> cells s' = cells s \<and>
           rd s' = (rd s)(i \<mapsto> as_read (v, raw, ts))"
    and write_out: "invar s \<Longrightarrow> i \<notin> cells s \<Longrightarrow> wr s i v raw ts = Ret (False, s)"
begin

lemma writes_effect:
  assumes "invar s"
  shows "\<exists>s'. run_writes wr s ws = Ret s' \<and> invar s' \<and> cells s' = cells s \<and>
              (\<forall>i. rd s' i = (if i \<in> cells s then
                 (case newest ws i of None \<Rightarrow> rd s i | Some x \<Rightarrow> Some (as_read x)) else rd s i))"
  using assms
proof (induction ws arbitrary: s)
  case Nil
  then show ?case by (simp add: newest_def)
next
  case (Cons e ws)
  obtain i v raw ts where e: "e = (i, v, raw, ts)" by (cases e)
  show ?case
  proof (cases "i \<in> cells s")
    case True
    then obtain s1 where s1: "wr s i v raw ts = Ret (True, s1)" "invar s1" "cells s1 = cells s"
        "rd s1 = (rd s)(i \<mapsto> as_read (v, raw, ts))"
      using write_in [OF Cons.prems] by blast
    obtain s2 where s2: "run_writes wr s1 ws = Ret s2" "invar s2" "cells s2 = cells s"
        "\<And>j. rd s2 j = (if j \<in> cells s then
           (case newest ws j of None \<Rightarrow> rd s1 j | Some x \<Rightarrow> Some (as_read x)) else rd s1 j)"
      using Cons.IH [OF s1(2)] unfolding s1(3) by blast
    have "rd s2 j = (if j \<in> cells s then
        (case newest (e # ws) j of None \<Rightarrow> rd s j | Some x \<Rightarrow> Some (as_read x)) else rd s j)" for j
      using True by (cases "newest ws j") (auto simp: s2(4) s1(4) e newest_Cons)
    with s1(1) s2(1-3) show ?thesis by (auto simp: e)
  next
    case False
    obtain s2 where s2: "run_writes wr s ws = Ret s2" "invar s2" "cells s2 = cells s"
        "\<And>j. rd s2 j = (if j \<in> cells s then
           (case newest ws j of None \<Rightarrow> rd s j | Some x \<Rightarrow> Some (as_read x)) else rd s j)"
      using Cons.IH [OF Cons.prems] by blast
    have "rd s2 j = (if j \<in> cells s then
        (case newest (e # ws) j of None \<Rightarrow> rd s j | Some x \<Rightarrow> Some (as_read x)) else rd s j)" for j
      using False by (cases "newest ws j") (auto simp: s2(4) e newest_Cons)
    with write_out [OF Cons.prems False] s2(1-3) show ?thesis by (auto simp: e)
  qed
qed

end

text \<open>Slots with change tracking: \<open>SlotIoWrite\<close>.\<close>

locale slot_store = cell_store wr rd cells invar
  for wr :: "'s \<Rightarrow> usize \<Rightarrow> f64 \<Rightarrow> f64 \<Rightarrow> u64 \<Rightarrow> (bool \<times> 's) outcome"
    and rd :: "'s \<Rightarrow> usize \<Rightarrow> slot_read option"
    and cells :: "'s \<Rightarrow> usize set"
    and invar :: "'s \<Rightarrow> bool" +
  fixes drain :: "'s \<Rightarrow> usize list \<times> 's"
    and pending :: "'s \<Rightarrow> usize set"
  assumes write_marks: "invar s \<Longrightarrow> wr s i v raw ts = Ret (True, s') \<Longrightarrow> pending s' = insert i (pending s)"
    and drain_law: "invar s \<Longrightarrow> drain s = (xs, s') \<Longrightarrow>
      invar s' \<and> cells s' = cells s \<and> rd s' = rd s \<and> pending s' = {} \<and>
      sorted_wrt (<) xs \<and> set xs = pending s"
begin

lemma writes_pending:
  assumes "invar s" "run_writes wr s ws = Ret s'"
  shows "pending s' = pending s \<union> (fst ` set ws \<inter> cells s)"
  using assms
proof (induction ws arbitrary: s)
  case Nil
  then show ?case by simp
next
  case (Cons e ws)
  obtain i v raw ts where e: "e = (i, v, raw, ts)" by (cases e)
  show ?case
  proof (cases "i \<in> cells s")
    case True
    then obtain s1 where s1: "wr s i v raw ts = Ret (True, s1)" "invar s1" "cells s1 = cells s"
      using write_in [OF Cons.prems(1)] by blast
    with Cons.IH [OF s1(2)] Cons.prems write_marks [OF Cons.prems(1) s1(1)] True show ?thesis
      by (auto simp: e)
  next
    case False
    with write_out [OF Cons.prems(1) False] Cons.IH [OF Cons.prems(1)] Cons.prems(2) show ?thesis
      by (auto simp: e)
  qed
qed

lemma drain_writes:
  assumes "invar s" "drain s = (old, s0)"
  shows "\<exists>s1 s2 xs. run_writes wr s0 ws = Ret s1 \<and> drain s1 = (xs, s2) \<and>
           sorted_wrt (<) xs \<and> set xs = fst ` set ws \<inter> cells s \<and> fst (drain s2) = [] \<and>
           (\<forall>i \<in> cells s. rd s2 i = (case newest ws i of None \<Rightarrow> rd s i | Some x \<Rightarrow> Some (as_read x)))"
proof -
  have s0: "invar s0" "cells s0 = cells s" "rd s0 = rd s" "pending s0 = {}"
    using drain_law [OF assms] by auto
  obtain s1 where s1: "run_writes wr s0 ws = Ret s1" "invar s1"
      "\<forall>i. rd s1 i = (if i \<in> cells s then
         (case newest ws i of None \<Rightarrow> rd s i | Some x \<Rightarrow> Some (as_read x)) else rd s i)"
    using writes_effect [OF s0(1), of ws] unfolding s0 by blast
  have p1: "pending s1 = fst ` set ws \<inter> cells s"
    using writes_pending [OF s0(1) s1(1)] by (simp add: s0)
  obtain xs s2 where s2: "drain s1 = (xs, s2)" by fastforce
  obtain ys s3 where s3: "drain s2 = (ys, s3)" by fastforce
  note d1 = drain_law [OF s1(2) s2]
  then have "set ys = {}" using drain_law [of s2 ys s3] s3 by simp
  then show ?thesis using s1 s2 s3 d1 p1 by auto
qed

end

section \<open>The slot writer is a slot store\<close>

definition sw_invar :: "slot_writer \<Rightarrow> bool" where
  "sw_invar w \<longleftrightarrow> sw_slot_count w \<le> length (shm_slots (sw_shm w)) \<and>
     length (sw_dirty_words w) = dirty_word_count (sw_slot_count w) \<and>
     list_all (\<lambda>s. even (seq s)) (shm_slots (sw_shm w))"

definition sw_cells :: "slot_writer \<Rightarrow> usize set" where
  "sw_cells w = {..<sw_slot_count w}"

definition sw_pending :: "slot_writer \<Rightarrow> usize set" where
  "sw_pending w = word_set (sw_dirty_words w) \<inter> {..<sw_slot_count w}"

lemma sw_invar_words:
  "sw_invar w \<Longrightarrow> i < sw_slot_count w \<Longrightarrow> i div 64 < length (sw_dirty_words w)"
  by (auto simp: sw_invar_def dirty_word_count_def div_ceil_def)

lemma sw_write_in:
  assumes "sw_invar w" "i < sw_slot_count w"
  shows "\<exists>w'. sw_write_slot w i v raw ts = Ret (True, w') \<and> sw_invar w' \<and>
           sw_slot_count w' = sw_slot_count w \<and>
           sw_read_slot w' = (sw_read_slot w)(i \<mapsto> as_read (v, raw, ts)) \<and>
           sw_pending w' = insert i (sw_pending w)"
proof -
  let ?s = "slot_set (shm_slots (sw_shm w) ! i) v raw ts"
  let ?w = "sw_heartbeat (mark_dirty_slot (sw_put_slot w i ?s) i) ts"
  have len: "i < length (shm_slots (sw_shm w))" using assms by (simp add: sw_invar_def)
  have even: "even (seq (shm_slots (sw_shm w) ! i))"
    using assms(1) len by (auto simp: sw_invar_def list_all_iff)
  have fields: "sw_slot_count ?w = sw_slot_count w" "sw_dirty_words ?w = set_word (sw_dirty_words w) i"
      "shm_slots (sw_shm ?w) = (shm_slots (sw_shm w))[i := ?s]"
    using sw_invar_words [OF assms]
    by (simp_all add: sw_heartbeat_def mark_dirty_slot_def sw_put_slot_def)
  have "sw_invar ?w"
    using assms(1) even by (auto simp: sw_invar_def fields list_all_iff dest!: set_update_subset_insert [THEN subsetD])
  moreover have "sw_read_slot ?w j = ((sw_read_slot w)(i \<mapsto> as_read (v, raw, ts))) j" for j
    using assms(2) len even
    by (cases "j = i") (auto simp: sw_read_slot_def read_slot_obs_def fields try_load_quiescent slot_sample_def as_read_def)
  moreover have "sw_pending ?w = insert i (sw_pending w)"
    using assms(2) sw_invar_words [OF assms] by (auto simp: sw_pending_def fields word_set_simps)
  moreover have "sw_write_slot w i v raw ts = Ret (True, ?w)"
    using assms(2) len by (simp add: sw_write_slot_def slot_at_def index_def)
  ultimately show ?thesis using fields(1) by blast
qed

lemma sw_drain:
  assumes "sw_invar w" "sw_take_dirty_slots w = (xs, w')"
  shows "sw_invar w' \<and> sw_slot_count w' = sw_slot_count w \<and> sw_read_slot w' = sw_read_slot w \<and>
    sw_pending w' = {} \<and> sorted_wrt (<) xs \<and> set xs = sw_pending w"
proof -
  have zero: "map (\<lambda>_. 0) (sw_dirty_words w) = replicate (length (sw_dirty_words w)) (0 :: u64)"
    by (rule map_replicate_const)
  have xs: "xs = drain_words (sw_slot_count w) 0 (sw_dirty_words w)"
    and w': "w' = w\<lparr>sw_dirty_words := replicate (length (sw_dirty_words w)) 0\<rparr>"
    using assms(2) unfolding sw_take_dirty_slots_def zero by (simp_all only: prod.inject)
  have "sw_invar w'" using assms(1) by (simp add: w' sw_invar_def)
  moreover have "sw_read_slot w' = sw_read_slot w" by (rule ext) (simp add: w' sw_read_slot_def)
  moreover have "sw_pending w' = {}" by (simp add: w' sw_pending_def word_set_simps)
  moreover have "sw_slot_count w' = sw_slot_count w" by (simp add: w')
  ultimately show ?thesis
    unfolding xs sw_pending_def [of w] using drain_words_word_set by blast
qed

interpretation sw: slot_store sw_write_slot sw_read_slot sw_cells sw_invar sw_take_dirty_slots sw_pending
proof unfold_locales
  fix w i v raw ts assume "sw_invar w" "i \<in> sw_cells w"
  then show "\<exists>w'. sw_write_slot w i v raw ts = Ret (True, w') \<and> sw_invar w' \<and> sw_cells w' = sw_cells w \<and>
      sw_read_slot w' = (sw_read_slot w)(i \<mapsto> as_read (v, raw, ts))"
    using sw_write_in [of w i v raw ts] by (auto simp: sw_cells_def)
next
  fix w i v raw ts assume "sw_invar w" "i \<notin> sw_cells w"
  then show "sw_write_slot w i v raw ts = Ret (False, w)" by (simp add: sw_write_slot_def sw_cells_def)
next
  fix w i v raw ts w' assume w: "sw_invar w" "sw_write_slot w i v raw ts = Ret (True, w')"
  then have "i < sw_slot_count w" by (auto simp: sw_write_slot_def split: if_splits)
  with w sw_write_in [of w i v raw ts] show "sw_pending w' = insert i (sw_pending w)" by auto
next
  fix w xs w' assume "sw_invar w" "sw_take_dirty_slots w = (xs, w')"
  then show "sw_invar w' \<and> sw_cells w' = sw_cells w \<and> sw_read_slot w' = sw_read_slot w \<and> sw_pending w' = {} \<and>
      sorted_wrt (<) xs \<and> set xs = sw_pending w"
    using sw_drain [of w xs w'] by (simp add: sw_cells_def)
qed

lemma sw_from_mmap_invar:
  "slot_count \<le> length (shm_slots m) \<Longrightarrow> list_all (\<lambda>s. even (seq s)) (shm_slots m) \<Longrightarrow>
   sw_invar (sw_from_mmap m max_slots slot_count)"
  by (simp add: sw_invar_def sw_from_mmap_def new_dirty_words_def)

lemma sw_set_direct_write:
  "sw_set_direct w i v raw ts =
     (if i < sw_slot_count w then bind_outcome (sw_write_slot w i v raw ts) (\<lambda>(ok, w'). Ret w') else Panic)"
  by (cases "slot_at w i") (simp_all add: sw_set_direct_def sw_write_slot_def)

section \<open>Properties\<close>

text \<open>C7. Whatever was pending before, after a drain and any batch of slot writes (some of them out of
  range), the next drain returns exactly the in-range slots written in between, in increasing order
  and without duplicates, the drain after that is empty, and every slot in range reads back the
  newest sample written to it, or its old one.\<close>
theorem drain_reports_exactly_the_writes:
  assumes "sw_invar w" "sw_take_dirty_slots w = (old, w0)"
  shows "\<exists>w1 w2 xs. run_writes sw_write_slot w0 ws = Ret w1 \<and> sw_take_dirty_slots w1 = (xs, w2) \<and>
           sorted_wrt (<) xs \<and> set xs = fst ` set ws \<inter> {..<sw_slot_count w} \<and>
           fst (sw_take_dirty_slots w2) = [] \<and>
           (\<forall>i < sw_slot_count w. sw_read_slot w2 i =
              (case newest ws i of None \<Rightarrow> sw_read_slot w i | Some x \<Rightarrow> Some (as_read x)))"
  using sw.drain_writes [OF assms, of ws] unfolding sw_cells_def lessThan_iff Ball_def by simp

definition demo_header :: unified_header where
  "demo_header = \<lparr>uh_magic = UNIFIED_MAGIC, uh_version = UNIFIED_VERSION, uh_max_slots = 70,
     uh_slot_count = 70, uh_last_update_ts = 0, uh_writer_heartbeat = 0, uh_routing_hash = 0,
     uh_writer_generation = 2\<rparr>"

definition demo_writer :: slot_writer where
  "demo_writer = sw_from_mmap \<lparr>shm_header = demo_header, shm_slots = replicate 70 slot_new\<rparr> 70 70"

lemma demo_writer_ok: "sw_invar demo_writer"
  unfolding demo_writer_def
  by (rule sw_from_mmap_invar) (simp_all add: list_all_iff slot_new_def)

theorem drain_reports_exactly_the_writes_witness:
  "sw_invar demo_writer \<and>
   (\<exists>w0. sw_take_dirty_slots demo_writer = ([], w0) \<and>
     (\<exists>w1 w2 xs. run_writes sw_write_slot w0 [(69, 1, 1, 5), (3, 2, 2, 6), (70, 9, 9, 7), (69, 4, 4, 8)] = Ret w1 \<and>
        sw_take_dirty_slots w1 = (xs, w2) \<and> sorted_wrt (<) xs \<and> set xs = {3, 69} \<and>
        sw_read_slot w2 69 = Some (as_read (4, 4, 8))))"
proof -
  let ?ws = "[(69, 1, 1, 5), (3, 2, 2, 6), (70, 9, 9, 7), (69, 4, 4, 8)] :: (usize \<times> sample) list"
  obtain old w0 where d: "sw_take_dirty_slots demo_writer = (old, w0)" by fastforce
  have "set old = {}"
    using sw_drain [OF demo_writer_ok d]
    by (simp add: sw_pending_def demo_writer_def sw_from_mmap_def new_dirty_words_def word_set_simps)
  moreover have "sw_slot_count demo_writer = 70" by (simp add: demo_writer_def sw_from_mmap_def)
  moreover have "newest ?ws 69 = Some (4, 4, 8)" by (simp add: newest_def)
  ultimately show ?thesis
    using drain_reports_exactly_the_writes [OF demo_writer_ok d, of ?ws] d demo_writer_ok by auto
qed

end
