(* ===== verification/Layout.thy ===== *)
theory Layout
  imports Core_Types
begin

text \<open>
  The static slot layout, \<open>libs/voltage-rtdb-shm/src/layout.rs\<close> and
  \<open>libs/voltage-rtdb-shm/src/channel_points.rs\<close>: writer and readers derive, each for itself, the
  slot of every \<open>(channel, point type, point id)\<close> from the per-channel point counts.  The theorems
  say that the derivation never panics, that distinct points get distinct slots, and that the
  padding separates the slots of different writers by cache lines.
\<close>

section \<open>Channel point counts\<close>

text \<open>\<open>[T, S, C, A]\<close> counts of one channel: a list of length four.\<close>

type_synonym counts4 = "u32 list"

type_synonym channel_point_counts = "(u32, counts4) btree_map"

definition counts_new :: channel_point_counts where
  "counts_new = []"

text \<open>
  \<open>load_from_db\<close>: the rows of the four queries (channel id, highest point id plus one, as the
  64-bit integers the database returns) are arguments, in the order of the table list.
\<close>

definition counts_row :: "nat \<Rightarrow> i64 \<times> i64 \<Rightarrow> channel_point_counts \<Rightarrow> channel_point_counts" where
  "counts_row type_idx row m =
     (let channel_id = ucast (fst row) :: u32;
          entry = (case map_of m channel_id of Some e \<Rightarrow> e | None \<Rightarrow> [0, 0, 0, 0])
      in bt_insert channel_id (entry[type_idx := ucast (snd row)]) m)"

definition load_from_rows :: "(i64 \<times> i64) list \<Rightarrow> (i64 \<times> i64) list \<Rightarrow> (i64 \<times> i64) list \<Rightarrow>
    (i64 \<times> i64) list \<Rightarrow> channel_point_counts" where
  "load_from_rows telemetry_rows signal_rows control_rows adjustment_rows =
     fold (counts_row 3) adjustment_rows
       (fold (counts_row 2) control_rows
         (fold (counts_row 1) signal_rows
           (fold (counts_row 0) telemetry_rows [])))"

text \<open>
  \<open>layout_hash\<close> feeds a hasher of the \<open>rustc_hash\<close> package: its state operations are arguments.
  Hashing a \<open>u32\<close> writes it; hashing a \<open>[u32; 4]\<close> writes the length and then the bytes.
\<close>

definition layout_hash :: "'h \<Rightarrow> (u32 \<Rightarrow> 'h \<Rightarrow> 'h) \<Rightarrow> (usize \<Rightarrow> 'h \<Rightarrow> 'h) \<Rightarrow> (u8 list \<Rightarrow> 'h \<Rightarrow> 'h) \<Rightarrow>
    ('h \<Rightarrow> u64) \<Rightarrow> channel_point_counts \<Rightarrow> u64" where
  "layout_hash hasher write_u32 write_usize write finish m =
     finish (fold (\<lambda>(channel_id, counts) h.
       write (concat (map (to_le 4) counts)) (write_usize (length counts) (write_u32 channel_id h)))
       m hasher)"

section \<open>Layouts\<close>

record channel_layout =
  cl_base_slot :: usize
  cl_type_offsets :: "usize list"
  cl_type_counts :: counts4
  cl_total_points :: u32

definition layout_default :: channel_layout where
  "layout_default =
     \<lparr>cl_base_slot = 0, cl_type_offsets = [0, 0, 0, 0], cl_type_counts = [0, 0, 0, 0],
      cl_total_points = 0\<rparr>"

definition layout_slot :: "channel_layout \<Rightarrow> u8 \<Rightarrow> u32 \<Rightarrow> usize option" where
  "layout_slot l point_type point_id =
     (let type_idx = unat point_type in
      if type_idx \<ge> 4 \<or> point_id \<ge> cl_type_counts l ! type_idx then None
      else Some (cl_base_slot l + cl_type_offsets l ! type_idx + unat point_id))"

definition layout_is_valid :: "channel_layout \<Rightarrow> bool" where
  "layout_is_valid l \<longleftrightarrow> cl_total_points l > 0"

text \<open>\<open>(slot + 1) & !1\<close>: the lowest bit of the sum cleared.\<close>

definition align_to_cache_line :: "usize \<Rightarrow> usize" where
  "align_to_cache_line slot = (slot + 1) div 2 * 2"

text \<open>The loop over the four types of one channel: the offsets it stores, and \<open>next_slot\<close>.\<close>

fun allocate_types :: "bool \<Rightarrow> usize \<Rightarrow> nat \<Rightarrow> u32 list \<Rightarrow> usize \<Rightarrow> usize list \<times> usize" where
  "allocate_types has_action_slots base type_idx [] next_slot = ([], next_slot)"
| "allocate_types has_action_slots base type_idx (cnt # counts) next_slot =
     (let next_slot =
            (if type_idx = 2 \<and> has_action_slots then align_to_cache_line next_slot else next_slot);
          (offsets, end_slot) =
            allocate_types has_action_slots base (type_idx + 1) counts (next_slot + unat cnt)
      in (usize_sub next_slot base # offsets, end_slot))"

definition allocate_channel :: "counts4 \<Rightarrow> usize \<Rightarrow> channel_layout \<times> usize" where
  "allocate_channel counts next_slot =
     (let base = align_to_cache_line next_slot;
          has_action_slots = counts ! 2 + counts ! 3 > 0;
          (offsets, end_slot) = allocate_types has_action_slots base 0 counts base
      in (\<lparr>cl_base_slot = base, cl_type_offsets = offsets, cl_type_counts = counts,
           cl_total_points = sum_list counts\<rparr>, end_slot))"

fun allocate_loop :: "channel_point_counts \<Rightarrow> channel_layout list \<Rightarrow> usize \<Rightarrow>
    (channel_layout list \<times> usize) outcome" where
  "allocate_loop [] layouts next_slot = Ret (layouts, next_slot)"
| "allocate_loop ((channel_id, counts) # rest) layouts next_slot =
     (if unat channel_id < length layouts then
        (let (layout, end_slot) = allocate_channel counts next_slot
         in allocate_loop rest (layouts[unat channel_id := layout]) end_slot)
      else Panic)"

definition max_channel_id :: "channel_point_counts \<Rightarrow> u32" where
  "max_channel_id m = fold max (map fst m) 0"

definition allocate_layouts :: "channel_point_counts \<Rightarrow> (channel_layout list \<times> usize) outcome" where
  "allocate_layouts m =
     (let vec_size = unat (max_channel_id m + 1)
      in allocate_loop m (replicate vec_size layout_default) 0)"

text \<open>How the clients address a point: \<open>layouts.get(channel_id)\<close>, then \<open>slot\<close>.\<close>

definition chan_slot :: "channel_layout list \<Rightarrow> u32 \<Rightarrow> u8 \<Rightarrow> u32 \<Rightarrow> usize option" where
  "chan_slot layouts channel_id point_type point_id =
     (case get layouts (unat channel_id) of
        None \<Rightarrow> None
      | Some l \<Rightarrow> layout_slot l point_type point_id)"

section \<open>One channel\<close>

text \<open>The point counts of one channel are four, and its action points can be counted in 32 bits.\<close>

definition counts_ok :: "counts4 \<Rightarrow> bool" where
  "counts_ok cs \<longleftrightarrow> length cs = 4 \<and> unat (cs ! 2) + unat (cs ! 3) < 2 ^ 32"

definition line :: "usize \<Rightarrow> usize" where
  "line slot = slot div 2"

lemma align_props:
  "n \<le> align_to_cache_line n" "align_to_cache_line n \<le> n + 1" "even (align_to_cache_line n)"
  unfolding align_to_cache_line_def by presburger+

lemma line_before_even: "s < b \<Longrightarrow> even b \<Longrightarrow> b \<le> s' \<Longrightarrow> line s < line s'"
  unfolding line_def by presburger

text \<open>Where the four regions of a channel begin and end.\<close>

definition action_start :: "usize \<Rightarrow> counts4 \<Rightarrow> usize" where
  "action_start base cs =
     (let m = base + unat (cs ! 0) + unat (cs ! 1)
      in if cs ! 2 + cs ! 3 > 0 then align_to_cache_line m else m)"

lemma length_4: "length xs = 4 \<Longrightarrow> \<exists>a b c d. xs = [a, b, c, d]"
  by (auto simp: numeral_eq_Suc length_Suc_conv)

lemma allocate_channel_eq:
  fixes n :: usize
  assumes "counts_ok cs"
  defines "base \<equiv> align_to_cache_line n"
  shows "allocate_channel cs n =
    (\<lparr>cl_base_slot = base,
      cl_type_offsets =
        [0, unat (cs ! 0), action_start base cs - base, action_start base cs + unat (cs ! 2) - base],
      cl_type_counts = cs, cl_total_points = sum_list cs\<rparr>,
     action_start base cs + unat (cs ! 2) + unat (cs ! 3))"
proof -
  obtain t s c a where cs: "cs = [t, s, c, a]"
    using length_4 [of cs] assms(1) by (auto simp: counts_ok_def)
  have le: "base + unat t + unat s \<le> align_to_cache_line (base + unat t + unat s)"
    by (rule align_props)
  show ?thesis
    using le unfolding allocate_channel_def base_def [symmetric] action_start_def Let_def cs
    by (cases "c + a > 0") (simp_all add: Let_def)
qed

text \<open>Start of the region of a point type.\<close>

definition region :: "usize \<Rightarrow> counts4 \<Rightarrow> nat \<Rightarrow> usize" where
  "region base cs k =
     (if k = 0 then base else if k = 1 then base + unat (cs ! 0)
      else if k = 2 then action_start base cs else action_start base cs + unat (cs ! 2))"

lemma action_start_ge: "base + unat (cs ! 0) + unat (cs ! 1) \<le> action_start base cs"
  using align_props(1) by (simp add: action_start_def Let_def)

lemma action_start_even:
  assumes "counts_ok cs" "pid < cs ! 2 \<or> pid < cs ! 3"
  shows "even (action_start base cs)"
proof -
  have "unat (cs ! 2) > 0 \<or> unat (cs ! 3) > 0"
    using assms(2) by (auto simp: word_less_nat_alt)
  moreover have "unat (cs ! 2 + cs ! 3) = unat (cs ! 2) + unat (cs ! 3)"
    using assms(1) by (simp add: counts_ok_def unat_word_ariths)
  ultimately have "cs ! 2 + cs ! 3 > 0"
    by (simp add: word_less_nat_alt)
  then show ?thesis
    using align_props(3) by (simp add: action_start_def Let_def)
qed

lemma nat_less_4_cases: "(k::nat) < 4 \<Longrightarrow> k = 0 \<or> k = 1 \<or> k = 2 \<or> k = 3"
  by auto

lemma layout_slot_channel:
  assumes "counts_ok cs"
  shows "layout_slot (fst (allocate_channel cs n)) ty pid =
    (if unat ty < 4 \<and> pid < cs ! unat ty
     then Some (region (align_to_cache_line n) cs (unat ty) + unat pid) else None)"
proof -
  define k where "k = unat ty"
  let ?l = "fst (allocate_channel cs n)"
  have l: "layout_slot ?l ty pid =
      (if k \<ge> 4 \<or> pid \<ge> cl_type_counts ?l ! k then None
       else Some (cl_base_slot ?l + cl_type_offsets ?l ! k + unat pid))"
    by (simp only: layout_slot_def k_def Let_def)
  have r: "cl_base_slot ?l + cl_type_offsets ?l ! k = region (align_to_cache_line n) cs k" if "k < 4"
    using nat_less_4_cases [OF that] action_start_ge [of "align_to_cache_line n" cs]
    by (auto simp: allocate_channel_eq [OF assms] region_def)
  have "cl_type_counts ?l = cs"
    by (simp add: allocate_channel_eq [OF assms])
  then show ?thesis
    unfolding k_def [symmetric] l using r by (auto simp: not_le)
qed

lemma channel_slot_bounds:
  assumes "counts_ok cs" "layout_slot (fst (allocate_channel cs n)) ty pid = Some s"
  defines "base \<equiv> align_to_cache_line n"
  shows "unat ty < 4" "base \<le> s" "s < snd (allocate_channel cs n)"
    and "unat ty < 2 \<Longrightarrow> s < action_start base cs"
    and "2 \<le> unat ty \<Longrightarrow> action_start base cs \<le> s \<and> even (action_start base cs)"
proof -
  from assms(2) have k: "unat ty < 4" "pid < cs ! unat ty" and s: "s = region base cs (unat ty) + unat pid"
    by (auto simp: layout_slot_channel [OF assms(1)] base_def split: if_splits)
  have p: "unat pid < unat (cs ! unat ty)"
    using k(2) by (simp add: word_less_nat_alt)
  note ge = action_start_ge [of base cs]
  show "unat ty < 4" by (rule k)
  show "base \<le> s" "s < snd (allocate_channel cs n)"
    and "unat ty < 2 \<Longrightarrow> s < action_start base cs"
    using nat_less_4_cases [OF k(1)] p ge s
    by (auto simp: allocate_channel_eq [OF assms(1)] region_def base_def [symmetric])
  show "2 \<le> unat ty \<Longrightarrow> action_start base cs \<le> s \<and> even (action_start base cs)"
    using nat_less_4_cases [OF k(1)] p ge s k(2) action_start_even [OF assms(1), of pid base]
    by (auto simp: region_def)
qed

lemma channel_slot_inject:
  assumes "counts_ok cs" "layout_slot (fst (allocate_channel cs n)) ty pid = Some s"
    and "layout_slot (fst (allocate_channel cs n)) ty' pid' = Some s"
  shows "ty = ty' \<and> pid = pid'"
proof -
  let ?b = "align_to_cache_line n"
  from assms(2,3) have k: "unat ty < 4" "unat pid < unat (cs ! unat ty)"
      "unat ty' < 4" "unat pid' < unat (cs ! unat ty')"
    and s: "region ?b cs (unat ty) + unat pid = region ?b cs (unat ty') + unat pid'"
    by (auto simp: layout_slot_channel [OF assms(1)] word_less_nat_alt split: if_splits)
  have "unat ty = unat ty'"
    using nat_less_4_cases [OF k(1)] nat_less_4_cases [OF k(3)] k(2,4) s action_start_ge [of ?b cs]
    by (auto simp: region_def)
  with s show ?thesis
    by (simp add: word_unat_eq_iff)
qed

text \<open>Inside a channel, points of different owners are on different cache lines.\<close>

lemma channel_owner_lines:
  assumes "counts_ok cs" "layout_slot (fst (allocate_channel cs n)) ty pid = Some s"
    and "layout_slot (fst (allocate_channel cs n)) ty' pid' = Some s'"
    and "unat ty < 2" "2 \<le> unat ty'"
  shows "line s < line s'"
  using channel_slot_bounds(4) [OF assms(1,2,4)] channel_slot_bounds(5) [OF assms(1,3,5)] line_before_even
  by blast

section \<open>All channels\<close>

definition points_ok :: "channel_point_counts \<Rightarrow> bool" where
  "points_ok m \<longleftrightarrow> bt_sorted m \<and> (\<forall>(ch, cs) \<in> set m. counts_ok cs \<and> ch < 0xFFFFFFFF)"

text \<open>
  The layouts of the channels \<open>m\<close>, allocated from \<open>n\<close> on and ending at \<open>e\<close>: each channel is
  allocated where the one before it ended.
\<close>

fun chained :: "channel_point_counts \<Rightarrow> channel_layout list \<Rightarrow> usize \<Rightarrow> usize \<Rightarrow> bool" where
  "chained [] layouts n e \<longleftrightarrow> n = e"
| "chained ((ch, cs) # m) layouts n e \<longleftrightarrow>
     unat ch < length layouts \<and> layouts ! unat ch = fst (allocate_channel cs n) \<and>
     chained m layouts (snd (allocate_channel cs n)) e"

lemma chained_update:
  "chained m layouts n e \<Longrightarrow> ch \<notin> fst ` set m \<Longrightarrow> chained m (layouts[unat ch := l]) n e"
  by (induction m layouts n e rule: chained.induct) (auto simp: nth_list_update word_unat_eq_iff)

lemma allocate_loop_Ret:
  assumes "\<forall>ch \<in> fst ` set m. unat ch < length layouts" "distinct (map fst m)"
  shows "\<exists>layouts' e. allocate_loop m layouts n = Ret (layouts', e) \<and> length layouts' = length layouts \<and>
    chained m layouts' n e \<and>
    (\<forall>i. i < length layouts \<longrightarrow> i \<notin> unat ` fst ` set m \<longrightarrow> layouts' ! i = layouts ! i)"
  using assms
proof (induction m arbitrary: layouts n)
  case Nil
  then show ?case by simp
next
  case (Cons x m)
  obtain ch cs where x: "x = (ch, cs)" by fastforce
  let ?l = "layouts[unat ch := fst (allocate_channel cs n)]"
  from Cons obtain layouts' e where IH:
    "allocate_loop m ?l (snd (allocate_channel cs n)) = Ret (layouts', e)" "length layouts' = length layouts"
    "chained m layouts' (snd (allocate_channel cs n)) e"
    "\<And>i. i < length layouts \<Longrightarrow> i \<notin> unat ` fst ` set m \<Longrightarrow> layouts' ! i = ?l ! i"
    using Cons.IH [of ?l "snd (allocate_channel cs n)"] by (auto simp: x)
  have "unat ch \<notin> unat ` fst ` set m"
    using Cons.prems(2) by (auto simp: x word_unat_eq_iff [symmetric] image_iff)
  moreover have "unat ch < length layouts"
    using Cons.prems(1) by (simp add: x)
  ultimately have "layouts' ! unat ch = fst (allocate_channel cs n)"
    using IH(4) [of "unat ch"] by simp
  with IH Cons.prems show ?case
    by (auto simp: x split: prod.splits)
qed

lemma chained_mono: "chained m layouts n e \<Longrightarrow> \<forall>cs \<in> snd ` set m. counts_ok cs \<Longrightarrow> n \<le> e"
proof (induction m layouts n e rule: chained.induct)
  case (2 ch cs m layouts n e)
  have "n \<le> snd (allocate_channel cs n)"
    using 2 align_props(1) [of n] action_start_ge [of "align_to_cache_line n" cs]
    by (simp add: allocate_channel_eq)
  with 2 show ?case by simp
qed simp

text \<open>A slot of a chained channel lies between the start and the end of the allocation.\<close>

lemma chained_slot_bounds:
  assumes "chained m layouts n e" "\<forall>cs \<in> snd ` set m. counts_ok cs" "ch \<in> fst ` set m"
    and "layout_slot (layouts ! unat ch) ty pid = Some s"
  shows "align_to_cache_line n \<le> s \<and> s < e"
  using assms
proof (induction m layouts n e rule: chained.induct)
  case (2 ch' cs m layouts n e)
  have ok: "counts_ok cs" and rest: "\<forall>cs \<in> snd ` set m. counts_ok cs" using 2 by auto
  have end1: "snd (allocate_channel cs n) \<le> e"
    using 2 chained_mono [OF _ rest, of layouts "snd (allocate_channel cs n)" e] by simp
  have start: "align_to_cache_line n \<le> snd (allocate_channel cs n)"
    using action_start_ge [of "align_to_cache_line n" cs] by (simp add: allocate_channel_eq [OF ok])
  show ?case
  proof (cases "ch = ch'")
    case True
    then show ?thesis
      using 2 end1 channel_slot_bounds(2,3) [OF ok, of n ty pid s] by auto
  next
    case False
    with 2 rest have "align_to_cache_line (snd (allocate_channel cs n)) \<le> s \<and> s < e" by simp
    with start align_props(1) [of "snd (allocate_channel cs n)"] show ?thesis by linarith
  qed
qed simp

text \<open>Two different channels never share a cache line.\<close>

lemma chained_lines:
  assumes "chained m layouts n e" "\<forall>cs \<in> snd ` set m. counts_ok cs" "distinct (map fst m)"
    and "ch \<in> fst ` set m" "ch' \<in> fst ` set m" "ch \<noteq> ch'"
    and "layout_slot (layouts ! unat ch) ty pid = Some s" "layout_slot (layouts ! unat ch') ty' pid' = Some s'"
  shows "line s \<noteq> line s'"
  using assms
proof (induction m layouts n e arbitrary: rule: chained.induct)
  case (2 c cs m layouts n e)
  have ok: "counts_ok cs" and rest: "\<forall>cs \<in> snd ` set m. counts_ok cs" using 2 by auto
  let ?n = "snd (allocate_channel cs n)"
  have first: "x < ?n" if "layout_slot (layouts ! unat c) t i = Some x" for t i x
    using 2 that channel_slot_bounds(3) [OF ok, of n t i x] by auto
  have later: "line x < line y" if "layout_slot (layouts ! unat c) t i = Some x" "d \<in> fst ` set m"
    "layout_slot (layouts ! unat d) u j = Some y" for t i x d u j y
    using first [OF that(1)] chained_slot_bounds [OF _ rest that(2,3), of ?n e] 2 align_props [of ?n]
      line_before_even [of x "align_to_cache_line ?n" y] by auto
  show ?case
  proof (cases "ch = c \<or> ch' = c")
    case True
    then have "ch = c \<and> ch' \<in> fst ` set m \<or> ch' = c \<and> ch \<in> fst ` set m"
      using 2(5-7) by auto
    with later [of ty pid s ch' ty' pid' s'] later [of ty' pid' s' ch ty pid s] 2(8,9) show ?thesis
      by (metis nat_less_le)
  next
    case False
    with 2 rest show ?thesis by simp
  qed
qed simp

lemma fold_max_start: "a \<le> fold max xs (a :: 'a::linorder)"
  by (induction xs arbitrary: a) (auto intro: order_trans [OF max.cobounded2])

lemma fold_max_ge: "x \<in> set xs \<Longrightarrow> x \<le> fold max xs (a :: 'a::linorder)"
  by (induction xs arbitrary: a) (auto intro: order_trans [OF max.cobounded1 fold_max_start])

lemma max_channel_id_ge: "ch \<in> fst ` set m \<Longrightarrow> ch \<le> max_channel_id m"
  using fold_max_ge [of ch "map fst m" 0] by (simp add: max_channel_id_def)

lemma max_channel_id_bound:
  assumes "\<forall>ch \<in> fst ` set m. ch < 0xFFFFFFFF"
  shows "max_channel_id m < 0xFFFFFFFF"
proof -
  have "(\<forall>x \<in> set xs. x < b) \<Longrightarrow> a < b \<Longrightarrow> fold max xs a < b" for a b :: u32 and xs
    by (induction xs arbitrary: a) auto
  from this [of "map fst m" "0xFFFFFFFF" 0] show ?thesis
    using assms by (simp add: max_channel_id_def)
qed

lemma allocate_layouts_chained:
  assumes "points_ok m"
  shows "\<exists>layouts e. allocate_layouts m = Ret (layouts, e) \<and> chained m layouts 0 e \<and>
    (\<forall>i. i < length layouts \<longrightarrow> i \<notin> unat ` fst ` set m \<longrightarrow> layouts ! i = layout_default)"
proof -
  have "max_channel_id m < 0xFFFFFFFF"
    using assms by (intro max_channel_id_bound) (auto simp: points_ok_def)
  then have sz: "unat (max_channel_id m + 1) = unat (max_channel_id m) + 1"
    by (simp add: unat_word_ariths word_less_nat_alt)
  have "unat ch < unat (max_channel_id m + 1)" if "ch \<in> fst ` set m" for ch
    using max_channel_id_ge [OF that] by (simp add: sz word_le_nat_alt)
  with allocate_loop_Ret [of m "replicate (unat (max_channel_id m + 1)) layout_default" 0]
    bt_sorted_distinct [of m] assms
  show ?thesis
    by (auto simp: allocate_layouts_def Let_def points_ok_def)
qed

lemma allocate_loop_length: "allocate_loop m ls n = Ret (ls', e) \<Longrightarrow> length ls' = length ls"
  by (induction m ls n rule: allocate_loop.induct) (auto simp: Let_def split: if_splits prod.splits)

lemma allocate_layouts_length: "allocate_layouts m = Ret (layouts, e) \<Longrightarrow> length layouts < 2 ^ 32"
  using unat_u32_bound [of "max_channel_id m + 1"]
  by (auto simp: allocate_layouts_def Let_def dest!: allocate_loop_length)

lemma layout_default_slot [simp]: "layout_slot layout_default ty pid = None"
proof -
  have "[0, 0, 0, 0] ! k = (0 :: u32)" if "k < 4" for k
    using nat_less_4_cases [OF that] by auto
  from this [of "unat ty"] show ?thesis
    by (cases "unat ty < 4") (simp_all add: layout_slot_def layout_default_def Let_def)
qed

text \<open>A point that has a slot belongs to an allocated channel.\<close>

lemma chan_slot_allocated:
  assumes "points_ok m" "allocate_layouts m = Ret (layouts, e)" "chan_slot layouts ch ty pid = Some s"
  shows "chained m layouts 0 e" "ch \<in> fst ` set m" "layout_slot (layouts ! unat ch) ty pid = Some s"
proof -
  from allocate_layouts_chained [OF assms(1)] assms(2)
  show "chained m layouts 0 e" by simp
  from assms(3) show l: "layout_slot (layouts ! unat ch) ty pid = Some s"
    by (auto simp: chan_slot_def get_def split: if_splits)
  from assms(3) have "unat ch < length layouts"
    by (auto simp: chan_slot_def get_def split: if_splits)
  with l allocate_layouts_chained [OF assms(1)] assms(2) show "ch \<in> fst ` set m"
    by (auto simp: image_iff word_unat_eq_iff)
qed

lemma chained_counts:
  "chained m layouts n e \<Longrightarrow> (ch, cs) \<in> set m \<Longrightarrow>
     unat ch < length layouts \<and> (\<exists>k. layouts ! unat ch = fst (allocate_channel cs k))"
  by (induction m layouts n e rule: chained.induct) auto

lemma chan_slot_iff:
  assumes "points_ok m" "allocate_layouts m = Ret (layouts, e)"
  shows "chan_slot layouts ch ty pid \<noteq> None \<longleftrightarrow>
    (\<exists>cs. map_of m ch = Some cs \<and> unat ty < 4 \<and> pid < cs ! unat ty)"
proof -
  have known: "chan_slot layouts ch ty pid \<noteq> None \<longleftrightarrow> unat ty < 4 \<and> pid < cs ! unat ty"
    if "(ch, cs) \<in> set m" for cs
  proof -
    have "counts_ok cs" using assms that by (auto simp: points_ok_def)
    moreover have "unat ch < length layouts \<and> (\<exists>k. layouts ! unat ch = fst (allocate_channel cs k))"
      using allocate_layouts_chained [OF assms(1)] assms(2) chained_counts [OF _ that] by auto
    ultimately show ?thesis
      by (auto simp: chan_slot_def get_def layout_slot_channel split: if_splits)
  qed
  show ?thesis
  proof (cases "map_of m ch")
    case None
    then have "ch \<notin> fst ` set m" by (simp add: map_of_eq_None_iff)
    then have "chan_slot layouts ch ty pid = None"
      using chan_slot_allocated(2) [OF assms, of ch ty pid] by (cases "chan_slot layouts ch ty pid") auto
    with None show ?thesis by simp
  next
    case (Some cs)
    then show ?thesis
      using known [of cs] map_of_SomeD [OF Some] by auto
  qed
qed

lemma chan_slot_separate:
  assumes "points_ok m" "allocate_layouts m = Ret (layouts, e)"
    and "chan_slot layouts ch ty pid = Some s" "chan_slot layouts ch' ty' pid' = Some s'"
  shows "s < e" "s = s' \<Longrightarrow> ch = ch' \<and> ty = ty' \<and> pid = pid'"
    "line s = line s' \<Longrightarrow> ch = ch' \<and> (unat ty < 2 \<longleftrightarrow> unat ty' < 2)"
proof -
  note a = chan_slot_allocated [OF assms(1,2,3)] and b = chan_slot_allocated [OF assms(1,2,4)]
  have oks: "\<forall>cs \<in> snd ` set m. counts_ok cs" and dist: "distinct (map fst m)"
    using assms(1) bt_sorted_distinct by (auto simp: points_ok_def)
  show bound: "s < e"
    using chained_slot_bounds [OF a(1) oks a(2,3)] by simp
  have "(s = s' \<longrightarrow> ch = ch' \<and> ty = ty' \<and> pid = pid') \<and>
    (line s = line s' \<longrightarrow> ch = ch' \<and> (unat ty < 2 \<longleftrightarrow> unat ty' < 2))"
  proof (cases "ch = ch'")
    case True
    obtain cs k where cs: "counts_ok cs" "layouts ! unat ch = fst (allocate_channel cs k)"
      using a(2) chained_counts [OF a(1)] oks by force
    have a': "layout_slot (fst (allocate_channel cs k)) ty pid = Some s"
      and b': "layout_slot (fst (allocate_channel cs k)) ty' pid' = Some s'"
      using a(3) b(3) True cs(2) by simp_all
    note channel_owner_lines [OF cs(1) a' b'] channel_owner_lines [OF cs(1) b' a']
    moreover have "s = s' \<Longrightarrow> ty = ty' \<and> pid = pid'"
      using channel_slot_inject [OF cs(1) a'] b' by blast
    ultimately show ?thesis
      using bound True by fastforce
  next
    case False
    with chained_lines [OF a(1) oks dist a(2) b(2) _ a(3) b(3)] bound show ?thesis by auto
  qed
  then show "s = s' \<Longrightarrow> ch = ch' \<and> ty = ty' \<and> pid = pid'"
    "line s = line s' \<Longrightarrow> ch = ch' \<and> (unat ty < 2 \<longleftrightarrow> unat ty' < 2)" by blast+
qed

section \<open>Properties\<close>

text \<open>Slot allocation is total: for point counts with four counts per channel, whose action
  points can be counted in 32 bits, and with channel ids below \<open>u32::MAX\<close>, \<open>allocate_layouts\<close> does
  not panic, and the points that get a slot are exactly those the counts declare.\<close>

lemma allocate_layouts_total:
  assumes "points_ok m"
  shows "\<exists>layouts e. allocate_layouts m = Ret (layouts, e) \<and>
    (\<forall>ch ty pid. chan_slot layouts ch ty pid \<noteq> None \<longleftrightarrow>
       (\<exists>cs. map_of m ch = Some cs \<and> unat ty < 4 \<and> pid < cs ! unat ty))"
  using allocate_layouts_chained [OF assms] chan_slot_iff [OF assms] by blast

definition demo_counts :: channel_point_counts where
  "demo_counts = [(1, [3, 0, 2, 1]), (2, [1, 1, 0, 1])]"

lemma demo_counts_ok: "points_ok demo_counts"
  by (simp add: points_ok_def demo_counts_def bt_sorted_def counts_ok_def)

text \<open>C15. The layout separates points and writers: every slot lies below the returned slot count,
  two points with the same slot are the same point, and two slots on one 64-byte cache line belong
  to one channel and to one writer (telemetry and signal slots, written by the communication
  service, never share a line with control and adjustment slots, written by the model service).\<close>

theorem layouts_separate:
  assumes "points_ok m" "allocate_layouts m = Ret (layouts, e)"
    and "chan_slot layouts ch ty pid = Some s" "chan_slot layouts ch' ty' pid' = Some s'"
  shows "s < e \<and> (s = s' \<longrightarrow> ch = ch' \<and> ty = ty' \<and> pid = pid') \<and>
    (line s = line s' \<longrightarrow> ch = ch' \<and> (unat ty < 2 \<longleftrightarrow> unat ty' < 2))"
  using chan_slot_separate [OF assms] by blast

lemma demo_slots:
  "case allocate_layouts demo_counts of
     Ret (layouts, e) \<Rightarrow> chan_slot layouts 1 0 2 = Some 2 \<and> chan_slot layouts 1 2 0 = Some 4
   | Panic \<Rightarrow> False"
  by code_simp

theorem layouts_separate_witness:
  "\<exists>layouts e. allocate_layouts demo_counts = Ret (layouts, e) \<and>
     chan_slot layouts 1 0 2 = Some 2 \<and> chan_slot layouts 1 2 0 = Some 4 \<and> 2 < e \<and> line 2 \<noteq> line 4"
proof -
  obtain layouts e where a: "allocate_layouts demo_counts = Ret (layouts, e)"
    "chan_slot layouts 1 0 2 = Some 2" "chan_slot layouts 1 2 0 = Some 4"
    using demo_slots by (auto split: outcome.splits)
  with layouts_separate [OF demo_counts_ok a] show ?thesis by (auto simp: line_def)
qed

end
