(* ===== verification/Slot_Index.thy ===== *)
theory Slot_Index
  imports Layout Routing "HOL-Library.AList"
begin

text \<open>
  The two slot indexes of \<open>libs/voltage-rtdb-shm/src\<close>: \<open>ChannelToSlotIndex\<close> of \<open>shared_config.rs\<close>
  (point to slot) and \<open>ReverseSlotIndex\<close> of \<open>reverse_index.rs\<close> (slot to point).  The iteration order
  of the hash map between them is an argument.
\<close>

section \<open>Point to slot\<close>

record channel_to_slot_index =
  cs_index :: "route_key \<rightharpoonup> usize"
  cs_mapped_count :: usize

definition type_entries :: "u32 \<Rightarrow> channel_layout \<Rightarrow> point_type \<Rightarrow> (route_key \<times> usize) list" where
  "type_entries channel_id l pt =
     List.map_filter
       (\<lambda>point_id. map_option (Pair (channel_id, pt, point_id)) (layout_slot l (to_u8 pt) point_id))
       (map of_nat [0..<unat (cl_type_counts l ! unat (to_u8 pt))])"

definition channel_entries :: "u32 \<Rightarrow> channel_layout \<Rightarrow> (route_key \<times> usize) list" where
  "channel_entries channel_id l =
     (if cl_total_points l = 0 then []
      else concat (map (type_entries channel_id l) [Telemetry, Signal, Control, Adjustment]))"

definition layout_entries :: "channel_layout list \<Rightarrow> (route_key \<times> usize) list" where
  "layout_entries layouts = concat (map (\<lambda>(i, l). channel_entries (of_nat i) l) (enumerate 0 layouts))"

definition from_layouts :: "channel_layout list \<Rightarrow> channel_to_slot_index" where
  "from_layouts layouts =
     (let es = layout_entries layouts in
      \<lparr>cs_index = fold (\<lambda>(k, s) m. m(k \<mapsto> s)) es Map.empty,
       cs_mapped_count = length (remdups (map fst es))\<rparr>)"

definition slot_lookup :: "channel_to_slot_index \<Rightarrow> u32 \<Rightarrow> point_type \<Rightarrow> u32 \<Rightarrow> usize option" where
  "slot_lookup ix channel_id pt point_id = cs_index ix (channel_id, pt, point_id)"

text \<open>The entries of a hash map in some order.\<close>

definition iterates :: "('k \<rightharpoonup> 'v) \<Rightarrow> ('k \<times> 'v) list \<Rightarrow> bool" where
  "iterates m es \<longleftrightarrow> distinct (map fst es) \<and> map_of es = m"

section \<open>Slot to point\<close>

record reverse_slot_index =
  rx_origins :: "route_key option list"
  rx_mapped_count :: usize

definition reverse_step :: "usize \<Rightarrow> route_key \<times> usize \<Rightarrow> reverse_slot_index \<Rightarrow> reverse_slot_index" where
  "reverse_step slot_count e rx =
     (case e of (key, slot) \<Rightarrow>
        if slot < slot_count
        then rx\<lparr>rx_origins := (rx_origins rx)[slot := Some key], rx_mapped_count := rx_mapped_count rx + 1\<rparr>
        else rx)"

definition from_forward :: "(route_key \<times> usize) list \<Rightarrow> usize \<Rightarrow> reverse_slot_index" where
  "from_forward es slot_count =
     fold (reverse_step slot_count) es \<lparr>rx_origins = replicate slot_count None, rx_mapped_count = 0\<rparr>"

definition slot_origin :: "reverse_slot_index \<Rightarrow> usize \<Rightarrow> route_key option" where
  "slot_origin rx slot = (case get (rx_origins rx) slot of None \<Rightarrow> None | Some x \<Rightarrow> x)"

section \<open>The forward index is the layout\<close>

lemma set_u32_upto: "set (map of_nat [0..<unat (c :: u32)]) = {p. p < c}"
proof (intro set_eqI iffI)
  fix p :: u32 assume "p \<in> set (map of_nat [0..<unat c])"
  then obtain n where "n < unat c" "p = of_nat n" by auto
  moreover have "unat c < 2 ^ 32" by (rule unat_u32_bound)
  ultimately show "p \<in> {p. p < c}"
    by (simp add: word_less_nat_alt unat_of_nat take_bit_eq_mod)
next
  fix p :: u32 assume "p \<in> {p. p < c}"
  then have "unat p \<in> set [0..<unat c]" by (simp add: word_less_nat_alt)
  then have "of_nat (unat p) \<in> set (map of_nat [0..<unat c] :: u32 list)" by (simp only: set_map imageI)
  then show "p \<in> set (map of_nat [0..<unat c])" by simp
qed

lemma in_type_entries:
  "((ch, pt', pid), s) \<in> set (type_entries ch' l pt) \<longleftrightarrow>
     ch = ch' \<and> pt' = pt \<and> layout_slot l (to_u8 pt) pid = Some s"
proof -
  have "layout_slot l (to_u8 pt) pid = Some s \<Longrightarrow> pid < cl_type_counts l ! unat (to_u8 pt)"
    by (simp add: layout_slot_def Let_def not_le split: if_splits)
  then show ?thesis
    unfolding type_entries_def map_filter_def set_map set_filter set_u32_upto [unfolded set_map]
    by (auto intro!: image_eqI [where x = pid])
qed

lemma in_channel_entries:
  "((ch, pt, pid), s) \<in> set (channel_entries ch' l) \<longleftrightarrow>
     ch = ch' \<and> cl_total_points l \<noteq> 0 \<and> layout_slot l (to_u8 pt) pid = Some s"
  by (cases pt) (auto simp: channel_entries_def in_type_entries)

lemma in_layout_entries:
  assumes "length layouts < 2 ^ 32"
  shows "((ch, pt, pid), s) \<in> set (layout_entries layouts) \<longleftrightarrow>
     unat ch < length layouts \<and> cl_total_points (layouts ! unat ch) \<noteq> 0 \<and>
     layout_slot (layouts ! unat ch) (to_u8 pt) pid = Some s" (is "?L \<longleftrightarrow> ?R")
proof -
  have en: "set (enumerate 0 layouts) = {(i, l). i < length layouts \<and> layouts ! i = l}"
    by (simp only: set_eq_iff in_set_enumerate_eq split_paired_All) simp
  have un: "unat (of_nat i :: u32) = i" if "i < length layouts" for i
    using less_trans [OF that assms] by (rule unat_of_nat_u32)
  have "?L \<longleftrightarrow> (\<exists>p \<in> set (enumerate 0 layouts). ((ch, pt, pid), s) \<in> set (channel_entries (of_nat (fst p)) (snd p)))"
    by (simp only: layout_entries_def set_concat set_map image_image UN_iff case_prod_unfold)
  also have "\<dots> \<longleftrightarrow> (\<exists>i < length layouts. ((ch, pt, pid), s) \<in> set (channel_entries (of_nat i) (layouts ! i)))"
    unfolding en by (simp only: Bex_def mem_Collect_eq case_prod_unfold split_paired_Ex fst_conv snd_conv) metis
  also have "\<dots> \<longleftrightarrow> ?R"
  proof
    assume "\<exists>i < length layouts. ((ch, pt, pid), s) \<in> set (channel_entries (of_nat i) (layouts ! i))"
    then obtain i where "i < length layouts" "ch = of_nat i" "cl_total_points (layouts ! i) \<noteq> 0"
        "layout_slot (layouts ! i) (to_u8 pt) pid = Some s"
      unfolding in_channel_entries by blast
    then show ?R by (simp only: un simp_thms)
  next
    assume r: ?R
    then have "((ch, pt, pid), s) \<in> set (channel_entries (of_nat (unat ch)) (layouts ! unat ch))"
      unfolding in_channel_entries by simp
    with r show "\<exists>i < length layouts. ((ch, pt, pid), s) \<in> set (channel_entries (of_nat i) (layouts ! i))"
      by blast
  qed
  finally show ?thesis .
qed

text \<open>No channel declares \<open>2 ^ 32\<close> points or more, so that \<open>total_points\<close> does not wrap.\<close>

definition sums_fit :: "channel_point_counts \<Rightarrow> bool" where
  "sums_fit m \<longleftrightarrow> (\<forall>cs \<in> snd ` set m. sum_list (map unat cs) < 2 ^ 32)"

lemma total_points_zero:
  assumes "counts_ok cs" "sum_list (map unat cs) < 2 ^ 32" "sum_list cs = 0" "k < 4"
  shows "cs ! k = 0"
proof -
  obtain a b c d where cs: "cs = [a, b, c, d]"
    using length_4 [of cs] assms(1) by (auto simp: counts_ok_def)
  have "unat (sum_list cs) = unat a + unat b + unat c + unat d"
    using assms(2) by (simp add: cs unat_word_ariths)
  then have "a = 0" "b = 0" "c = 0" "d = 0" using assms(3) by (simp_all add: unat_eq_zero)
  then show ?thesis using nat_less_4_cases [OF assms(4)] by (auto simp: cs)
qed

lemma slot_total_points:
  assumes "points_ok m" "sums_fit m" "allocate_layouts m = Ret (layouts, e)"
    and "chan_slot layouts ch ty pid = Some s"
  shows "cl_total_points (layouts ! unat ch) \<noteq> 0"
proof
  assume z: "cl_total_points (layouts ! unat ch) = 0"
  note a = chan_slot_allocated [OF assms(1,3,4)]
  obtain cs where cs: "(ch, cs) \<in> set m" using a(2) by auto
  then have ok: "counts_ok cs" and fit: "sum_list (map unat cs) < 2 ^ 32"
    using assms(1,2) by (auto simp: points_ok_def sums_fit_def)
  obtain n where n: "layouts ! unat ch = fst (allocate_channel cs n)"
    using chained_counts [OF a(1) cs] by blast
  have "sum_list cs = 0" using z by (simp add: n allocate_channel_eq [OF ok])
  moreover have "unat ty < 4" "pid < cs ! unat ty"
    using a(3) by (auto simp: n layout_slot_channel [OF ok] split: if_splits)
  ultimately show False using total_points_zero [OF ok fit] by simp
qed

lemma layout_entries_chan_slot:
  assumes "points_ok m" "sums_fit m" "allocate_layouts m = Ret (layouts, e)"
  shows "((ch, pt, pid), s) \<in> set (layout_entries layouts) \<longleftrightarrow> chan_slot layouts ch (to_u8 pt) pid = Some s"
  using slot_total_points [OF assms, of ch "to_u8 pt" pid s]
  by (auto simp: in_layout_entries [OF allocate_layouts_length [OF assms(3)]] chan_slot_def get_def
      split: if_splits)

lemma fold_insert_map_of: "fold (\<lambda>(k, s) m. m(k \<mapsto> s)) es m = m ++ map_of (List.rev es)"
  by (induction es arbitrary: m) (auto simp: map_add_assoc)

lemma slot_lookup_chan_slot:
  assumes "points_ok m" "sums_fit m" "allocate_layouts m = Ret (layouts, e)"
  shows "slot_lookup (from_layouts layouts) ch pt pid = chan_slot layouts ch (to_u8 pt) pid"
proof -
  have "map_of (List.rev (layout_entries layouts)) =
      (\<lambda>(ch, pt, pid). chan_slot layouts ch (to_u8 pt) pid)"
    by (rule map_of_graph) (auto simp: layout_entries_chan_slot [OF assms])
  then show ?thesis
    by (simp add: slot_lookup_def from_layouts_def Let_def fold_insert_map_of)
qed

section \<open>The reverse index inverts it\<close>

lemma reverse_step_origin:
  assumes "length (rx_origins rx) = n"
  shows "slot_origin (reverse_step n (k, slot) rx) s = (if s = slot \<and> slot < n then Some k else slot_origin rx s)"
    and "length (rx_origins (reverse_step n (k, slot) rx)) = n"
  using assms by (auto simp: reverse_step_def slot_origin_def get_def)

lemma fold_reverse_step:
  assumes "\<And>k k' s. (k, s) \<in> set es \<Longrightarrow> (k', s) \<in> set es \<Longrightarrow> k = k'" "length (rx_origins rx) = n"
    and "\<And>k s. (k, s) \<in> set es \<Longrightarrow> slot_origin rx s = None \<or> slot_origin rx s = Some k"
  shows "slot_origin (fold (reverse_step n) es rx) s = Some k \<longleftrightarrow>
    slot_origin rx s = Some k \<or> (s < n \<and> (k, s) \<in> set es)"
  using assms
proof (induction es arbitrary: rx)
  case Nil
  then show ?case by simp
next
  case (Cons e es)
  obtain k' s' where e: "e = (k', s')" by fastforce
  let ?rx = "reverse_step n (k', s') rx"
  note step = reverse_step_origin [OF Cons.prems(2)]
  have same: "k'' = k'" if "(k'', s') \<in> set es" for k''
    using Cons.prems(1) [of k'' s' k'] that by (simp add: e)
  have "slot_origin ?rx t = None \<or> slot_origin ?rx t = Some k''" if "(k'', t) \<in> set es" for k'' t
    using Cons.prems(3) [of k'' t] same [of k''] that by (cases "t = s'") (simp_all add: step(1) e)
  with Cons.IH [of ?rx] Cons.prems(1) step(2)
  have "slot_origin (fold (reverse_step n) es ?rx) s = Some k \<longleftrightarrow>
      slot_origin ?rx s = Some k \<or> (s < n \<and> (k, s) \<in> set es)"
    by (simp add: e) blast
  moreover have "slot_origin rx s' = Some k \<Longrightarrow> k = k'"
    using Cons.prems(3) [of k' s'] by (auto simp: e)
  ultimately show ?case
    by (auto simp: e step(1))
qed

lemma slot_origin_iff:
  assumes "points_ok m" "sums_fit m" "allocate_layouts m = Ret (layouts, e)"
    and "iterates (cs_index (from_layouts layouts)) es"
  shows "slot_origin (from_forward es e) s = Some (ch, pt, pid) \<longleftrightarrow> chan_slot layouts ch (to_u8 pt) pid = Some s"
proof -
  have mem: "((ch, pt, pid), s) \<in> set es \<longleftrightarrow> chan_slot layouts ch (to_u8 pt) pid = Some s" for ch pt pid s
    using slot_lookup_chan_slot [OF assms(1-3)] assms(4) map_of_is_SomeI [of es "(ch, pt, pid)" s] map_of_SomeD [of es "(ch, pt, pid)" s]
    by (auto simp: iterates_def slot_lookup_def)
  have inj: "k = k'" if "(k, s) \<in> set es" "(k', s) \<in> set es" for k k' s
  proof -
    obtain ch pt pid ch' pt' pid' where k: "k = (ch, pt, pid)" "k' = (ch', pt', pid')"
      by (cases k; cases k') blast
    from that have "chan_slot layouts ch (to_u8 pt) pid = Some s" "chan_slot layouts ch' (to_u8 pt') pid' = Some s"
      by (simp_all only: k mem)
    from chan_slot_separate(2) [OF assms(1,3) this refl] show ?thesis by (simp add: k)
  qed
  have "slot_origin \<lparr>rx_origins = replicate e None, rx_mapped_count = 0\<rparr> s = None" for s
    by (auto simp: slot_origin_def get_def)
  then show ?thesis
    using fold_reverse_step [of es "\<lparr>rx_origins = replicate e None, rx_mapped_count = 0\<rparr>" e s "(ch, pt, pid)"] inj mem
      chan_slot_separate(1) [OF assms(1,3)]
    by (auto simp: from_forward_def)
qed

lemma iterates_layout:
  assumes "points_ok m" "sums_fit m" "allocate_layouts m = Ret (layouts, e)"
  shows "\<exists>es. iterates (cs_index (from_layouts layouts)) es"
proof -
  let ?m = "map_of (List.rev (layout_entries layouts))"
  have "cs_index (from_layouts layouts) = ?m"
    by (simp add: from_layouts_def Let_def fold_insert_map_of)
  moreover have "iterates ?m (AList.clearjunk (List.rev (layout_entries layouts)))"
    by (simp add: iterates_def map_of_clearjunk)
  ultimately show ?thesis by auto
qed

section \<open>Properties\<close>

text \<open>C25. The slot indexes invert each other: built from an allocated layout (with channels of less
  than \<open>2 ^ 32\<close> points), the forward index finds exactly the slot the layout assigns, and the reverse
  index attributes a slot to a point if and only if the forward index maps that point to that slot,
  in whatever order the hash map was iterated.\<close>
theorem slot_indexes_inverse:
  assumes "points_ok m" "sums_fit m" "allocate_layouts m = Ret (layouts, e)"
    and "iterates (cs_index (from_layouts layouts)) es"
  shows "slot_lookup (from_layouts layouts) ch pt pid = chan_slot layouts ch (to_u8 pt) pid \<and>
    (slot_origin (from_forward es e) s = Some (ch, pt, pid) \<longleftrightarrow>
      slot_lookup (from_layouts layouts) ch pt pid = Some s)"
  using slot_lookup_chan_slot [OF assms(1-3)] slot_origin_iff [OF assms] by simp

lemma demo_sums_fit: "sums_fit demo_counts"
  by (simp add: sums_fit_def demo_counts_def)

theorem slot_indexes_inverse_witness:
  "\<exists>layouts e es. allocate_layouts demo_counts = Ret (layouts, e) \<and>
     iterates (cs_index (from_layouts layouts)) es \<and>
     slot_lookup (from_layouts layouts) 1 Control 0 = Some 4 \<and>
     slot_origin (from_forward es e) 4 = Some (1, Control, 0)"
proof -
  obtain layouts e where a: "allocate_layouts demo_counts = Ret (layouts, e)"
    "chan_slot layouts 1 2 0 = Some 4"
    using demo_slots by (auto split: outcome.splits)
  obtain es where es: "iterates (cs_index (from_layouts layouts)) es"
    using iterates_layout [OF demo_counts_ok demo_sums_fit a(1)] by blast
  note inv = slot_indexes_inverse [OF demo_counts_ok demo_sums_fit a(1) es]
  have "slot_lookup (from_layouts layouts) 1 Control 0 = Some 4"
    using inv [of 1 Control 0] a(2) by simp
  then show ?thesis using a(1) es inv [of 1 Control 0 4] by blast
qed

end
