(* ===== verification/Point_Watch.thy ===== *)
theory Point_Watch
  imports Slot_Index Point_Slot "HOL-Library.Sublist"
begin

text \<open>
  Event-driven change notification from the communication service to the model service, in
  \<open>libs/voltage-rtdb-shm/src\<close>: the shared subscription bitmap (\<open>subscription_bitmap.rs\<close>), the
  56-byte wire frame (\<open>point_watch_event.rs\<close>), the signaler with its bounded queue and drain task
  (\<open>point_watch.rs\<close>) and the listener (\<open>point_watch_listener.rs\<close>).  Socket results and clock
  readings are inputs of a step.
\<close>

section \<open>Subscription bitmap\<close>

definition WATCH_WORDS_COUNT :: usize where
  "WATCH_WORDS_COUNT = 1563"

definition WATCH_BITMAP_SIZE :: usize where
  "WATCH_BITMAP_SIZE = WATCH_WORDS_COUNT * 8"

definition subs_create :: "u64 list" where
  "subs_create = replicate WATCH_WORDS_COUNT 0"

text \<open>Opening an existing file: its length must match; the words are its content.\<close>

fun le_words :: "nat \<Rightarrow> u8 list \<Rightarrow> u64 list" where
  "le_words 0 bs = []"
| "le_words (Suc n) bs = from_le (take 8 bs) # le_words n (drop 8 bs)"

definition subs_open :: "u8 list \<Rightarrow> u64 list option" where
  "subs_open file =
     (if length file \<noteq> WATCH_BITMAP_SIZE then None else Some (le_words WATCH_WORDS_COUNT file))"

definition is_watched :: "u64 list \<Rightarrow> usize \<Rightarrow> bool" where
  "is_watched subs slot \<longleftrightarrow>
     (if slot div 64 \<ge> WATCH_WORDS_COUNT then False else subs ! (slot div 64) AND slot_mask slot \<noteq> 0)"

definition set_watched :: "u64 list \<Rightarrow> usize \<Rightarrow> u64 list" where
  "set_watched subs slot = (if slot div 64 \<ge> WATCH_WORDS_COUNT then subs else set_word subs slot)"

definition clear_watched :: "u64 list \<Rightarrow> usize \<Rightarrow> u64 list" where
  "clear_watched subs slot = (if slot div 64 \<ge> WATCH_WORDS_COUNT then subs else clear_word subs slot)"

definition clear_all :: "u64 list \<Rightarrow> u64 list" where
  "clear_all subs = map (\<lambda>_. 0) subs"

definition count_ones :: "u64 \<Rightarrow> nat" where
  "count_ones w = length (filter (bit w) [0..<64])"

definition subscription_count :: "u64 list \<Rightarrow> usize" where
  "subscription_count subs = sum_list (map count_ones subs)"

section \<open>Wire frame\<close>

record watch_event =
  we_channel_id :: u32
  we_point_id :: u32
  we_point_type :: u8
  we_padding :: "u8 list"
  we_value_bits :: u64
  we_raw_bits :: u64
  we_slot_index :: u64
  we_timestamp_ms :: u64
  we_producer_id :: u64

definition EVENT_SIZE :: usize where
  "EVENT_SIZE = 56"

definition event_to_bytes :: "watch_event \<Rightarrow> u8 list" where
  "event_to_bytes ev =
     to_le 4 (we_channel_id ev) @ to_le 4 (we_point_id ev) @ [we_point_type ev] @ we_padding ev @
     to_le 8 (we_value_bits ev) @ to_le 8 (we_raw_bits ev) @ to_le 8 (we_slot_index ev) @
     to_le 8 (we_timestamp_ms ev) @ to_le 8 (we_producer_id ev)"

text \<open>
  \<open>*bytemuck::from_bytes(bytes)\<close>: the package documents that it panics when the buffer is not aligned
  for the target type; where the buffer lies is an argument.
\<close>

definition event_from_bytes :: "bool \<Rightarrow> u8 list \<Rightarrow> watch_event outcome" where
  "event_from_bytes aligned bs =
     (if \<not> aligned then Panic
      else Ret
        \<lparr>we_channel_id = from_le (take 4 bs),
         we_point_id = from_le (take 4 (drop 4 bs)),
         we_point_type = bs ! 8,
         we_padding = take 7 (drop 9 bs),
         we_value_bits = from_le (take 8 (drop 16 bs)),
         we_raw_bits = from_le (take 8 (drop 24 bs)),
         we_slot_index = from_le (take 8 (drop 32 bs)),
         we_timestamp_ms = from_le (take 8 (drop 40 bs)),
         we_producer_id = from_le (take 8 (drop 48 bs))\<rparr>)"

section \<open>Signaler\<close>

definition DRAIN_CHANNEL_CAPACITY :: usize where
  "DRAIN_CHANNEL_CAPACITY = 2048"

definition MAX_BATCH :: usize where
  "MAX_BATCH = 64"

definition MIN_BACKOFF_MS :: u64 where
  "MIN_BACKOFF_MS = 1000"

definition MAX_BACKOFF_MS :: u64 where
  "MAX_BACKOFF_MS = 5000"

record signaler =
  sg_subs :: "u64 list"
  sg_reverse_index :: reverse_slot_index
  sg_queue :: "watch_event list"
  sg_closed :: bool
  sg_dropped_count :: u64
  sg_producer_id :: u64

definition new_producer_id :: "u64 \<Rightarrow> u32 \<Rightarrow> u64" where
  "new_producer_id now_nanos pid = now_nanos XOR push_bit 32 (ucast pid)"

definition signaler_new :: "u64 list \<Rightarrow> reverse_slot_index \<Rightarrow> u64 \<Rightarrow> u32 \<Rightarrow> signaler" where
  "signaler_new subs rx now_nanos pid =
     \<lparr>sg_subs = subs, sg_reverse_index = rx, sg_queue = [], sg_closed = False, sg_dropped_count = 0,
      sg_producer_id = new_producer_id now_nanos pid\<rparr>"

text \<open>The event a write produces: none for an unwatched or an unmapped slot.\<close>

definition event_for :: "signaler \<Rightarrow> usize \<Rightarrow> f64 \<Rightarrow> f64 \<Rightarrow> u64 \<Rightarrow> watch_event option" where
  "event_for sg slot v raw ts =
     (if \<not> is_watched (sg_subs sg) slot then None
      else (case slot_origin (sg_reverse_index sg) slot of
              None \<Rightarrow> None
            | Some (channel_id, pt, point_id) \<Rightarrow>
                Some \<lparr>we_channel_id = channel_id, we_point_id = point_id, we_point_type = to_u8 pt,
                      we_padding = replicate 7 0, we_value_bits = v, we_raw_bits = raw,
                      we_slot_index = of_nat slot, we_timestamp_ms = ts,
                      we_producer_id = sg_producer_id sg\<rparr>))"

text \<open>\<open>try_send\<close> fails when the queue is full or the receiver is gone.\<close>

definition emit :: "signaler \<Rightarrow> usize \<Rightarrow> f64 \<Rightarrow> f64 \<Rightarrow> u64 \<Rightarrow> signaler" where
  "emit sg slot v raw ts =
     (case event_for sg slot v raw ts of
        None \<Rightarrow> sg
      | Some ev \<Rightarrow>
          if sg_closed sg \<or> length (sg_queue sg) \<ge> DRAIN_CHANNEL_CAPACITY
          then sg\<lparr>sg_dropped_count := sg_dropped_count sg + 1\<rparr>
          else sg\<lparr>sg_queue := sg_queue sg @ [ev]\<rparr>)"

section \<open>Drain task\<close>

text \<open>Instants are milliseconds.\<close>

record drain_state =
  dt_connected :: bool
  dt_backoff_ms :: u64
  dt_last_connect_attempt :: "nat option"
  dt_reconnect_attempts :: u32

definition drain_start :: "bool \<Rightarrow> drain_state" where
  "drain_start connected =
     \<lparr>dt_connected = connected, dt_backoff_ms = MIN_BACKOFF_MS, dt_last_connect_attempt = None,
      dt_reconnect_attempts = 0\<rparr>"

text \<open>
  What one iteration meets: the clock when the backoff is tested and when it is restarted, whether a
  connection attempt succeeds, and the first write of the batch that fails.
\<close>

record drain_env =
  de_now :: nat
  de_after :: nat
  de_connect_ok :: bool
  de_fail_at :: "nat option"

definition should_retry :: "drain_env \<Rightarrow> drain_state \<Rightarrow> bool" where
  "should_retry env d =
     (case dt_last_connect_attempt d of None \<Rightarrow> True | Some t \<Rightarrow> de_now env - t \<ge> unat (dt_backoff_ms d))"

definition send_batch :: "drain_env \<Rightarrow> watch_event list \<Rightarrow> drain_state \<Rightarrow> drain_state \<times> watch_event list" where
  "send_batch env batch d =
     (case de_fail_at env of
        Some k \<Rightarrow>
          if k < length batch
          then (d\<lparr>dt_connected := False, dt_backoff_ms := MIN_BACKOFF_MS,
                  dt_last_connect_attempt := Some (de_after env), dt_reconnect_attempts := 0\<rparr>,
                take k batch)
          else (d, batch)
      | None \<Rightarrow> (d, batch))"

text \<open>One iteration on a batch: the new state, the events counted as dropped, the events written.\<close>

definition drain_batch :: "drain_env \<Rightarrow> watch_event list \<Rightarrow> drain_state \<Rightarrow>
    drain_state \<times> u64 \<times> watch_event list" where
  "drain_batch env batch d =
     (if dt_connected d then (let (d', sent) = send_batch env batch d in (d', 0, sent))
      else if should_retry env d then
        if de_connect_ok env then
          (let (d', sent) = send_batch env batch
                 (d\<lparr>dt_connected := True, dt_backoff_ms := MIN_BACKOFF_MS, dt_reconnect_attempts := 0,
                    dt_last_connect_attempt := None\<rparr>)
           in (d', 0, sent))
        else
          (d\<lparr>dt_reconnect_attempts := dt_reconnect_attempts d + 1,
             dt_backoff_ms := min (dt_backoff_ms d * 2) MAX_BACKOFF_MS,
             dt_last_connect_attempt := Some (de_after env)\<rparr>,
           of_nat (length batch), [])
      else (d, of_nat (length batch), []))"

section \<open>Listener\<close>

definition LISTENER_CHANNEL_CAPACITY :: usize where
  "LISTENER_CHANNEL_CAPACITY = 1024"

record listener =
  ln_queue :: "watch_event list"
  ln_closed :: bool
  ln_dropped_count :: u64

definition listener_forward :: "watch_event \<Rightarrow> listener \<Rightarrow> listener" where
  "listener_forward ev ln =
     (if ln_closed ln \<or> length (ln_queue ln) \<ge> LISTENER_CHANNEL_CAPACITY
      then ln\<lparr>ln_dropped_count := ln_dropped_count ln + 1\<rparr>
      else ln\<lparr>ln_queue := ln_queue ln @ [ev]\<rparr>)"

text \<open>
  \<open>handle_connection\<close> on the bytes one connection delivers before it ends: \<open>read_exact\<close> reports the
  end of the stream when less than a frame is left.
\<close>

function handle_connection :: "bool \<Rightarrow> u8 list \<Rightarrow> listener \<Rightarrow> listener outcome" where
  "handle_connection aligned stream ln =
     (if length stream < EVENT_SIZE then Ret ln
      else bind_outcome (event_from_bytes aligned (take EVENT_SIZE stream))
        (\<lambda>ev. handle_connection aligned (drop EVENT_SIZE stream) (listener_forward ev ln)))"
  by auto
termination
  by (relation "measure (\<lambda>(_, stream, _). length stream)") (auto simp: EVENT_SIZE_def)

declare handle_connection.simps [simp del]

section \<open>Frames survive the wire\<close>

definition event_wf :: "watch_event \<Rightarrow> bool" where
  "event_wf ev \<longleftrightarrow> length (we_padding ev) = 7"

lemma length_event_to_bytes [simp]: "event_wf ev \<Longrightarrow> length (event_to_bytes ev) = EVENT_SIZE"
  by (simp add: event_wf_def event_to_bytes_def EVENT_SIZE_def)

lemma event_roundtrip:
  assumes "event_wf ev"
  shows "event_from_bytes True (event_to_bytes ev) = Ret ev"
  using assms
  by (cases ev) (simp add: event_wf_def event_from_bytes_def event_to_bytes_def from_le_to_le nth_append)

lemma handle_connection_frame:
  assumes "event_wf ev"
  shows "handle_connection True (event_to_bytes ev @ rest) ln = handle_connection True rest (listener_forward ev ln)"
  using assms by (subst handle_connection.simps) (simp add: event_roundtrip)

lemma handle_connection_frames:
  assumes "\<forall>ev \<in> set evs. event_wf ev" "length part < EVENT_SIZE"
  shows "handle_connection True (concat (map event_to_bytes evs) @ part) ln = Ret (fold listener_forward evs ln)"
  using assms
proof (induction evs arbitrary: ln)
  case Nil
  then show ?case by (simp add: handle_connection.simps)
next
  case (Cons ev evs)
  then show ?case by (simp add: handle_connection_frame)
qed

lemma listener_forward_room:
  "\<not> ln_closed ln \<Longrightarrow> length (ln_queue ln) + length evs \<le> LISTENER_CHANNEL_CAPACITY \<Longrightarrow>
   fold listener_forward evs ln = ln\<lparr>ln_queue := ln_queue ln @ evs\<rparr>"
  by (induction evs arbitrary: ln) (auto simp: listener_forward_def)

section \<open>The signaler and the drain task together\<close>

text \<open>
  The hot path emits and the drain task takes batches, in any interleaving and with any behaviour of
  socket and clock.  \<open>pw_wire\<close> is what was written to the socket; \<open>pw_offered\<close> (every event \<open>emit\<close>
  tried to send) and \<open>pw_lost\<close> (events of a batch after a failed write) are ghosts.
\<close>

record pw_sys =
  pw_sig :: signaler
  pw_drain :: drain_state
  pw_wire :: "watch_event list"
  pw_offered :: "watch_event list"
  pw_lost :: nat

definition pw_init :: "signaler \<Rightarrow> bool \<Rightarrow> pw_sys" where
  "pw_init sg connected =
     \<lparr>pw_sig = sg, pw_drain = drain_start connected, pw_wire = [], pw_offered = [], pw_lost = 0\<rparr>"

definition pw_emit :: "usize \<Rightarrow> f64 \<Rightarrow> f64 \<Rightarrow> u64 \<Rightarrow> pw_sys \<Rightarrow> pw_sys" where
  "pw_emit slot v raw ts st =
     st\<lparr>pw_sig := emit (pw_sig st) slot v raw ts,
        pw_offered := pw_offered st @
          (case event_for (pw_sig st) slot v raw ts of None \<Rightarrow> [] | Some ev \<Rightarrow> [ev])\<rparr>"

definition pw_iterate :: "drain_env \<Rightarrow> pw_sys \<Rightarrow> pw_sys" where
  "pw_iterate env st =
     (let batch = take MAX_BATCH (sg_queue (pw_sig st));
          (d, n, sent) = drain_batch env batch (pw_drain st)
      in st\<lparr>pw_sig := (pw_sig st)\<lparr>sg_queue := drop MAX_BATCH (sg_queue (pw_sig st)),
                                  sg_dropped_count := sg_dropped_count (pw_sig st) + n\<rparr>,
            pw_drain := d, pw_wire := pw_wire st @ sent,
            pw_lost := pw_lost st + (length batch - length sent - unat n)\<rparr>)"

inductive pw_step :: "pw_sys \<Rightarrow> pw_sys \<Rightarrow> bool" where
  Emit: "pw_step st (pw_emit slot v raw ts st)"
| Drain: "sg_queue (pw_sig st) \<noteq> [] \<Longrightarrow> pw_step st (pw_iterate env st)"

lemma drain_batch_account:
  assumes "drain_batch env batch d = (d', n, sent)" "length batch \<le> MAX_BATCH"
  shows "prefix sent batch" "length sent + unat n \<le> length batch"
proof -
  have "unat (of_nat (length batch) :: u64) = length batch"
    using assms(2) by (simp add: MAX_BATCH_def unat_of_nat take_bit_eq_mod)
  with assms(1) show "prefix sent batch" "length sent + unat n \<le> length batch"
    by (auto simp: drain_batch_def send_batch_def take_is_prefix split: if_splits option.splits)
qed

lemma drain_batch_backoff:
  assumes "drain_batch env batch d = (d', n, sent)"
    and "MIN_BACKOFF_MS \<le> dt_backoff_ms d" "dt_backoff_ms d \<le> MAX_BACKOFF_MS"
  shows "MIN_BACKOFF_MS \<le> dt_backoff_ms d' \<and> dt_backoff_ms d' \<le> MAX_BACKOFF_MS"
proof -
  have "dt_backoff_ms d \<le> dt_backoff_ms d * 2"
    using assms(3) by (simp add: MAX_BACKOFF_MS_def word_le_nat_alt unat_word_ariths)
  then have "MIN_BACKOFF_MS \<le> min (dt_backoff_ms d * 2) MAX_BACKOFF_MS"
    using assms(2,3) by (simp add: MIN_BACKOFF_MS_def MAX_BACKOFF_MS_def)
  moreover have "MIN_BACKOFF_MS \<le> MAX_BACKOFF_MS" by (simp add: MIN_BACKOFF_MS_def MAX_BACKOFF_MS_def)
  ultimately show ?thesis
    using assms by (auto simp: drain_batch_def send_batch_def split: if_splits option.splits)
qed

definition pw_invar :: "pw_sys \<Rightarrow> bool" where
  "pw_invar st \<longleftrightarrow>
     subseq (pw_wire st @ sg_queue (pw_sig st)) (pw_offered st) \<and>
     length (sg_queue (pw_sig st)) \<le> DRAIN_CHANNEL_CAPACITY \<and>
     (\<exists>drops. sg_dropped_count (pw_sig st) = of_nat drops \<and>
        length (pw_offered st) = length (pw_wire st) + length (sg_queue (pw_sig st)) + pw_lost st + drops) \<and>
     MIN_BACKOFF_MS \<le> dt_backoff_ms (pw_drain st) \<and> dt_backoff_ms (pw_drain st) \<le> MAX_BACKOFF_MS"

lemma pw_invar_init:
  "sg_queue sg = [] \<Longrightarrow> sg_dropped_count sg = 0 \<Longrightarrow> pw_invar (pw_init sg connected)"
  by (auto simp: pw_invar_def pw_init_def drain_start_def MIN_BACKOFF_MS_def MAX_BACKOFF_MS_def
      intro: exI [of _ 0])

lemma pw_invar_emit:
  assumes "pw_invar st"
  shows "pw_invar (pw_emit slot v raw ts st)"
proof -
  obtain drops where drops: "sg_dropped_count (pw_sig st) = of_nat drops"
      "length (pw_offered st) = length (pw_wire st) + length (sg_queue (pw_sig st)) + pw_lost st + drops"
    using assms by (auto simp: pw_invar_def)
  have sub: "subseq (pw_wire st @ sg_queue (pw_sig st)) (pw_offered st)"
    using assms by (simp add: pw_invar_def)
  show ?thesis
  proof (cases "event_for (pw_sig st) slot v raw ts")
    case None
    then show ?thesis using assms by (simp add: pw_emit_def emit_def)
  next
    case (Some ev)
    show ?thesis
    proof (cases "sg_closed (pw_sig st) \<or> length (sg_queue (pw_sig st)) \<ge> DRAIN_CHANNEL_CAPACITY")
      case True
      then show ?thesis
        using Some assms drops subseq_rev_drop_many [OF sub, of "[ev]"]
        by (simp add: pw_invar_def pw_emit_def emit_def)
    next
      case False
      then show ?thesis
        using Some assms drops list_emb_append_mono [OF sub subseq_order.refl, of "[ev]"]
        by (simp add: pw_invar_def pw_emit_def emit_def)
    qed
  qed
qed

lemma pw_invar_iterate:
  assumes "pw_invar st"
  shows "pw_invar (pw_iterate env st)"
proof -
  let ?q = "sg_queue (pw_sig st)" and ?b = "take MAX_BATCH (sg_queue (pw_sig st))"
  obtain d n sent where run: "drain_batch env ?b (pw_drain st) = (d, n, sent)"
    by (cases "drain_batch env ?b (pw_drain st)")
  have it: "pw_iterate env st = st\<lparr>pw_sig := (pw_sig st)\<lparr>sg_queue := drop MAX_BATCH ?q,
        sg_dropped_count := sg_dropped_count (pw_sig st) + n\<rparr>,
      pw_drain := d, pw_wire := pw_wire st @ sent, pw_lost := pw_lost st + (length ?b - length sent - unat n)\<rparr>"
    by (simp add: pw_iterate_def run Let_def)
  obtain drops where drops: "sg_dropped_count (pw_sig st) = of_nat drops"
      "length (pw_offered st) = length (pw_wire st) + length ?q + pw_lost st + drops"
    using assms by (auto simp: pw_invar_def)
  have acc: "prefix sent ?b" "length sent + unat n \<le> length ?b"
    using drain_batch_account [OF run] by auto
  have "subseq (sent @ drop MAX_BATCH ?q) ?q"
    using prefix_imp_subseq [OF acc(1)] subseq_append_iff by (metis append_take_drop_id list_emb_append_mono subseq_order.refl)
  then have "subseq (pw_wire st @ sent @ drop MAX_BATCH ?q) (pw_offered st)"
    using assms by (meson pw_invar_def subseq_append' subseq_order.trans)
  moreover have "sg_dropped_count (pw_sig st) + n = of_nat (drops + unat n)"
    by (simp add: drops(1))
  moreover have "length (pw_offered st) = length (pw_wire st @ sent) + length (drop MAX_BATCH ?q) +
      (pw_lost st + (length ?b - length sent - unat n)) + (drops + unat n)"
  proof -
    have "length ?q = length ?b + length (drop MAX_BATCH ?q)" by simp
    then show ?thesis using acc(2) unfolding drops(2) length_append by linarith
  qed
  moreover have "MIN_BACKOFF_MS \<le> dt_backoff_ms d \<and> dt_backoff_ms d \<le> MAX_BACKOFF_MS"
    using drain_batch_backoff [OF run] assms by (auto simp: pw_invar_def)
  ultimately show ?thesis
    using assms unfolding it pw_invar_def by (auto intro!: exI [of _ "drops + unat n"])
qed

lemma pw_invar_steps: "pw_step\<^sup>*\<^sup>* st st' \<Longrightarrow> pw_invar st \<Longrightarrow> pw_invar st'"
  by (induction rule: rtranclp_induct) (auto elim!: pw_step.cases intro: pw_invar_emit pw_invar_iterate)

section \<open>Properties\<close>

text \<open>A write to a watched slot announces the right point: with a signaler whose reverse index was
  built from the current layout, writing the slot of a point queues exactly one event that names this
  point, its slot, its value, raw value and time, as long as the queue has room; writing an unwatched
  slot, or a slot no point owns, leaves the signaler alone.\<close>
lemma emit_announces_the_point:
  assumes "points_ok m" "sums_fit m" "allocate_layouts m = Ret (layouts, e)"
    and "iterates (cs_index (from_layouts layouts)) es" "sg_reverse_index sg = from_forward es e"
    and "\<not> sg_closed sg" "length (sg_queue sg) < DRAIN_CHANNEL_CAPACITY"
  shows "(\<not> is_watched (sg_subs sg) s \<or> (\<nexists>ch pt pid. chan_slot layouts ch (to_u8 pt) pid = Some s) \<longrightarrow>
            emit sg s v raw ts = sg) \<and>
         (is_watched (sg_subs sg) s \<and> chan_slot layouts ch (to_u8 pt) pid = Some s \<longrightarrow>
            (\<exists>ev. emit sg s v raw ts = sg\<lparr>sg_queue := sg_queue sg @ [ev]\<rparr> \<and>
               we_channel_id ev = ch \<and> from_u8 (we_point_type ev) = Some pt \<and> we_point_id ev = pid \<and>
               we_slot_index ev = of_nat s \<and> we_value_bits ev = v \<and> we_raw_bits ev = raw \<and>
               we_timestamp_ms ev = ts \<and> we_producer_id ev = sg_producer_id sg))"
proof -
  note origin = slot_origin_iff [OF assms(1-4), folded assms(5)]
  have "slot_origin (sg_reverse_index sg) s = None"
    if "\<nexists>ch pt pid. chan_slot layouts ch (to_u8 pt) pid = Some s"
    using origin that by (cases "slot_origin (sg_reverse_index sg) s") auto
  then show ?thesis
    using origin [of s ch pt pid] assms(6,7) by (auto simp: emit_def event_for_def)
qed


text \<open>C28. The listener decodes what the drain task encoded: on an aligned buffer, a connection that
  delivers whole frames, possibly followed by a frame cut short when the connection ends, forwards
  exactly the events that were written, in order, while the queue to the dispatcher has room.\<close>
theorem watch_stream_roundtrip:
  assumes "\<forall>ev \<in> set evs. event_wf ev" "length part < EVENT_SIZE" "\<not> ln_closed ln"
    and "length (ln_queue ln) + length evs \<le> LISTENER_CHANNEL_CAPACITY"
  shows "handle_connection True (concat (map event_to_bytes evs) @ part) ln =
    Ret (ln\<lparr>ln_queue := ln_queue ln @ evs\<rparr>)"
  using handle_connection_frames [OF assms(1,2)] listener_forward_room [OF assms(3,4)] by simp

definition demo_event :: watch_event where
  "demo_event = \<lparr>we_channel_id = 1, we_point_id = 2, we_point_type = 0, we_padding = replicate 7 0,
     we_value_bits = 3, we_raw_bits = 4, we_slot_index = 2, we_timestamp_ms = 5, we_producer_id = 6\<rparr>"

theorem watch_stream_roundtrip_witness:
  "event_wf demo_event \<and>
   handle_connection True (concat (map event_to_bytes [demo_event, demo_event]) @ [1, 2, 3])
     \<lparr>ln_queue = [], ln_closed = False, ln_dropped_count = 0\<rparr> =
   Ret \<lparr>ln_queue = [demo_event, demo_event], ln_closed = False, ln_dropped_count = 0\<rparr>"
proof -
  have wf: "event_wf demo_event" by (simp add: event_wf_def demo_event_def)
  then show ?thesis
    using watch_stream_roundtrip [of "[demo_event, demo_event]" "[1, 2, 3]"
        "\<lparr>ln_queue = [], ln_closed = False, ln_dropped_count = 0\<rparr>"]
    by (simp add: EVENT_SIZE_def LISTENER_CHANNEL_CAPACITY_def)
qed

lemma slot_mask_nonzero: "slot_mask i \<noteq> 0"
  using bit_slot_mask [of i "i mod 64"] by auto

lemma watched_after_set: "slot < 100032 \<Longrightarrow> is_watched (set_watched subs_create slot) slot"
  by (auto simp: is_watched_def set_watched_def subs_create_def set_word_def WATCH_WORDS_COUNT_def
      slot_mask_nonzero)

lemma demo_signaler:
  obtains layouts e es where "allocate_layouts demo_counts = Ret (layouts, e)"
    "iterates (cs_index (from_layouts layouts)) es" "chan_slot layouts 1 (to_u8 Telemetry) 2 = Some 2"
proof -
  obtain layouts e where a: "allocate_layouts demo_counts = Ret (layouts, e)"
    "chan_slot layouts 1 0 2 = Some 2"
    using demo_slots by (auto split: outcome.splits)
  then show thesis
    using iterates_layout [OF demo_counts_ok demo_sums_fit a(1)] that by auto
qed

definition demo_watch :: pw_sys where
  "demo_watch = pw_init (signaler_new (set_watched subs_create 2)
     \<lparr>rx_origins = [None, None, Some (1, Telemetry, 2)], rx_mapped_count = 1\<rparr> 0 0) True"

definition demo_failed_write :: pw_sys where
  "demo_failed_write =
     pw_iterate \<lparr>de_now = 0, de_after = 0, de_connect_ok = True, de_fail_at = Some 0\<rparr>
       (pw_emit 2 10 11 12 demo_watch)"

lemma demo_failed_write_run:
  "pw_step\<^sup>*\<^sup>* demo_watch demo_failed_write" "pw_lost demo_failed_write = 1"
  "sg_dropped_count (pw_sig demo_failed_write) = 0" "length (pw_offered demo_failed_write) = 1"
proof -
  have ev: "event_for (pw_sig demo_watch) 2 10 11 12 \<noteq> None"
    by (simp add: demo_watch_def pw_init_def signaler_new_def event_for_def watched_after_set slot_origin_def get_def)
  have q: "length (sg_queue (pw_sig (pw_emit 2 10 11 12 demo_watch))) = 1"
    "dt_connected (pw_drain demo_watch)" "pw_lost demo_watch = 0" "sg_dropped_count (pw_sig demo_watch) = 0"
    "pw_offered demo_watch = []"
    using ev by (auto simp: pw_emit_def emit_def demo_watch_def pw_init_def signaler_new_def drain_start_def
        DRAIN_CHANNEL_CAPACITY_def)
  have f: "pw_drain (pw_emit 2 10 11 12 demo_watch) = pw_drain demo_watch"
    "pw_lost (pw_emit 2 10 11 12 demo_watch) = 0"
    "sg_dropped_count (pw_sig (pw_emit 2 10 11 12 demo_watch)) = 0"
    "length (pw_offered (pw_emit 2 10 11 12 demo_watch)) = 1"
    using ev q by (auto simp: pw_emit_def emit_def demo_watch_def pw_init_def signaler_new_def DRAIN_CHANNEL_CAPACITY_def)
  have "pw_step demo_watch (pw_emit 2 10 11 12 demo_watch)" by (rule pw_step.Emit)
  moreover have "pw_step (pw_emit 2 10 11 12 demo_watch) demo_failed_write"
    unfolding demo_failed_write_def using q(1) by (intro pw_step.Drain) auto
  ultimately show "pw_step\<^sup>*\<^sup>* demo_watch demo_failed_write" by simp
  show "pw_lost demo_failed_write = 1" "sg_dropped_count (pw_sig demo_failed_write) = 0"
    "length (pw_offered demo_failed_write) = 1"
    using q f by (simp_all add: demo_failed_write_def pw_iterate_def drain_batch_def send_batch_def MAX_BATCH_def Let_def)
qed


end
