(* ===== verification/Unified_Shm.thy ===== *)
theory Unified_Shm
  imports Slot_Writer Point_Watch
begin

text \<open>
  The shared segment as its two services use it: \<open>unified_shm.rs\<close>, \<open>core/snapshot_save.rs\<close>, and
  \<open>SharedConfig\<close> of \<open>shared_config.rs\<close>, all in \<open>libs/voltage-rtdb-shm/src\<close>.  A file is its length
  and the typed view of its bytes; which calls of the operating system succeed, the clock, the process
  nonce and the layout hash (\<open>ChannelPointCounts::layout_hash\<close> with the hasher of \<open>rustc_hash\<close>) are
  arguments.  The locale \<open>cell_store\<close> is interpreted for the writer at the level of points.
\<close>

section \<open>Configuration\<close>

record shared_config =
  sc_max_instances :: usize
  sc_max_points_per_instance :: usize
  sc_max_channels :: usize
  sc_max_points_per_channel :: usize
  sc_restore_on_start :: bool

definition config_default :: shared_config where
  "config_default =
     \<lparr>sc_max_instances = 1024, sc_max_points_per_instance = 65536, sc_max_channels = 1024,
      sc_max_points_per_channel = 65536, sc_restore_on_start = True\<rparr>"

definition with_max_instances :: "usize \<Rightarrow> shared_config \<Rightarrow> shared_config" where
  "with_max_instances n c = c\<lparr>sc_max_instances := n\<rparr>"

definition with_max_points_per_instance :: "usize \<Rightarrow> shared_config \<Rightarrow> shared_config" where
  "with_max_points_per_instance n c = c\<lparr>sc_max_points_per_instance := n\<rparr>"

definition with_max_channels :: "usize \<Rightarrow> shared_config \<Rightarrow> shared_config" where
  "with_max_channels n c = c\<lparr>sc_max_channels := n\<rparr>"

definition with_max_points_per_channel :: "usize \<Rightarrow> shared_config \<Rightarrow> shared_config" where
  "with_max_points_per_channel n c = c\<lparr>sc_max_points_per_channel := n\<rparr>"

text \<open>The product is truncated to 32 bits.\<close>

definition max_slots :: "shared_config \<Rightarrow> u32 option" where
  "max_slots c = Some (of_nat (sc_max_channels c * sc_max_points_per_channel c))"

definition with_max_slots :: "usize \<Rightarrow> shared_config \<Rightarrow> shared_config" where
  "with_max_slots n c = c\<lparr>sc_max_channels := n, sc_max_points_per_channel := 1\<rparr>"

definition with_restore_on_start :: "bool \<Rightarrow> shared_config \<Rightarrow> shared_config" where
  "with_restore_on_start b c = c\<lparr>sc_restore_on_start := b\<rparr>"

section \<open>Errors and system calls\<close>

datatype io_call =
    CreateDir | OpenFile | StatFile | SetLen | MapFile | FlushMap
  | CreateTemp | WriteTemp | SyncTemp | RenameTemp | OpenSnapshot | ReadSnapshot

datatype shm_error =
    IoFailed io_call
  | TooManySlots usize u32
  | InvalidMagic u64
  | VersionMismatch u32
  | LayoutMismatch u64 u64
  | SlotCountMismatch usize usize
  | FileTruncated usize
  | FileTooSmall usize usize
  | SnapshotTooSmall usize
  | SnapshotMissing
  | SnapshotTruncated usize usize
  | SourceTooSmall usize

text \<open>Code that may panic, return an error, or return a value.\<close>

type_synonym 'a io = "(shm_error + 'a) outcome"

definition bind_io :: "'a io \<Rightarrow> ('a \<Rightarrow> 'b io) \<Rightarrow> 'b io" where
  "bind_io m f = bind_outcome m (\<lambda>r. case r of Inl e \<Rightarrow> Ret (Inl e) | Inr x \<Rightarrow> f x)"

definition ensure :: "bool \<Rightarrow> shm_error \<Rightarrow> unit io" where
  "ensure b e = Ret (if b then Inr () else Inl e)"

definition attempt :: "(io_call \<Rightarrow> bool) \<Rightarrow> io_call \<Rightarrow> unit io" where
  "attempt io_ok c = ensure (io_ok c) (IoFailed c)"

definition lift_io :: "'a outcome \<Rightarrow> 'a io" where
  "lift_io m = bind_outcome m (\<lambda>x. Ret (Inr x))"

lemma bind_io_simps [simp]:
  "bind_io (Ret (Inr x)) f = f x" "bind_io (Ret (Inl e)) f = Ret (Inl e)" "bind_io Panic f = Panic"
  by (simp_all add: bind_io_def)

lemma bind_io_Inr_iff [outcome_simps]:
  "bind_io m f = Ret (Inr y) \<longleftrightarrow> (\<exists>x. m = Ret (Inr x) \<and> f x = Ret (Inr y))"
  by (cases m rule: outcome.exhaust; simp add: bind_io_def split: sum.splits)

lemma ensure_iff [outcome_simps]: "ensure b e = Ret (Inr u) \<longleftrightarrow> b"
  by (simp add: ensure_def)

lemma ensure_True [simp]: "ensure True e = Ret (Inr ())"
  by (simp add: ensure_def)

lemma attempt_iff [outcome_simps]: "attempt io_ok c = Ret (Inr u) \<longleftrightarrow> io_ok c"
  by (simp add: attempt_def ensure_iff)

lemma lift_io_iff [outcome_simps]: "lift_io m = Ret (Inr x) \<longleftrightarrow> m = Ret x"
  by (cases m) (simp_all add: lift_io_def)

section \<open>Files\<close>

record shm_file =
  sf_len :: usize
  sf_shm :: shm

text \<open>What \<open>set_len\<close> leaves behind: zero bytes.\<close>

definition zero_header :: unified_header where
  "zero_header = \<lparr>uh_magic = 0, uh_version = 0, uh_max_slots = 0, uh_slot_count = 0,
     uh_last_update_ts = 0, uh_writer_heartbeat = 0, uh_routing_hash = 0, uh_writer_generation = 0\<rparr>"

definition zero_slot :: point_slot where
  "zero_slot = \<lparr>value_bits = 0, timestamp = 0, raw_bits = 0, seq = 0, dirty = 0\<rparr>"

definition zero_shm :: "u32 \<Rightarrow> shm" where
  "zero_shm n = \<lparr>shm_header = zero_header, shm_slots = replicate (unat n) zero_slot\<rparr>"

definition validate_shm_header :: "(channel_point_counts \<Rightarrow> u64) \<Rightarrow> unified_header \<Rightarrow>
    channel_point_counts \<Rightarrow> (u32 \<times> usize) io" where
  "validate_shm_header lhash h cp =
     bind_io (ensure (uh_magic h = UNIFIED_MAGIC) (InvalidMagic (uh_magic h)))
       (\<lambda>_. bind_io (ensure (uh_version h = UNIFIED_VERSION) (VersionMismatch (uh_version h)))
       (\<lambda>_. bind_io (ensure (lhash cp = uh_routing_hash h)
                       (LayoutMismatch (uh_routing_hash h) (lhash cp)))
       (\<lambda>_. Ret (Inr (uh_max_slots h, unat (uh_slot_count h))))))"

definition verify_slot_count :: "usize \<Rightarrow> usize \<Rightarrow> unit io" where
  "verify_slot_count file_slot_count calculated =
     ensure (calculated = file_slot_count) (SlotCountMismatch file_slot_count calculated)"

definition verify_file_min_size :: "(io_call \<Rightarrow> bool) \<Rightarrow> shm_file \<Rightarrow> unit io" where
  "verify_file_min_size io_ok f =
     bind_io (attempt io_ok StatFile) (\<lambda>_. ensure (\<not> sf_len f < 64) (FileTruncated (sf_len f)))"

definition verify_mmap_covers_slots :: "usize \<Rightarrow> u32 \<Rightarrow> unit io" where
  "verify_mmap_covers_slots mmap_len n =
     ensure (\<not> mmap_len < calculate_file_size n) (FileTooSmall mmap_len (calculate_file_size n))"

section \<open>UnifiedWriter\<close>

record unified_writer =
  uw_inner :: slot_writer
  uw_channel_layouts :: "channel_layout list"
  uw_point_watch :: "signaler option"

definition process_nonce :: "u32 \<Rightarrow> u64 \<Rightarrow> u64" where
  "process_nonce pid anchor = ucast pid * 0x9E3779B97F4A7C15 + anchor"

definition generation_seed :: "u64 \<Rightarrow> u64 \<Rightarrow> u64" where
  "generation_seed wall_nanos nonce = max ((wall_nanos + nonce) AND NOT 1) 2"

definition init_slots :: "usize \<Rightarrow> point_slot list \<Rightarrow> point_slot list" where
  "init_slots slot_count slots = map init_unwritten (take slot_count slots) @ drop slot_count slots"

definition uw_create :: "(io_call \<Rightarrow> bool) \<Rightarrow> (channel_point_counts \<Rightarrow> u64) \<Rightarrow> u64 \<Rightarrow> u64 \<Rightarrow>
    shared_config \<Rightarrow> channel_point_counts \<Rightarrow> unified_writer io" where
  "uw_create io_ok lhash wall_nanos nonce config cp =
     (let n = (case max_slots config of Some n \<Rightarrow> n | None \<Rightarrow> DEFAULT_MAX_SLOTS) in
      bind_io (lift_io (allocate_layouts cp)) (\<lambda>(layouts, slot_count).
      bind_io (ensure (\<not> slot_count > unat n) (TooManySlots slot_count n)) (\<lambda>_.
      bind_io (attempt io_ok CreateDir) (\<lambda>_.
      bind_io (attempt io_ok OpenFile) (\<lambda>_.
      bind_io (attempt io_ok SetLen) (\<lambda>_.
      bind_io (attempt io_ok MapFile) (\<lambda>_.
        let m = zero_shm n;
            h = (shm_header m)\<lparr>uh_magic := UNIFIED_MAGIC, uh_version := UNIFIED_VERSION,
                  uh_max_slots := n, uh_slot_count := of_nat slot_count, uh_last_update_ts := 0,
                  uh_writer_heartbeat := 0, uh_routing_hash := lhash cp,
                  uh_writer_generation := generation_seed wall_nanos nonce\<rparr>;
            m' = \<lparr>shm_header = h, shm_slots = init_slots slot_count (shm_slots m)\<rparr>
        in bind_io (attempt io_ok FlushMap) (\<lambda>_.
           Ret (Inr \<lparr>uw_inner = sw_from_mmap m' n slot_count, uw_channel_layouts = layouts,
                     uw_point_watch = None\<rparr>)))))))))"

definition uw_lookup :: "unified_writer \<Rightarrow> u32 \<Rightarrow> u8 \<Rightarrow> u32 \<Rightarrow> usize option" where
  "uw_lookup w channel_id ty point_id = chan_slot (uw_channel_layouts w) channel_id ty point_id"

definition uw_set_direct :: "unified_writer \<Rightarrow> usize \<Rightarrow> f64 \<Rightarrow> f64 \<Rightarrow> u64 \<Rightarrow> unified_writer outcome" where
  "uw_set_direct w slot v raw ts =
     bind_outcome (sw_set_direct (uw_inner w) slot v raw ts)
       (\<lambda>inner. Ret (w\<lparr>uw_inner := inner,
                       uw_point_watch := map_option (\<lambda>pw. emit pw slot v raw ts) (uw_point_watch w)\<rparr>))"

definition uw_set :: "unified_writer \<Rightarrow> u32 \<Rightarrow> u8 \<Rightarrow> u32 \<Rightarrow> f64 \<Rightarrow> f64 \<Rightarrow> u64 \<Rightarrow>
    (bool \<times> unified_writer) outcome" where
  "uw_set w channel_id ty point_id v raw ts =
     (case get (uw_channel_layouts w) (unat channel_id) of
        None \<Rightarrow> Ret (False, w)
      | Some layout \<Rightarrow>
          (case layout_slot layout ty point_id of
             None \<Rightarrow> Ret (False, w)
           | Some slot \<Rightarrow>
               bind_outcome (sw_set_direct (uw_inner w) slot v raw ts)
                 (\<lambda>inner. Ret (True, w\<lparr>uw_inner := inner,
                    uw_point_watch := map_option (\<lambda>pw. emit pw slot v raw ts) (uw_point_watch w)\<rparr>))))"

definition set_point_watcher :: "signaler option \<Rightarrow> unified_writer \<Rightarrow> unified_writer" where
  "set_point_watcher s w = w\<lparr>uw_point_watch := s\<rparr>"

definition uw_open_existing :: "(io_call \<Rightarrow> bool) \<Rightarrow> (channel_point_counts \<Rightarrow> u64) \<Rightarrow> shm_file option \<Rightarrow>
    channel_point_counts \<Rightarrow> unified_writer io" where
  "uw_open_existing io_ok lhash file cp =
     (case file of
        None \<Rightarrow> Ret (Inl (IoFailed OpenFile))
      | Some f \<Rightarrow>
          bind_io (attempt io_ok OpenFile) (\<lambda>_.
          bind_io (verify_file_min_size io_ok f) (\<lambda>_.
          bind_io (attempt io_ok MapFile) (\<lambda>_.
          bind_io (validate_shm_header lhash (shm_header (sf_shm f)) cp) (\<lambda>(n, slot_count).
          bind_io (verify_mmap_covers_slots (sf_len f) n) (\<lambda>_.
          bind_io (lift_io (allocate_layouts cp)) (\<lambda>(layouts, calculated).
          bind_io (verify_slot_count slot_count calculated) (\<lambda>_.
            Ret (Inr \<lparr>uw_inner = sw_from_mmap (sf_shm f) n slot_count, uw_channel_layouts = layouts,
                      uw_point_watch = None\<rparr>)))))))))"

definition uw_set_action :: "unified_writer \<Rightarrow> u32 \<Rightarrow> u8 \<Rightarrow> u32 \<Rightarrow> f64 \<Rightarrow> u64 \<Rightarrow>
    (bool \<times> unified_writer) outcome" where
  "uw_set_action w channel_id ty point_id v ts =
     (if ty \<noteq> 2 \<and> ty \<noteq> 3 then Ret (False, w) else uw_set w channel_id ty point_id v v ts)"

section \<open>UnifiedReader\<close>

record unified_reader =
  ur_inner :: slot_reader
  ur_channel_layouts :: "channel_layout list"
  ur_channel_ids :: "u32 list"

definition ur_open :: "(io_call \<Rightarrow> bool) \<Rightarrow> (channel_point_counts \<Rightarrow> u64) \<Rightarrow> shm_file option \<Rightarrow>
    channel_point_counts \<Rightarrow> unified_reader io" where
  "ur_open io_ok lhash file cp =
     (case file of
        None \<Rightarrow> Ret (Inl (IoFailed OpenFile))
      | Some f \<Rightarrow>
          bind_io (attempt io_ok OpenFile) (\<lambda>_.
          bind_io (verify_file_min_size io_ok f) (\<lambda>_.
          bind_io (attempt io_ok MapFile) (\<lambda>_.
          bind_io (validate_shm_header lhash (shm_header (sf_shm f)) cp) (\<lambda>(n, slot_count).
          bind_io (verify_mmap_covers_slots (sf_len f) n) (\<lambda>_.
          bind_io (lift_io (allocate_layouts cp)) (\<lambda>(layouts, calculated).
          bind_io (verify_slot_count slot_count calculated) (\<lambda>_.
            Ret (Inr \<lparr>ur_inner = sr_from_mmap (sf_shm f) n slot_count, ur_channel_layouts = layouts,
                      ur_channel_ids =
                        map (\<lambda>(i, _). of_nat i) (filter (\<lambda>(_, l). layout_is_valid l) (enumerate 0 layouts))\<rparr>)))))))))"

definition ur_open_raw :: "(io_call \<Rightarrow> bool) \<Rightarrow> shm_file option \<Rightarrow> unified_reader io" where
  "ur_open_raw io_ok file =
     (case file of
        None \<Rightarrow> Ret (Inl (IoFailed OpenFile))
      | Some f \<Rightarrow>
          bind_io (attempt io_ok OpenFile) (\<lambda>_.
          bind_io (verify_file_min_size io_ok f) (\<lambda>_.
          bind_io (attempt io_ok MapFile) (\<lambda>_.
          let h = shm_header (sf_shm f) in
          bind_io (ensure (uh_magic h = UNIFIED_MAGIC) (InvalidMagic (uh_magic h))) (\<lambda>_.
          bind_io (verify_mmap_covers_slots (sf_len f) (uh_max_slots h)) (\<lambda>_.
            Ret (Inr \<lparr>ur_inner = sr_from_mmap (sf_shm f) (uh_max_slots h) (unat (uh_slot_count h)),
                      ur_channel_layouts = [], ur_channel_ids = []\<rparr>)))))))"

definition ur_lookup :: "unified_reader \<Rightarrow> u32 \<Rightarrow> u8 \<Rightarrow> u32 \<Rightarrow> usize option" where
  "ur_lookup r channel_id ty point_id = chan_slot (ur_channel_layouts r) channel_id ty point_id"

text \<open>\<open>obs\<close> gives what the attempts of \<open>load_consistent\<close> observe in a slot.\<close>

definition quiet :: "point_slot \<Rightarrow> nat \<Rightarrow> observation" where
  "quiet s n = observe s"

definition ur_get_channel :: "(point_slot \<Rightarrow> nat \<Rightarrow> observation) \<Rightarrow> unified_reader \<Rightarrow> u32 \<Rightarrow> u8 \<Rightarrow> u32 \<Rightarrow>
    (f64 \<times> u64) option outcome" where
  "ur_get_channel obs r channel_id ty point_id =
     (case get (ur_channel_layouts r) (unat channel_id) of
        None \<Rightarrow> Ret None
      | Some layout \<Rightarrow>
          (case layout_slot layout ty point_id of
             None \<Rightarrow> Ret None
           | Some slot \<Rightarrow>
               bind_outcome (sr_slot_at (ur_inner r) slot)
                 (\<lambda>point. Ret (map_option (\<lambda>(v, _, ts). (v, ts)) (load_consistent (obs point))))))"

definition instance_target :: "routing_cache \<Rightarrow> u32 \<Rightarrow> u8 \<Rightarrow> u32 \<Rightarrow> (u32 \<times> u8 \<times> u32) option" where
  "instance_target rc instance_id instance_type point_id =
     (if instance_type = 0 then
        (case lookup_c2m_reverse rc instance_id point_id of
           None \<Rightarrow> None
         | Some (ch, pt, pid) \<Rightarrow> Some (ch, to_u8 pt, pid))
      else
        (case (case lookup_m2c_by_parts rc instance_id Control point_id of
                 Some t \<Rightarrow> Some t
               | None \<Rightarrow> lookup_m2c_by_parts rc instance_id Adjustment point_id) of
           None \<Rightarrow> None
         | Some t \<Rightarrow> Some (m2c_channel_id t, to_u8 (m2c_point_type t), m2c_point_id t)))"

definition ur_get_instance :: "(point_slot \<Rightarrow> nat \<Rightarrow> observation) \<Rightarrow> unified_reader \<Rightarrow> u32 \<Rightarrow> u8 \<Rightarrow> u32 \<Rightarrow>
    routing_cache \<Rightarrow> (f64 \<times> u64) option outcome" where
  "ur_get_instance obs r instance_id instance_type point_id rc =
     (case instance_target rc instance_id instance_type point_id of
        None \<Rightarrow> Ret None
      | Some (ch, ty, pid) \<Rightarrow> ur_get_channel obs r ch ty pid)"

text \<open>The pairs an iteration passes to its callback.\<close>

definition iter_channel_points :: "unified_reader \<Rightarrow> u32 \<Rightarrow> point_type \<Rightarrow> (u32 \<times> f64) list outcome" where
  "iter_channel_points r channel_id pt =
     (case get (ur_channel_layouts r) (unat channel_id) of
        None \<Rightarrow> Ret []
      | Some layout \<Rightarrow>
          fold (\<lambda>pt_id acc.
              case layout_slot layout (to_u8 pt) pt_id of
                None \<Rightarrow> acc
              | Some slot \<Rightarrow>
                  bind_outcome acc (\<lambda>xs. bind_outcome (sr_slot_at (ur_inner r) slot)
                    (\<lambda>point. Ret (xs @ [(pt_id, get_value point)]))))
            (map of_nat [0..<unat (cl_type_counts layout ! unat (to_u8 pt))]) (Ret []))"

definition iter_instance_measurements :: "(point_slot \<Rightarrow> nat \<Rightarrow> observation) \<Rightarrow> unified_reader \<Rightarrow> u32 \<Rightarrow>
    (route_key \<times> c2m_target) list \<Rightarrow> (u32 \<times> f64) list outcome" where
  "iter_instance_measurements obs r instance_id c2m_iter =
     fold (\<lambda>((ch, pt, pid), t) acc.
         if c2m_instance_id t = instance_id then
           bind_outcome acc (\<lambda>xs. bind_outcome (ur_get_channel obs r ch (to_u8 pt) pid)
             (\<lambda>res. Ret (case res of None \<Rightarrow> xs | Some (v, _) \<Rightarrow> xs @ [(c2m_point_id t, v)])))
         else acc)
       c2m_iter (Ret [])"

definition iter_instance_actions :: "(point_slot \<Rightarrow> nat \<Rightarrow> observation) \<Rightarrow> unified_reader \<Rightarrow> u32 \<Rightarrow>
    (route_key \<times> m2c_target) list \<Rightarrow> (u32 \<times> f64) list outcome" where
  "iter_instance_actions obs r instance_id m2c_iter =
     fold (\<lambda>((inst, _, inst_pt), t) acc.
         if inst = instance_id then
           bind_outcome acc (\<lambda>xs. bind_outcome
               (ur_get_channel obs r (m2c_channel_id t) (to_u8 (m2c_point_type t)) (m2c_point_id t))
             (\<lambda>res. Ret (case res of None \<Rightarrow> xs | Some (v, _) \<Rightarrow> xs @ [(inst_pt, v)])))
         else acc)
       m2c_iter (Ret [])"

section \<open>The writer at the level of points\<close>

type_synonym point_key = "u32 \<times> u8 \<times> u32"

definition uw_write :: "unified_writer \<Rightarrow> point_key \<Rightarrow> f64 \<Rightarrow> f64 \<Rightarrow> u64 \<Rightarrow> (bool \<times> unified_writer) outcome" where
  "uw_write w k v raw ts = (case k of (ch, ty, pid) \<Rightarrow> uw_set w ch ty pid v raw ts)"

definition uw_slot :: "unified_writer \<Rightarrow> point_key \<Rightarrow> usize option" where
  "uw_slot w k = (case k of (ch, ty, pid) \<Rightarrow> chan_slot (uw_channel_layouts w) ch ty pid)"

definition uw_point :: "unified_writer \<Rightarrow> point_key \<Rightarrow> slot_read option" where
  "uw_point w k = (case uw_slot w k of None \<Rightarrow> None | Some s \<Rightarrow> sw_read_slot (uw_inner w) s)"

definition uw_points :: "unified_writer \<Rightarrow> point_key set" where
  "uw_points w = {k. uw_slot w k \<noteq> None}"

text \<open>The segment serves the point counts \<open>cp\<close>: its header announces them and every point has a slot.\<close>

definition header_for :: "(channel_point_counts \<Rightarrow> u64) \<Rightarrow> channel_point_counts \<Rightarrow> u32 \<Rightarrow> usize \<Rightarrow>
    unified_header \<Rightarrow> bool" where
  "header_for lhash cp n slot_count h \<longleftrightarrow>
     uh_magic h = UNIFIED_MAGIC \<and> uh_version h = UNIFIED_VERSION \<and> uh_max_slots h = n \<and>
     uh_routing_hash h = lhash cp \<and> unat (uh_slot_count h) = slot_count"

definition uw_invar :: "(channel_point_counts \<Rightarrow> u64) \<Rightarrow> channel_point_counts \<Rightarrow> unified_writer \<Rightarrow> bool" where
  "uw_invar lhash cp w \<longleftrightarrow> points_ok cp \<and>
     allocate_layouts cp = Ret (uw_channel_layouts w, sw_slot_count (uw_inner w)) \<and>
     sw_invar (uw_inner w) \<and>
     header_for lhash cp (sw_max_slots (uw_inner w)) (sw_slot_count (uw_inner w)) (shm_header (sw_shm (uw_inner w)))"

lemma uw_slot_bound: "uw_invar lhash cp w \<Longrightarrow> uw_slot w k = Some s \<Longrightarrow> s < sw_slot_count (uw_inner w)"
  using chan_slot_separate(1) by (fastforce simp: uw_invar_def uw_slot_def split: prod.splits)

lemma uw_slot_inject: "uw_invar lhash cp w \<Longrightarrow> uw_slot w k = Some s \<Longrightarrow> uw_slot w k' = Some s \<Longrightarrow> k = k'"
  using chan_slot_separate(2) [of cp "uw_channel_layouts w" "sw_slot_count (uw_inner w)"]
  by (cases k; cases k') (fastforce simp: uw_invar_def uw_slot_def)

lemma uw_write_slot:
  "uw_write w k v raw ts =
     (case uw_slot w k of
        None \<Rightarrow> Ret (False, w)
      | Some slot \<Rightarrow> bind_outcome (uw_set_direct w slot v raw ts) (\<lambda>w'. Ret (True, w')))"
proof -
  obtain ch ty pid where k: "k = (ch, ty, pid)" by (cases k)
  show ?thesis
    by (cases "get (uw_channel_layouts w) (unat ch)"; cases "sw_set_direct (uw_inner w) (the (uw_slot w k)) v raw ts")
      (auto simp: k uw_write_def uw_slot_def uw_set_def uw_set_direct_def chan_slot_def split: option.splits)
qed

lemma sw_write_keeps:
  assumes "sw_write_slot w i v raw ts = Ret (ok, w')"
  shows "sw_max_slots w' = sw_max_slots w \<and> sw_slot_count w' = sw_slot_count w \<and>
    (\<exists>hb. shm_header (sw_shm w') = (shm_header (sw_shm w))\<lparr>uh_writer_heartbeat := hb\<rparr>)"
  using assms
  by (auto simp: sw_write_slot_def outcome_simps sw_heartbeat_def mark_dirty_slot_def sw_put_slot_def
      split: if_splits intro: exI [of _ "uh_writer_heartbeat (shm_header (sw_shm w))"])

lemma sw_set_direct_in:
  assumes "sw_invar w" "i < sw_slot_count w"
  shows "\<exists>w'. sw_set_direct w i v raw ts = Ret w' \<and> sw_invar w' \<and> sw_slot_count w' = sw_slot_count w \<and>
    sw_max_slots w' = sw_max_slots w \<and>
    (\<exists>hb. shm_header (sw_shm w') = (shm_header (sw_shm w))\<lparr>uh_writer_heartbeat := hb\<rparr>) \<and>
    sw_read_slot w' = (sw_read_slot w)(i \<mapsto> as_read (v, raw, ts))"
proof -
  obtain w' where "sw_write_slot w i v raw ts = Ret (True, w')" "sw_invar w'"
      "sw_read_slot w' = (sw_read_slot w)(i \<mapsto> as_read (v, raw, ts))"
    using sw_write_in [OF assms] by blast
  with sw_write_keeps [OF this(1)] assms(2) show ?thesis
    by (auto simp: sw_set_direct_write)
qed

lemma uw_set_direct_in:
  assumes "uw_invar lhash cp w" "s < sw_slot_count (uw_inner w)"
  shows "\<exists>w'. uw_set_direct w s v raw ts = Ret w' \<and> uw_invar lhash cp w' \<and>
    uw_channel_layouts w' = uw_channel_layouts w \<and>
    sw_slot_count (uw_inner w') = sw_slot_count (uw_inner w) \<and>
    sw_max_slots (uw_inner w') = sw_max_slots (uw_inner w) \<and>
    sw_read_slot (uw_inner w') = (sw_read_slot (uw_inner w))(s \<mapsto> as_read (v, raw, ts))"
proof -
  have "sw_invar (uw_inner w)" using assms(1) by (simp add: uw_invar_def)
  from sw_set_direct_in [OF this assms(2), of v raw ts] assms(1) show ?thesis
    by (auto simp: uw_set_direct_def uw_invar_def header_for_def)
qed

lemma uw_write_in:
  assumes "uw_invar lhash cp w" "k \<in> uw_points w"
  shows "\<exists>w'. uw_write w k v raw ts = Ret (True, w') \<and> uw_invar lhash cp w' \<and> uw_points w' = uw_points w \<and>
    uw_point w' = (uw_point w)(k \<mapsto> as_read (v, raw, ts)) \<and>
    sw_max_slots (uw_inner w') = sw_max_slots (uw_inner w)"
proof -
  obtain s where s: "uw_slot w k = Some s" using assms(2) by (auto simp: uw_points_def)
  obtain w' where w': "uw_set_direct w s v raw ts = Ret w'" "uw_invar lhash cp w'"
      "uw_channel_layouts w' = uw_channel_layouts w"
      "sw_max_slots (uw_inner w') = sw_max_slots (uw_inner w)"
      "sw_read_slot (uw_inner w') = (sw_read_slot (uw_inner w))(s \<mapsto> as_read (v, raw, ts))"
    using uw_set_direct_in [OF assms(1) uw_slot_bound [OF assms(1) s]] by blast
  have slots: "uw_slot w' = uw_slot w" by (rule ext) (simp add: uw_slot_def w'(3))
  have "uw_point w' k' = ((uw_point w)(k \<mapsto> as_read (v, raw, ts))) k'" for k'
  proof (cases "uw_slot w k'")
    case None
    then show ?thesis using s by (cases "k' = k") (simp_all add: uw_point_def slots)
  next
    case (Some t)
    then show ?thesis
      using s uw_slot_inject [OF assms(1) s, of k'] by (cases "t = s") (auto simp: uw_point_def slots w'(5))
  qed
  then have "uw_point w' = (uw_point w)(k \<mapsto> as_read (v, raw, ts))" by (rule ext)
  moreover have "uw_write w k v raw ts = Ret (True, w')" by (simp add: uw_write_slot s w'(1))
  moreover have "uw_points w' = uw_points w" by (simp add: uw_points_def slots)
  ultimately show ?thesis using w'(2,4) by blast
qed

interpretation uw: cell_store uw_write uw_point uw_points "uw_invar lhash cp" for lhash cp
proof unfold_locales
  fix w k v raw ts assume "uw_invar lhash cp w" "k \<in> uw_points w"
  then show "\<exists>w'. uw_write w k v raw ts = Ret (True, w') \<and> uw_invar lhash cp w' \<and> uw_points w' = uw_points w \<and>
      uw_point w' = (uw_point w)(k \<mapsto> as_read (v, raw, ts))"
    using uw_write_in [of lhash cp w k v raw ts] by blast
next
  fix w k v raw ts assume "k \<notin> uw_points w"
  then show "uw_write w k v raw ts = Ret (False, w)" by (simp add: uw_points_def uw_write_slot)
qed

section \<open>Creation and opening\<close>

text \<open>The segment \<open>create\<close> builds once the layout is known.\<close>

definition fresh_shm :: "u64 \<Rightarrow> u64 \<Rightarrow> u32 \<Rightarrow> usize \<Rightarrow> shm" where
  "fresh_shm hash generation n slot_count =
     \<lparr>shm_header = \<lparr>uh_magic = UNIFIED_MAGIC, uh_version = UNIFIED_VERSION, uh_max_slots = n,
        uh_slot_count = of_nat slot_count, uh_last_update_ts = 0, uh_writer_heartbeat = 0,
        uh_routing_hash = hash, uh_writer_generation = generation\<rparr>,
      shm_slots = init_slots slot_count (replicate (unat n) zero_slot)\<rparr>"

definition fresh_writer :: "u64 \<Rightarrow> u64 \<Rightarrow> u32 \<Rightarrow> channel_layout list \<Rightarrow> usize \<Rightarrow> unified_writer" where
  "fresh_writer hash generation n layouts slot_count =
     \<lparr>uw_inner = sw_from_mmap (fresh_shm hash generation n slot_count) n slot_count,
      uw_channel_layouts = layouts, uw_point_watch = None\<rparr>"

definition config_slots :: "shared_config \<Rightarrow> u32" where
  "config_slots config = (case max_slots config of Some n \<Rightarrow> n | None \<Rightarrow> DEFAULT_MAX_SLOTS)"

lemma uw_create_iff:
  "uw_create io_ok lhash wall_nanos nonce config cp = Ret (Inr w) \<longleftrightarrow>
     (\<exists>layouts e. allocate_layouts cp = Ret (layouts, e) \<and> e \<le> unat (config_slots config) \<and>
        list_all io_ok [CreateDir, OpenFile, SetLen, MapFile, FlushMap] \<and>
        w = fresh_writer (lhash cp) (generation_seed wall_nanos nonce) (config_slots config) layouts e)"
  by (auto simp: uw_create_def Let_def outcome_simps fresh_writer_def fresh_shm_def config_slots_def
      zero_shm_def zero_header_def not_less split: prod.splits)

lemma length_init_slots [simp]: "length (init_slots k xs) = length xs"
  by (simp add: init_slots_def)

lemma fresh_slot_nth:
  "i < k \<Longrightarrow> k \<le> unat n \<Longrightarrow> shm_slots (fresh_shm hash gen n k) ! i = init_unwritten zero_slot"
  by (simp add: fresh_shm_def init_slots_def nth_append)

lemma fresh_seq_even: "list_all (\<lambda>s. even (seq s)) (shm_slots (fresh_shm hash gen n k))"
  by (auto simp: fresh_shm_def init_slots_def list_all_iff init_unwritten_def zero_slot_def
      dest!: in_set_takeD in_set_dropD)

lemma fresh_sw_invar: "k \<le> unat n \<Longrightarrow> sw_invar (sw_from_mmap (fresh_shm hash gen n k) n k)"
  by (rule sw_from_mmap_invar [OF _ fresh_seq_even]) (simp add: fresh_shm_def)

text \<open>The unwritten sample.\<close>

definition unwritten :: sample where
  "unwritten = (SLOT_UNWRITTEN_BITS, SLOT_UNWRITTEN_BITS, 0)"

lemma fresh_read:
  "i < k \<Longrightarrow> k \<le> unat n \<Longrightarrow>
   sw_read_slot (sw_from_mmap (fresh_shm hash gen n k) n k) i = Some (as_read unwritten)"
  by (simp add: sw_read_slot_def read_slot_obs_def sw_from_mmap_def fresh_slot_nth try_load_quiescent
      init_unwritten_def zero_slot_def slot_sample_def as_read_def unwritten_def)

lemma fresh_invar:
  assumes "points_ok cp" "allocate_layouts cp = Ret (layouts, e)" "e \<le> unat n"
  shows "uw_invar lhash cp (fresh_writer (lhash cp) gen n layouts e)"
proof -
  have "e < 2 ^ 32" using assms(3) unat_u32_bound [of n] by (rule le_less_trans)
  from unat_of_nat_u32 [OF this] show ?thesis
    using assms fresh_sw_invar [OF assms(3)]
    by (simp add: uw_invar_def header_for_def fresh_writer_def) (simp add: sw_from_mmap_def fresh_shm_def)
qed

lemma fresh_point:
  assumes "points_ok cp" "allocate_layouts cp = Ret (layouts, e)" "e \<le> unat n"
  shows "uw_point (fresh_writer hash gen n layouts e) k =
    (if k \<in> uw_points (fresh_writer hash gen n layouts e) then Some (as_read unwritten) else None)"
proof (cases "uw_slot (fresh_writer hash gen n layouts e) k")
  case None
  then show ?thesis by (simp add: uw_point_def uw_points_def)
next
  case (Some s)
  then have "s < e"
    using chan_slot_separate(1) [OF assms(1,2)]
    by (fastforce simp: uw_slot_def fresh_writer_def split: prod.splits)
  with Some fresh_read [OF _ assms(3)] show ?thesis
    by (simp add: uw_point_def uw_points_def fresh_writer_def)
qed

lemma uw_points_iff:
  "uw_invar lhash cp w \<Longrightarrow> (ch, ty, pid) \<in> uw_points w \<longleftrightarrow>
     (\<exists>cs. map_of cp ch = Some cs \<and> unat ty < 4 \<and> pid < cs ! unat ty)"
  using chan_slot_iff [of cp "uw_channel_layouts w" "sw_slot_count (uw_inner w)" ch ty pid]
  by (simp add: uw_invar_def uw_points_def uw_slot_def)

text \<open>The file a writer has mapped.\<close>

definition uw_file :: "unified_writer \<Rightarrow> shm_file" where
  "uw_file w = \<lparr>sf_len = calculate_file_size (sw_max_slots (uw_inner w)), sf_shm = sw_shm (uw_inner w)\<rparr>"

lemma ur_open_served:
  assumes "uw_invar lhash cp w" "list_all io_ok [OpenFile, StatFile, MapFile]"
  shows "\<exists>r. ur_open io_ok lhash (Some (uw_file w)) cp = Ret (Inr r) \<and>
    ur_channel_layouts r = uw_channel_layouts w \<and>
    ur_inner r = sr_from_mmap (sw_shm (uw_inner w)) (sw_max_slots (uw_inner w)) (sw_slot_count (uw_inner w))"
  using assms
  by (simp add: ur_open_def uw_invar_def header_for_def uw_file_def attempt_def ensure_def lift_io_def
      verify_file_min_size_def validate_shm_header_def verify_mmap_covers_slots_def verify_slot_count_def
      calculate_file_size_def slot_offset_def)

lemma load_consistent_quiet: "even (seq s) \<Longrightarrow> load_consistent (quiet s) = Some (slot_sample s)"
  unfolding load_consistent_def load_attempts_Some_iff
  by (rule exI [of _ 0]) (simp add: MAX_CONSISTENCY_RETRIES_def quiet_def try_load_quiescent)

lemma ur_get_served:
  assumes "uw_invar lhash cp w" "ur_channel_layouts r = uw_channel_layouts w"
    and "ur_inner r = sr_from_mmap (sw_shm (uw_inner w)) (sw_max_slots (uw_inner w)) (sw_slot_count (uw_inner w))"
  shows "ur_get_channel quiet r ch ty pid =
    Ret (map_option (\<lambda>x. (rs_value x, rs_timestamp_ms x)) (uw_point w (ch, ty, pid)))"
proof (cases "uw_slot w (ch, ty, pid)")
  case None
  then show ?thesis
    using assms(2) by (auto simp: ur_get_channel_def uw_point_def uw_slot_def chan_slot_def split: option.splits)
next
  case (Some s)
  then obtain l where l: "get (uw_channel_layouts w) (unat ch) = Some l" "layout_slot l ty pid = Some s"
    by (auto simp: uw_slot_def chan_slot_def split: option.splits)
  have s: "s < sw_slot_count (uw_inner w)" by (rule uw_slot_bound [OF assms(1) Some])
  then have len: "s < length (shm_slots (sw_shm (uw_inner w)))" and
    even: "even (seq (shm_slots (sw_shm (uw_inner w)) ! s))"
    using assms(1) by (auto simp: uw_invar_def sw_invar_def list_all_length)
  have "ur_get_channel quiet r ch ty pid =
      Ret (Some (value_bits (shm_slots (sw_shm (uw_inner w)) ! s), timestamp (shm_slots (sw_shm (uw_inner w)) ! s)))"
    using l s len load_consistent_quiet [OF even]
    by (simp add: ur_get_channel_def assms(2,3) sr_slot_at_def sr_from_mmap_def index_def slot_sample_def)
  then show ?thesis
    using Some s try_load_quiescent [OF even]
    by (simp add: uw_point_def sw_read_slot_def read_slot_obs_def slot_sample_def)
qed

lemma run_writes_max_slots:
  assumes "uw_invar lhash cp w" "run_writes uw_write w ws = Ret w'"
  shows "sw_max_slots (uw_inner w') = sw_max_slots (uw_inner w)"
  using assms
proof (induction ws arbitrary: w)
  case (Cons e ws)
  obtain k v raw ts where e: "e = (k, v, raw, ts)" by (cases e)
  show ?case
  proof (cases "k \<in> uw_points w")
    case True
    then show ?thesis
      using uw_write_in [OF Cons.prems(1) True, of v raw ts] Cons by (auto simp: e)
  next
    case False
    then show ?thesis
      using uw.write_out [OF Cons.prems(1) False] Cons by (auto simp: e)
  qed
qed simp

section \<open>Ownership\<close>

text \<open>A write to one point leaves the cache line of every point of the other service alone.\<close>

lemma uw_slot_line:
  assumes "uw_invar lhash cp w" "uw_slot w (ch, ty, pid) = Some s" "uw_slot w (ch', ty', pid') = Some s'"
    and "unat ty < 2 \<longleftrightarrow> \<not> unat ty' < 2"
  shows "line s \<noteq> line s'"
  using chan_slot_separate(3) [of cp "uw_channel_layouts w" "sw_slot_count (uw_inner w)" ch ty pid s ch' ty' pid' s']
    assms by (auto simp: uw_invar_def uw_slot_def)

lemma sw_set_direct_slots:
  "sw_set_direct w i v raw ts = Ret w' \<Longrightarrow>
     shm_slots (sw_shm w') = (shm_slots (sw_shm w))[i := slot_set (shm_slots (sw_shm w) ! i) v raw ts]"
  by (auto simp: sw_set_direct_def slot_at_def index_def outcome_simps sw_heartbeat_def mark_dirty_slot_def
      sw_put_slot_def split: if_splits)

section \<open>Properties\<close>

text \<open>C2. What one service writes the other reads.  After \<open>create\<close> has built a segment and any
  sequence of \<open>set\<close> calls has run (for existing and for unknown points), a reader that opens the file
  with the same point counts is accepted and \<open>get_channel\<close> returns, for every declared point, the
  value and time of the newest write to that very point, or the unwritten NaN when there was none,
  and \<open>None\<close> for every other key.\<close>
theorem written_points_are_read_back:
  assumes "points_ok cp" "uw_create io_ok lhash wall_nanos nonce config cp = Ret (Inr w0)"
  shows "\<exists>w r. run_writes uw_write w0 ws = Ret w \<and>
    ur_open (\<lambda>_. True) lhash (Some (uw_file w)) cp = Ret (Inr r) \<and>
    (\<forall>ch ty pid. ur_get_channel quiet r ch ty pid =
       Ret (if \<exists>cs. map_of cp ch = Some cs \<and> unat ty < 4 \<and> pid < cs ! unat ty
            then (case newest ws (ch, ty, pid) of
                    None \<Rightarrow> Some (SLOT_UNWRITTEN_BITS, 0)
                  | Some (v, raw, ts) \<Rightarrow> Some (v, ts))
            else None))"
proof -
  obtain layouts e where c: "allocate_layouts cp = Ret (layouts, e)" "e \<le> unat (config_slots config)"
      "w0 = fresh_writer (lhash cp) (generation_seed wall_nanos nonce) (config_slots config) layouts e"
    using assms(2) by (auto simp: uw_create_iff)
  have w0: "uw_invar lhash cp w0" unfolding c(3) by (rule fresh_invar [OF assms(1) c(1,2)])
  obtain w where w: "run_writes uw_write w0 ws = Ret w" "uw_invar lhash cp w" "uw_points w = uw_points w0"
      "\<And>k. uw_point w k = (if k \<in> uw_points w0 then
         (case newest ws k of None \<Rightarrow> uw_point w0 k | Some x \<Rightarrow> Some (as_read x)) else uw_point w0 k)"
    using uw.writes_effect [OF w0, of ws] by blast
  obtain r where r: "ur_open (\<lambda>_. True) lhash (Some (uw_file w)) cp = Ret (Inr r)"
      "ur_channel_layouts r = uw_channel_layouts w"
      "ur_inner r = sr_from_mmap (sw_shm (uw_inner w)) (sw_max_slots (uw_inner w)) (sw_slot_count (uw_inner w))"
    using ur_open_served [OF w(2), of "\<lambda>_. True"] by auto
  have "ur_get_channel quiet r ch ty pid =
      Ret (if (ch, ty, pid) \<in> uw_points w0
           then (case newest ws (ch, ty, pid) of
                   None \<Rightarrow> Some (SLOT_UNWRITTEN_BITS, 0) | Some (v, raw, ts) \<Rightarrow> Some (v, ts))
           else None)" for ch ty pid
    unfolding ur_get_served [OF w(2) r(2,3)] w(4)
    by (cases "newest ws (ch, ty, pid)")
      (auto simp: c(3) fresh_point [OF assms(1) c(1,2)] as_read_def unwritten_def)
  then show ?thesis using w(1) r(1) uw_points_iff [OF w0] by auto
qed


text \<open>C24. Opening validates the file: \<open>open\<close> accepts exactly the files that hold a header, carry the
  magic number, the version and the layout hash of the caller's point counts, are long enough for
  their declared \<open>max_slots\<close>, and whose slot count is the one the caller computes; every slot below
  \<open>max_slots\<close> of an accepted file lies inside the mapping.\<close>
theorem open_accepts_exactly:
  "((\<exists>r. ur_open (\<lambda>_. True) lhash (Some f) cp = Ret (Inr r)) \<longleftrightarrow>
      64 \<le> sf_len f \<and> uh_magic (shm_header (sf_shm f)) = UNIFIED_MAGIC \<and>
      uh_version (shm_header (sf_shm f)) = UNIFIED_VERSION \<and>
      uh_routing_hash (shm_header (sf_shm f)) = lhash cp \<and>
      calculate_file_size (uh_max_slots (shm_header (sf_shm f))) \<le> sf_len f \<and>
      (\<exists>layouts. allocate_layouts cp = Ret (layouts, unat (uh_slot_count (shm_header (sf_shm f)))))) \<and>
   (ur_open (\<lambda>_. True) lhash (Some f) cp = Ret (Inr r) \<and> s < unat (sr_max_slots (ur_inner r)) \<longrightarrow>
      slot_offset + (s + 1) * SLOT_SIZE \<le> sf_len f)"
proof
  show "(\<exists>r. ur_open (\<lambda>_. True) lhash (Some f) cp = Ret (Inr r)) \<longleftrightarrow>
      64 \<le> sf_len f \<and> uh_magic (shm_header (sf_shm f)) = UNIFIED_MAGIC \<and>
      uh_version (shm_header (sf_shm f)) = UNIFIED_VERSION \<and>
      uh_routing_hash (shm_header (sf_shm f)) = lhash cp \<and>
      calculate_file_size (uh_max_slots (shm_header (sf_shm f))) \<le> sf_len f \<and>
      (\<exists>layouts. allocate_layouts cp = Ret (layouts, unat (uh_slot_count (shm_header (sf_shm f)))))"
    by (auto simp: ur_open_def outcome_simps verify_file_min_size_def validate_shm_header_def
        verify_mmap_covers_slots_def verify_slot_count_def not_less split: prod.splits)
  have "slot_offset + (s + 1) * SLOT_SIZE \<le> sf_len f"
    if r: "ur_open (\<lambda>_. True) lhash (Some f) cp = Ret (Inr r)" and s: "s < unat (sr_max_slots (ur_inner r))"
  proof -
    let ?n = "unat (uh_max_slots (shm_header (sf_shm f)))"
    have "calculate_file_size (uh_max_slots (shm_header (sf_shm f))) \<le> sf_len f"
      and "sr_max_slots (ur_inner r) = uh_max_slots (shm_header (sf_shm f))"
      using r by (auto simp: ur_open_def outcome_simps verify_file_min_size_def validate_shm_header_def
          verify_mmap_covers_slots_def verify_slot_count_def sr_from_mmap_def not_less split: prod.splits)
    moreover from this s have "(s + 1) * SLOT_SIZE \<le> ?n * SLOT_SIZE"
      by (intro mult_le_mono1) simp
    ultimately show ?thesis by (simp add: calculate_file_size_def)
  qed
  then show "ur_open (\<lambda>_. True) lhash (Some f) cp = Ret (Inr r) \<and> s < unat (sr_max_slots (ur_inner r)) \<longrightarrow>
      slot_offset + (s + 1) * SLOT_SIZE \<le> sf_len f" by blast
qed

definition demo_config :: shared_config where
  "demo_config = with_max_slots 16 config_default"

lemma demo_config_slots: "config_slots demo_config = 16"
  by (simp add: config_slots_def demo_config_def max_slots_def with_max_slots_def)

lemma demo_total: "\<exists>layouts. allocate_layouts demo_counts = Ret (layouts, 11) \<and>
    chan_slot layouts 1 0 2 = Some 2 \<and> chan_slot layouts 1 2 0 = Some 4"
proof -
  have "case allocate_layouts demo_counts of Ret (layouts, e) \<Rightarrow> e = 11 | Panic \<Rightarrow> False" by code_simp
  with demo_slots show ?thesis by (auto split: outcome.splits)
qed

definition demo_layouts :: "channel_layout list" where
  "demo_layouts = (case allocate_layouts demo_counts of Ret (l, _) \<Rightarrow> l | Panic \<Rightarrow> [])"

lemma demo_allocate: "allocate_layouts demo_counts = Ret (demo_layouts, 11)"
  using demo_total by (auto simp: demo_layouts_def)

definition demo_shm_writer :: unified_writer where
  "demo_shm_writer = fresh_writer 7 (generation_seed 100 3) 16 demo_layouts 11"

lemma demo_create: "uw_create (\<lambda>_. True) (\<lambda>_. 7) 100 3 demo_config demo_counts = Ret (Inr demo_shm_writer)"
  by (simp add: uw_create_iff demo_allocate demo_config_slots demo_shm_writer_def)

lemma demo_shm_invar: "uw_invar (\<lambda>_. 7) demo_counts demo_shm_writer"
  using fresh_invar [OF demo_counts_ok demo_allocate, of 16 "\<lambda>_. 7"] by (simp add: demo_shm_writer_def)

theorem written_points_are_read_back_witness:
  "\<exists>w r. run_writes uw_write demo_shm_writer [((1, 0, 2), 5, 6, 7), ((9, 0, 0), 1, 1, 1), ((1, 0, 2), 8, 9, 10)] = Ret w \<and>
     ur_open (\<lambda>_. True) (\<lambda>_. 7) (Some (uw_file w)) demo_counts = Ret (Inr r) \<and>
     ur_get_channel quiet r 1 0 2 = Ret (Some (8, 10)) \<and>
     ur_get_channel quiet r 1 0 1 = Ret (Some (SLOT_UNWRITTEN_BITS, 0)) \<and> ur_get_channel quiet r 9 0 0 = Ret None"
proof -
  let ?ws = "[((1, 0, 2), 5, 6, 7), ((9, 0, 0), 1, 1, 1), ((1, 0, 2), 8, 9, 10)] :: (point_key \<times> sample) list"
  obtain w r where wr: "run_writes uw_write demo_shm_writer ?ws = Ret w"
      "ur_open (\<lambda>_. True) (\<lambda>_. 7) (Some (uw_file w)) demo_counts = Ret (Inr r)" and
    g: "\<And>ch ty pid. ur_get_channel quiet r ch ty pid =
       Ret (if \<exists>cs. map_of demo_counts ch = Some cs \<and> unat ty < 4 \<and> pid < cs ! unat ty
            then (case newest ?ws (ch, ty, pid) of
                    None \<Rightarrow> Some (SLOT_UNWRITTEN_BITS, 0) | Some (v, raw, ts) \<Rightarrow> Some (v, ts))
            else None)"
    using written_points_are_read_back [OF demo_counts_ok demo_create, of ?ws] by blast
  have "ur_get_channel quiet r 1 0 2 = Ret (Some (8, 10))" "ur_get_channel quiet r 9 0 0 = Ret None"
    "ur_get_channel quiet r 1 0 1 = Ret (Some (SLOT_UNWRITTEN_BITS, 0))"
    by (simp_all add: g demo_counts_def newest_def)
  with wr show ?thesis by blast
qed


theorem open_accepts_exactly_witness:
  "\<exists>r. ur_open (\<lambda>_. True) (\<lambda>_. 7) (Some (uw_file demo_shm_writer)) demo_counts = Ret (Inr r) \<and>
     slot_offset + (15 + 1) * SLOT_SIZE \<le> sf_len (uw_file demo_shm_writer)"
proof -
  obtain r where r: "ur_open (\<lambda>_. True) (\<lambda>_. 7) (Some (uw_file demo_shm_writer)) demo_counts = Ret (Inr r)"
      "ur_inner r = sr_from_mmap (sw_shm (uw_inner demo_shm_writer)) (sw_max_slots (uw_inner demo_shm_writer))
         (sw_slot_count (uw_inner demo_shm_writer))"
    using ur_open_served [OF demo_shm_invar, of "\<lambda>_. True"] by auto
  then have "15 < unat (sr_max_slots (ur_inner r))"
    by (simp add: sr_from_mmap_def demo_shm_writer_def fresh_writer_def sw_from_mmap_def)
  then show ?thesis
    using r(1) open_accepts_exactly [of "\<lambda>_. 7" "uw_file demo_shm_writer" demo_counts r 15] by blast
qed

end
