(* ===== verification/Snapshot.thy ===== *)
theory Snapshot
  imports Unified_Shm
begin

text \<open>
  Snapshots of the segment: \<open>core/snapshot_save.rs\<close> (saving, also through \<open>SlotWriter\<close>,
  \<open>SlotReader\<close> and \<open>UnifiedWriter\<close>) and \<open>UnifiedWriter::restore_from_snapshot\<close> of
  \<open>unified_shm.rs\<close>, down to the bytes of the file.  What the one seqlock attempt per slot observes
  while saving is an argument.
\<close>

section \<open>Bytes\<close>

text \<open>The first 64 bytes of the mapping; the padding was zeroed by \<open>create\<close>.\<close>

definition header_bytes :: "unified_header \<Rightarrow> u8 list" where
  "header_bytes h =
     to_le 8 (uh_magic h) @ to_le 4 (uh_version h) @ to_le 4 (uh_max_slots h) @
     to_le 4 (uh_slot_count h) @ replicate 4 0 @ to_le 8 (uh_last_update_ts h) @
     to_le 8 (uh_writer_heartbeat h) @ to_le 8 (uh_routing_hash h) @ to_le 8 (uh_writer_generation h) @
     replicate 8 0"

definition slot_snapshot_bytes :: "f64 \<Rightarrow> f64 \<Rightarrow> u64 \<Rightarrow> u8 list" where
  "slot_snapshot_bytes v raw ts =
     to_le 8 v @ to_le 8 ts @ to_le 8 raw @ to_le 4 (2 :: u32) @ to_le 4 (0 :: u32)"

definition slot_unwritten_bytes :: "u8 list" where
  "slot_unwritten_bytes =
     to_le 8 SLOT_UNWRITTEN_BITS @ replicate 8 0 @ to_le 8 SLOT_UNWRITTEN_BITS @ replicate 8 0"

section \<open>Saving\<close>

definition slot_bytes :: "observation \<Rightarrow> u8 list" where
  "slot_bytes ob =
     (case try_load_consistent ob of
        Some (v, raw, ts) \<Rightarrow> slot_snapshot_bytes v raw ts
      | None \<Rightarrow> slot_unwritten_bytes)"

definition save_snapshot_impl :: "(io_call \<Rightarrow> bool) \<Rightarrow> (usize \<Rightarrow> observation) \<Rightarrow> usize \<Rightarrow> unified_header \<Rightarrow>
    usize \<Rightarrow> u8 list io" where
  "save_snapshot_impl io_ok obs mmap_len h slot_count =
     bind_io (ensure (\<not> mmap_len < slot_offset + slot_count * SLOT_SIZE) (SourceTooSmall mmap_len)) (\<lambda>_.
     bind_io (attempt io_ok CreateDir) (\<lambda>_.
     bind_io (attempt io_ok CreateTemp) (\<lambda>_.
     bind_io (attempt io_ok WriteTemp) (\<lambda>_.
     bind_io (attempt io_ok SyncTemp) (\<lambda>_.
     bind_io (attempt io_ok RenameTemp) (\<lambda>_.
       Ret (Inr (header_bytes h @ concat (map (\<lambda>i. slot_bytes (obs i)) [0..<slot_count])))))))))"

text \<open>The snapshot file afterwards: replaced by the final rename, or still the old one.\<close>

definition snapshot_file :: "u8 list io \<Rightarrow> u8 list option \<Rightarrow> u8 list option" where
  "snapshot_file res old = (case res of Ret (Inr bytes) \<Rightarrow> Some bytes | _ \<Rightarrow> old)"

definition sw_save_snapshot :: "(io_call \<Rightarrow> bool) \<Rightarrow> (usize \<Rightarrow> observation) \<Rightarrow> slot_writer \<Rightarrow> u8 list io" where
  "sw_save_snapshot io_ok obs w =
     bind_io (attempt io_ok FlushMap) (\<lambda>_.
       save_snapshot_impl io_ok obs (calculate_file_size (sw_max_slots w)) (shm_header (sw_shm w))
         (unat (uh_slot_count (shm_header (sw_shm w)))))"

definition sr_save_snapshot :: "(io_call \<Rightarrow> bool) \<Rightarrow> (usize \<Rightarrow> observation) \<Rightarrow> usize \<Rightarrow> slot_reader \<Rightarrow> u8 list io" where
  "sr_save_snapshot io_ok obs mmap_len r =
     save_snapshot_impl io_ok obs mmap_len (shm_header (sr_shm r)) (sr_slot_count r)"

definition uw_save_snapshot :: "(io_call \<Rightarrow> bool) \<Rightarrow> (usize \<Rightarrow> observation) \<Rightarrow> unified_writer \<Rightarrow> u8 list io" where
  "uw_save_snapshot io_ok obs w =
     bind_io (attempt io_ok FlushMap) (\<lambda>_. sw_save_snapshot io_ok obs (uw_inner w))"

section \<open>Restoring\<close>

definition read_ne_bytes :: "nat \<Rightarrow> u8 list \<Rightarrow> usize \<Rightarrow> u8 list io" where
  "read_ne_bytes n buf start =
     (case get_slice buf start (start + n) of None \<Rightarrow> Ret (Inl SnapshotMissing) | Some bs \<Rightarrow> Ret (Inr bs))"

definition read_u64_ne :: "u8 list \<Rightarrow> usize \<Rightarrow> u64 io" where
  "read_u64_ne buf start = bind_io (read_ne_bytes 8 buf start) (\<lambda>bs. Ret (Inr (from_le bs)))"

definition read_u32_ne :: "u8 list \<Rightarrow> usize \<Rightarrow> u32 io" where
  "read_u32_ne buf start = bind_io (read_ne_bytes 4 buf start) (\<lambda>bs. Ret (Inr (from_le bs)))"

fun restore_slots :: "u8 list \<Rightarrow> usize list \<Rightarrow> unified_writer \<Rightarrow> unified_writer io" where
  "restore_slots snap [] w = Ret (Inr w)"
| "restore_slots snap (i # is) w =
     bind_io (lift_io (slice_of snap (slot_offset + i * SLOT_SIZE) (slot_offset + i * SLOT_SIZE + SLOT_SIZE)))
       (\<lambda>sb.
     bind_io (read_u64_ne sb 0) (\<lambda>v.
     bind_io (read_u64_ne sb 8) (\<lambda>ts.
     bind_io (read_u64_ne sb 16) (\<lambda>raw.
       if f64_is_nan v \<and> f64_is_nan raw then restore_slots snap is w
       else if \<not> f64_is_finite v \<or> \<not> f64_is_finite raw then restore_slots snap is w
       else bind_io (lift_io (uw_set_direct w i v raw ts)) (\<lambda>w'. restore_slots snap is w')))))"

definition touch_header :: "u64 \<Rightarrow> unified_writer \<Rightarrow> unified_writer" where
  "touch_header now_ms w =
     w\<lparr>uw_inner := (uw_inner w)\<lparr>sw_shm := (sw_shm (uw_inner w))\<lparr>shm_header :=
       (shm_header (sw_shm (uw_inner w)))\<lparr>uh_last_update_ts := now_ms, uh_writer_heartbeat := now_ms\<rparr>\<rparr>\<rparr>\<rparr>"

definition restore_from_snapshot :: "(io_call \<Rightarrow> bool) \<Rightarrow> (channel_point_counts \<Rightarrow> u64) \<Rightarrow> u64 \<Rightarrow> u64 \<Rightarrow> u64 \<Rightarrow>
    shared_config \<Rightarrow> u8 list option \<Rightarrow> channel_point_counts \<Rightarrow> unified_writer io" where
  "restore_from_snapshot io_ok lhash wall_nanos nonce now_ms config file cp =
     bind_io (uw_create io_ok lhash wall_nanos nonce config cp) (\<lambda>w.
     case file of
       None \<Rightarrow> Ret (Inl (IoFailed OpenSnapshot))
     | Some snap \<Rightarrow>
         bind_io (attempt io_ok OpenSnapshot) (\<lambda>_.
         bind_io (attempt io_ok ReadSnapshot) (\<lambda>_.
         bind_io (ensure (\<not> length snap < 64) (SnapshotTooSmall (length snap))) (\<lambda>_.
         bind_io (read_u64_ne snap 0) (\<lambda>snap_magic.
         bind_io (read_u32_ne snap 8) (\<lambda>snap_version.
         bind_io (read_u32_ne snap 16) (\<lambda>snap_slot_count.
         bind_io (read_u64_ne snap 40) (\<lambda>snap_routing_hash.
         bind_io (ensure (snap_magic = UNIFIED_MAGIC) (InvalidMagic snap_magic)) (\<lambda>_.
         bind_io (ensure (snap_version = UNIFIED_VERSION) (VersionMismatch snap_version)) (\<lambda>_.
           let slots_to_restore = min (unat snap_slot_count) (sw_slot_count (uw_inner w)) in
           if slots_to_restore = 0 then Ret (Inr w)
           else
             bind_io (ensure (\<not> length snap < slot_offset + slots_to_restore * SLOT_SIZE)
                 (SnapshotTruncated (slot_offset + slots_to_restore * SLOT_SIZE) (length snap))) (\<lambda>_.
             bind_io (restore_slots snap [0..<slots_to_restore] w) (\<lambda>w'.
               Ret (Inr (touch_header now_ms w'))))))))))))))"

section \<open>What the bytes say\<close>

lemma length_header_bytes [simp]: "length (header_bytes h) = 64"
  by (simp add: header_bytes_def)

lemma length_slot_bytes [simp]: "length (slot_bytes ob) = 32"
  by (auto simp: slot_bytes_def slot_snapshot_bytes_def slot_unwritten_bytes_def split: option.splits prod.splits)

lemma header_fields:
  "read_u64_ne (header_bytes h @ rest) 0 = Ret (Inr (uh_magic h))"
  "read_u32_ne (header_bytes h @ rest) 8 = Ret (Inr (uh_version h))"
  "read_u32_ne (header_bytes h @ rest) 16 = Ret (Inr (uh_slot_count h))"
  "read_u64_ne (header_bytes h @ rest) 40 = Ret (Inr (uh_routing_hash h))"
  by (simp_all add: read_u64_ne_def read_u32_ne_def read_ne_bytes_def get_slice_def header_bytes_def from_le_to_le)

text \<open>The sample a slot of the snapshot stands for: what was observed, or the unwritten one.\<close>

definition saved_sample :: "observation \<Rightarrow> sample" where
  "saved_sample ob = (case try_load_consistent ob of Some x \<Rightarrow> x | None \<Rightarrow> unwritten)"

lemma slot_fields:
  "read_u64_ne (slot_bytes ob) 0 = Ret (Inr (fst (saved_sample ob)))"
  "read_u64_ne (slot_bytes ob) 8 = Ret (Inr (snd (snd (saved_sample ob))))"
  "read_u64_ne (slot_bytes ob) 16 = Ret (Inr (fst (snd (saved_sample ob))))"
proof -
  have z: "from_le (replicate 8 0) = (0 :: u64)" by (simp add: numeral_eq_Suc)
  show "read_u64_ne (slot_bytes ob) 0 = Ret (Inr (fst (saved_sample ob)))"
    "read_u64_ne (slot_bytes ob) 8 = Ret (Inr (snd (snd (saved_sample ob))))"
    "read_u64_ne (slot_bytes ob) 16 = Ret (Inr (fst (snd (saved_sample ob))))"
    by (cases "try_load_consistent ob";
        force simp: read_u64_ne_def read_ne_bytes_def get_slice_def slot_bytes_def slot_snapshot_bytes_def
          slot_unwritten_bytes_def saved_sample_def unwritten_def from_le_to_le z)+
qed

lemma chunk_concat:
  "\<forall>x \<in> set xs. length x = k \<Longrightarrow> i < length xs \<Longrightarrow> take k (drop (i * k) (concat xs)) = xs ! i"
proof (induction xs arbitrary: i)
  case (Cons x xs)
  then show ?case
    by (cases i) (auto simp: drop_append)
qed simp

lemma length_concat_const: "\<forall>x \<in> set xs. length x = k \<Longrightarrow> length (concat xs) = length xs * k"
  by (induction xs) auto

text \<open>The bytes of a snapshot file.\<close>

definition snapshot_bytes :: "unified_header \<Rightarrow> (usize \<Rightarrow> observation) \<Rightarrow> usize \<Rightarrow> u8 list" where
  "snapshot_bytes h obs n = header_bytes h @ concat (map (\<lambda>i. slot_bytes (obs i)) [0..<n])"

lemma length_snapshot_bytes: "length (snapshot_bytes h obs n) = slot_offset + n * SLOT_SIZE"
  using length_concat_const [of "map (\<lambda>i. slot_bytes (obs i)) [0..<n]" 32]
  by (simp add: snapshot_bytes_def slot_offset_def SLOT_SIZE_def)

lemma snapshot_slice:
  assumes "i < n"
  shows "slice_of (snapshot_bytes h obs n) (slot_offset + i * SLOT_SIZE) (slot_offset + i * SLOT_SIZE + SLOT_SIZE)
    = Ret (slot_bytes (obs i))"
proof -
  have "slot_offset + i * SLOT_SIZE + SLOT_SIZE \<le> length (snapshot_bytes h obs n)"
    unfolding length_snapshot_bytes using assms by (simp add: SLOT_SIZE_def)
  moreover have "drop (slot_offset + i * SLOT_SIZE) (snapshot_bytes h obs n) =
      drop (i * 32) (concat (map (\<lambda>i. slot_bytes (obs i)) [0..<n]))"
    by (simp add: snapshot_bytes_def slot_offset_def SLOT_SIZE_def)
  ultimately show ?thesis
    using chunk_concat [of "map (\<lambda>i. slot_bytes (obs i)) [0..<n]" 32 i] assms
    by (simp add: slice_of_in_range SLOT_SIZE_def)
qed

lemma uw_save_snapshot_iff:
  assumes "uw_invar lhash cp w"
  shows "uw_save_snapshot io_ok obs w = Ret (Inr bytes) \<longleftrightarrow>
    list_all io_ok [FlushMap, CreateDir, CreateTemp, WriteTemp, SyncTemp, RenameTemp] \<and>
    sw_slot_count (uw_inner w) \<le> unat (sw_max_slots (uw_inner w)) \<and>
    bytes = snapshot_bytes (shm_header (sw_shm (uw_inner w))) obs (sw_slot_count (uw_inner w))"
proof -
  have "unat (uh_slot_count (shm_header (sw_shm (uw_inner w)))) = sw_slot_count (uw_inner w)"
    using assms by (simp add: uw_invar_def header_for_def)
  then show ?thesis
    by (auto simp: uw_save_snapshot_def sw_save_snapshot_def save_snapshot_impl_def outcome_simps
        snapshot_bytes_def calculate_file_size_def SLOT_SIZE_def not_less)
qed

section \<open>Restoring slot by slot\<close>

definition restorable :: "sample \<Rightarrow> bool" where
  "restorable x \<longleftrightarrow> f64_is_finite (fst x) \<and> f64_is_finite (fst (snd x))"

lemma restore_slots_snapshot:
  assumes "uw_invar lhash cp w" "\<forall>i \<in> set is. i < n \<and> i < sw_slot_count (uw_inner w)"
  shows "\<exists>w'. restore_slots (snapshot_bytes h obs n) is w = Ret (Inr w') \<and> uw_invar lhash cp w' \<and>
    uw_channel_layouts w' = uw_channel_layouts w \<and>
    sw_slot_count (uw_inner w') = sw_slot_count (uw_inner w) \<and>
    (\<forall>j. sw_read_slot (uw_inner w') j =
       (if j \<in> set is \<and> restorable (saved_sample (obs j)) then Some (as_read (saved_sample (obs j)))
        else sw_read_slot (uw_inner w) j))"
  using assms
proof (induction "is" arbitrary: w)
  case Nil
  then show ?case by simp
next
  case (Cons i "is")
  obtain v raw ts where x: "saved_sample (obs i) = (v, raw, ts)" by (cases "saved_sample (obs i)")
  have fields: "read_u64_ne (slot_bytes (obs i)) 0 = Ret (Inr v)" "read_u64_ne (slot_bytes (obs i)) 8 = Ret (Inr ts)"
    "read_u64_ne (slot_bytes (obs i)) 16 = Ret (Inr raw)"
    by (simp_all add: slot_fields x)
  have slice: "slice_of (snapshot_bytes h obs n) (slot_offset + i * SLOT_SIZE) (slot_offset + i * SLOT_SIZE + SLOT_SIZE)
    = Ret (slot_bytes (obs i))"
    using Cons.prems(2) by (intro snapshot_slice) simp
  show ?case
  proof (cases "restorable (v, raw, ts)")
    case True
    have "i < sw_slot_count (uw_inner w)" using Cons.prems(2) by simp
    from uw_set_direct_in [OF Cons.prems(1) this, of v raw ts]
    obtain w1 where w1: "uw_set_direct w i v raw ts = Ret w1" "uw_invar lhash cp w1"
        "uw_channel_layouts w1 = uw_channel_layouts w"
        "sw_slot_count (uw_inner w1) = sw_slot_count (uw_inner w)"
        "sw_read_slot (uw_inner w1) = (sw_read_slot (uw_inner w))(i \<mapsto> as_read (v, raw, ts))"
      by blast
    have "restore_slots (snapshot_bytes h obs n) (i # is) w = restore_slots (snapshot_bytes h obs n) is w1"
      using True nan_not_finite by (auto simp: lift_io_def slice fields w1(1) restorable_def)
    with Cons.IH [OF w1(2)] Cons.prems(2) True show ?thesis
      by (auto simp: w1(3-5) x)
  next
    case False
    then have "restore_slots (snapshot_bytes h obs n) (i # is) w = restore_slots (snapshot_bytes h obs n) is w"
      by (auto simp: lift_io_def slice fields restorable_def)
    with Cons.IH [OF Cons.prems(1)] Cons.prems(2) False show ?thesis
      by (auto simp: x)
  qed
qed

lemma touch_header_keeps:
  "uw_invar lhash cp w \<Longrightarrow> uw_invar lhash cp (touch_header now w)"
  "uw_channel_layouts (touch_header now w) = uw_channel_layouts w"
  "sw_read_slot (uw_inner (touch_header now w)) = sw_read_slot (uw_inner w)"
  "sw_slot_count (uw_inner (touch_header now w)) = sw_slot_count (uw_inner w)"
  by (auto simp: touch_header_def uw_invar_def sw_invar_def header_for_def sw_read_slot_def)

lemma restore_spec:
  assumes "points_ok cp'" "allocate_layouts cp' = Ret (layouts, e)" "e \<le> unat (config_slots config)"
    and "uh_magic h = UNIFIED_MAGIC" "uh_version h = UNIFIED_VERSION" "unat (uh_slot_count h) = n"
  shows "\<exists>w'. restore_from_snapshot (\<lambda>_. True) lhash wall_nanos nonce now_ms config
      (Some (snapshot_bytes h obs n)) cp' = Ret (Inr w') \<and> uw_invar lhash cp' w' \<and>
    uw_channel_layouts w' = layouts \<and>
    (\<forall>s < e. sw_read_slot (uw_inner w') s =
       Some (as_read (if s < n \<and> restorable (saved_sample (obs s)) then saved_sample (obs s) else unwritten)))"
proof -
  let ?snap = "snapshot_bytes h obs n"
  let ?w = "fresh_writer (lhash cp') (generation_seed wall_nanos nonce) (config_slots config) layouts e"
  have create: "uw_create (\<lambda>_. True) lhash wall_nanos nonce config cp' = Ret (Inr ?w)"
    using assms(2,3) by (simp add: uw_create_iff)
  have w: "uw_invar lhash cp' ?w" by (rule fresh_invar [OF assms(1-3)])
  have cnt: "sw_slot_count (uw_inner ?w) = e" and lay: "uw_channel_layouts ?w = layouts"
    by (simp_all add: fresh_writer_def sw_from_mmap_def)
  have rd: "sw_read_slot (uw_inner ?w) s = Some (as_read unwritten)" if "s < e" for s
    using fresh_read [OF that assms(3)] by (simp add: fresh_writer_def)
  have head: "read_u64_ne ?snap 0 = Ret (Inr UNIFIED_MAGIC)" "read_u32_ne ?snap 8 = Ret (Inr UNIFIED_VERSION)"
    "read_u32_ne ?snap 16 = Ret (Inr (uh_slot_count h))" "read_u64_ne ?snap 40 = Ret (Inr (uh_routing_hash h))"
    by (simp_all add: snapshot_bytes_def header_fields assms(4,5))
  let ?m = "min n e"
  have len: "\<not> length ?snap < 64" "\<not> length ?snap < slot_offset + ?m * SLOT_SIZE"
    by (simp_all add: length_snapshot_bytes slot_offset_def)
  obtain w' where w': "restore_slots ?snap [0..<?m] ?w = Ret (Inr w')" "uw_invar lhash cp' w'"
      "uw_channel_layouts w' = layouts"
      "\<forall>j. sw_read_slot (uw_inner w') j =
         (if j \<in> set [0..<?m] \<and> restorable (saved_sample (obs j)) then Some (as_read (saved_sample (obs j)))
          else sw_read_slot (uw_inner ?w) j)"
    using restore_slots_snapshot [OF w, of "[0..<?m]" n h obs] by (auto simp: cnt lay)
  have "restore_from_snapshot (\<lambda>_. True) lhash wall_nanos nonce now_ms config (Some ?snap) cp' =
      (if ?m = 0 then Ret (Inr ?w) else Ret (Inr (touch_header now_ms w')))"
    using len w'(1)
    by (simp add: restore_from_snapshot_def create head attempt_def assms(6) cnt Let_def) (simp add: min_def)
  then show ?thesis
    using w lay rd w'(2-4) touch_header_keeps by (cases "?m = 0") auto
qed

section \<open>Properties\<close>

text \<open>C14. A snapshot restores exactly what was consistently observed.  Saving a segment and restoring
  the file with the same point counts succeeds, and every point reads the value, raw value and time
  that the save observed for it, when both values are finite; a point whose slot was being written at
  that moment, was never written, or holds an infinity or a NaN comes back unwritten.\<close>
theorem snapshot_restores_observed_points:
  assumes "uw_invar lhash cp w" "sw_slot_count (uw_inner w) \<le> unat (sw_max_slots (uw_inner w))"
    and "sw_slot_count (uw_inner w) \<le> unat (config_slots config)"
  shows "\<exists>bytes w'. uw_save_snapshot (\<lambda>_. True) obs w = Ret (Inr bytes) \<and>
    restore_from_snapshot (\<lambda>_. True) lhash wall_nanos nonce now_ms config (Some bytes) cp = Ret (Inr w') \<and>
    uw_invar lhash cp w' \<and> uw_points w' = uw_points w \<and>
    (\<forall>k s. uw_slot w k = Some s \<longrightarrow> uw_point w' k =
       Some (as_read (case try_load_consistent (obs s) of
          Some (v, raw, ts) \<Rightarrow> if f64_is_finite v \<and> f64_is_finite raw then (v, raw, ts) else unwritten
        | None \<Rightarrow> unwritten)))"
proof -
  let ?h = "shm_header (sw_shm (uw_inner w))" and ?n = "sw_slot_count (uw_inner w)"
  have inv: "points_ok cp" "allocate_layouts cp = Ret (uw_channel_layouts w, ?n)"
      "uh_magic ?h = UNIFIED_MAGIC" "uh_version ?h = UNIFIED_VERSION" "unat (uh_slot_count ?h) = ?n"
    using assms(1) by (auto simp: uw_invar_def header_for_def)
  obtain w' where w': "restore_from_snapshot (\<lambda>_. True) lhash wall_nanos nonce now_ms config
        (Some (snapshot_bytes ?h obs ?n)) cp = Ret (Inr w')" "uw_invar lhash cp w'"
      "uw_channel_layouts w' = uw_channel_layouts w"
      "\<forall>s < ?n. sw_read_slot (uw_inner w') s =
         Some (as_read (if s < ?n \<and> restorable (saved_sample (obs s)) then saved_sample (obs s) else unwritten))"
    using restore_spec [OF inv(1,2) assms(3) inv(3-5)] by blast
  have slots: "uw_slot w' = uw_slot w" by (rule ext) (simp add: uw_slot_def w'(3))
  have "uw_point w' k = Some (as_read (case try_load_consistent (obs s) of
          Some (v, raw, ts) \<Rightarrow> if f64_is_finite v \<and> f64_is_finite raw then (v, raw, ts) else unwritten
        | None \<Rightarrow> unwritten))" if "uw_slot w k = Some s" for k s
    using w'(4) uw_slot_bound [OF assms(1) that] that
    by (auto simp: uw_point_def slots saved_sample_def restorable_def split: option.splits)
  then show ?thesis
    using w'(1,2) slots assms(2) by (auto simp: uw_save_snapshot_iff [OF assms(1)] uw_points_def)
qed

text \<open>C38. Restoring goes by slot number and not by point: when the point counts have changed since the
  snapshot was taken, the restore still succeeds (the layout hash is only compared for a warning), and
  a value saved for one point shows up at whatever point owns the same slot number now.\<close>
theorem restore_attributes_by_slot_number:
  assumes "uw_invar lhash cp w" "uw_save_snapshot (\<lambda>_. True) obs w = Ret (Inr bytes)"
    and "points_ok cp'" "allocate_layouts cp' = Ret (layouts, e)" "e \<le> unat (config_slots config)"
    and "uw_slot w k = Some s" "chan_slot layouts ch' ty' pid' = Some s"
    and "try_load_consistent (obs s) = Some (v, raw, ts)" "f64_is_finite v" "f64_is_finite raw"
  shows "\<exists>w'. restore_from_snapshot (\<lambda>_. True) lhash wall_nanos nonce now_ms config (Some bytes) cp' = Ret (Inr w') \<and>
    uw_point w' (ch', ty', pid') = Some (as_read (v, raw, ts))"
proof -
  let ?h = "shm_header (sw_shm (uw_inner w))" and ?n = "sw_slot_count (uw_inner w)"
  have bytes: "bytes = snapshot_bytes ?h obs ?n"
    using assms(2) by (simp add: uw_save_snapshot_iff [OF assms(1)])
  have inv: "uh_magic ?h = UNIFIED_MAGIC" "uh_version ?h = UNIFIED_VERSION" "unat (uh_slot_count ?h) = ?n"
    using assms(1) by (auto simp: uw_invar_def header_for_def)
  have "s < ?n" "s < e"
    using uw_slot_bound [OF assms(1,6)] chan_slot_separate(1) [OF assms(3,4,7,7)] by auto
  then show ?thesis
    using restore_spec [OF assms(3-5) inv, of lhash wall_nanos nonce now_ms obs] assms(7-10)
    by (auto simp: bytes uw_point_def uw_slot_def saved_sample_def restorable_def)
qed

definition demo_obs :: "usize \<Rightarrow> observation" where
  "demo_obs s = (if s = 8 then \<lparr>ob_seq1 = 2, ob_value = 0x4000000000000000, ob_raw = 0, ob_ts = 9, ob_seq2 = 2\<rparr>
     else if s = 2 then \<lparr>ob_seq1 = 3, ob_value = 1, ob_raw = 1, ob_ts = 1, ob_seq2 = 3\<rparr>
     else observe slot_new)"

lemma demo_finite: "f64_is_finite 0x4000000000000000" "f64_is_finite 0"
  by (simp_all add: f64_is_finite_def f64_exponent_def)

lemma demo_point_slots:
  "uw_slot demo_shm_writer (2, 0, 0) = Some 8" "uw_slot demo_shm_writer (1, 0, 2) = Some 2"
proof -
  have "case allocate_layouts demo_counts of Ret (layouts, e) \<Rightarrow>
      chan_slot layouts 2 0 0 = Some 8 \<and> chan_slot layouts 1 0 2 = Some 2 | Panic \<Rightarrow> False"
    by code_simp
  then show "uw_slot demo_shm_writer (2, 0, 0) = Some 8" "uw_slot demo_shm_writer (1, 0, 2) = Some 2"
    by (simp_all add: uw_slot_def demo_shm_writer_def fresh_writer_def demo_allocate)
qed

lemma demo_shm_counts:
  "sw_slot_count (uw_inner demo_shm_writer) = 11" "sw_max_slots (uw_inner demo_shm_writer) = 16"
  by (simp_all add: demo_shm_writer_def fresh_writer_def sw_from_mmap_def)

theorem snapshot_restores_observed_points_witness:
  "\<exists>bytes w'. uw_save_snapshot (\<lambda>_. True) demo_obs demo_shm_writer = Ret (Inr bytes) \<and>
     restore_from_snapshot (\<lambda>_. True) (\<lambda>_. 7) 1 2 3 demo_config (Some bytes) demo_counts = Ret (Inr w') \<and>
     uw_point w' (2, 0, 0) = Some (as_read (0x4000000000000000, 0, 9)) \<and>
     uw_point w' (1, 0, 2) = Some (as_read unwritten)"
proof -
  obtain bytes w' where r: "uw_save_snapshot (\<lambda>_. True) demo_obs demo_shm_writer = Ret (Inr bytes)"
      "restore_from_snapshot (\<lambda>_. True) (\<lambda>_. 7) 1 2 3 demo_config (Some bytes) demo_counts = Ret (Inr w')" and
    p: "\<forall>k s. uw_slot demo_shm_writer k = Some s \<longrightarrow> uw_point w' k =
       Some (as_read (case try_load_consistent (demo_obs s) of
          Some (v, raw, ts) \<Rightarrow> if f64_is_finite v \<and> f64_is_finite raw then (v, raw, ts) else unwritten
        | None \<Rightarrow> unwritten))"
    using snapshot_restores_observed_points [OF demo_shm_invar, of demo_config demo_obs 1 2 3]
    by (auto simp: demo_shm_counts demo_config_slots simp del: split_paired_All)
  have "uw_point w' (2, 0, 0) = Some (as_read (0x4000000000000000, 0, 9))"
    "uw_point w' (1, 0, 2) = Some (as_read unwritten)"
    using p [rule_format, OF demo_point_slots(1)] p [rule_format, OF demo_point_slots(2)]
    by (simp_all add: demo_obs_def try_load_consistent_def demo_finite)
  with r show ?thesis by blast
qed

definition grown_counts :: channel_point_counts where
  "grown_counts = [(1, [9, 0, 0, 0])]"

text \<open>The saved value of point 0 of channel 2 reappears as point 8 of channel 1.\<close>

theorem restore_attributes_by_slot_number_witness:
  "\<exists>bytes w'. uw_save_snapshot (\<lambda>_. True) demo_obs demo_shm_writer = Ret (Inr bytes) \<and>
     restore_from_snapshot (\<lambda>_. True) (\<lambda>_. 7) 1 2 3 demo_config (Some bytes) grown_counts = Ret (Inr w') \<and>
     uw_point w' (1, 0, 8) = Some (as_read (0x4000000000000000, 0, 9))"
proof -
  obtain bytes where bytes: "uw_save_snapshot (\<lambda>_. True) demo_obs demo_shm_writer = Ret (Inr bytes)"
    by (simp add: uw_save_snapshot_iff [OF demo_shm_invar] demo_shm_counts)
  have ok: "points_ok grown_counts"
    by (simp add: points_ok_def grown_counts_def bt_sorted_def counts_ok_def)
  have "case allocate_layouts grown_counts of Ret (layouts, e) \<Rightarrow>
      e = 9 \<and> chan_slot layouts 1 0 8 = Some 8 | Panic \<Rightarrow> False"
    by code_simp
  then obtain layouts where l: "allocate_layouts grown_counts = Ret (layouts, 9)" "chan_slot layouts 1 0 8 = Some 8"
    by (auto split: outcome.splits)
  have obs: "try_load_consistent (demo_obs 8) = Some (0x4000000000000000, 0, 9)"
    by (simp add: demo_obs_def try_load_consistent_def)
  have e: "(9::nat) \<le> unat (config_slots demo_config)" by (simp add: demo_config_slots)
  from restore_attributes_by_slot_number [OF demo_shm_invar bytes ok l(1) e demo_point_slots(1) l(2) obs demo_finite]
  show ?thesis using bytes by blast
qed

end
