(* ===== verification/Float_Ops.thy ===== *)
theory Float_Ops
  imports Float_Arith
begin

text \<open>
  Further operations on \<open>f64\<close> bit patterns the rule engine and the calculation library use: negation,
  subtraction, division, absolute value, minimum and maximum, rounding to an integer, sums.
\<close>

section \<open>Definitions\<close>

definition f64_neg :: "f64 \<Rightarrow> f64" where
  "f64_neg b = b XOR push_bit 63 1"

definition f64_sub :: "f64 \<Rightarrow> f64 \<Rightarrow> f64" where
  "f64_sub a b = f64_add a (f64_neg b)"

definition f64_abs :: "f64 \<Rightarrow> f64" where
  "f64_abs b = take_bit 63 b"

definition f64_div :: "f64 \<Rightarrow> f64 \<Rightarrow> f64" where
  "f64_div a b =
     (let neg = (f64_negative a \<noteq> f64_negative b) in
      if f64_is_nan a \<or> f64_is_nan b then f64_nan
      else if \<not> f64_is_finite a then (if f64_is_finite b then f64_infinity neg else f64_nan)
      else if \<not> f64_is_finite b then f64_signed neg 0
      else if f64_mag b = 0 then (if f64_mag a = 0 then f64_nan else f64_infinity neg)
      else f64_signed neg (f64_round (f64_mag a) (f64_mag b)))"

text \<open>\<open>a.min(b)\<close> and \<open>a.max(b)\<close>: a NaN gives way to the other argument.\<close>

definition f64_min :: "f64 \<Rightarrow> f64 \<Rightarrow> f64" where
  "f64_min a b = (if f64_is_nan a then b else if f64_is_nan b then a else if f64_less b a then b else a)"

definition f64_max :: "f64 \<Rightarrow> f64 \<Rightarrow> f64" where
  "f64_max a b = (if f64_is_nan a then b else if f64_is_nan b then a else if f64_less a b then b else a)"

text \<open>\<open>x.round()\<close>: to the nearest integer, halves away from zero; large values are integers already.\<close>

definition f64_round_int :: "f64 \<Rightarrow> f64" where
  "f64_round_int b =
     (if \<not> f64_is_finite b \<or> 2 ^ 52 * UNIT \<le> f64_mag b then b
      else f64_signed (f64_negative b) (unat (f64_of_nat ((2 * f64_mag b + UNIT) div (2 * UNIT)))))"

text \<open>\<open>iter().sum()\<close>, which starts at minus zero.\<close>

definition f64_sum :: "f64 list \<Rightarrow> f64" where
  "f64_sum xs = fold (\<lambda>x s. f64_add s x) xs (f64_signed True 0)"

definition EPSILON :: f64 where
  "EPSILON = 0x3CB0000000000000"

section \<open>Facts\<close>

lemma f64_neg_fields [simp]:
  "f64_negative (f64_neg b) = (\<not> f64_negative b)"
  "f64_exponent (f64_neg b) = f64_exponent b"
  "f64_fraction (f64_neg b) = f64_fraction b"
  by (auto simp: f64_neg_def f64_negative_def f64_exponent_def f64_fraction_def
      bit_simps intro!: bit_word_eqI)

lemma f64_neg_class [simp]:
  "f64_is_nan (f64_neg b) = f64_is_nan b" "f64_is_finite (f64_neg b) = f64_is_finite b"
  "f64_mag (f64_neg b) = f64_mag b" "f64_value (f64_neg b) = - f64_value b"
  by (simp_all add: f64_is_nan_def f64_is_finite_def f64_mag_def f64_value_def f64_mantissa_def f64_scale_def)

lemma f64_abs_fields [simp]:
  "\<not> f64_negative (f64_abs b)"
  "f64_exponent (f64_abs b) = f64_exponent b"
  "f64_fraction (f64_abs b) = f64_fraction b"
  by (auto simp: f64_abs_def f64_negative_def f64_exponent_def f64_fraction_def
      bit_simps intro!: bit_word_eqI)

lemma f64_le_finite: "f64_is_finite a \<Longrightarrow> f64_is_finite b \<Longrightarrow> f64_le a b \<longleftrightarrow> f64_value a \<le> f64_value b"
  using nan_not_finite [of a] nan_not_finite [of b]
  by (auto simp: f64_le_def f64_key_def f64_units_mag)

lemma f64_less_finite: "f64_is_finite a \<Longrightarrow> f64_is_finite b \<Longrightarrow> f64_less a b \<longleftrightarrow> f64_value a < f64_value b"
  using nan_not_finite [of a] nan_not_finite [of b]
  by (auto simp: f64_less_def f64_key_def f64_units_mag)

lemma positive_bits:
  assumes "n \<le> 0x7FF * 2 ^ 52"
  shows "\<not> f64_negative (f64_signed False n)"
proof -
  have "n div 2 ^ 63 = 0"
    using assms by (intro div_less) simp
  then have "\<not> bit n 63" by (simp only: bit_iff_odd) simp
  then show ?thesis
    by (simp add: f64_negative_def f64_signed_def bit_of_nat_iff)
qed

lemma f64_round_bound: "f64_round p q \<le> 0x7FF * 2 ^ 52"
  unfolding f64_round_def Let_def by (rule min.cobounded2)

lemma f64_signed_zero_mag [simp]: "f64_mag (f64_signed neg 0) = 0"
  by (simp add: f64_signed_def f64_mag_0_iff f64_exponent_def f64_fraction_def)

text \<open>A difference that is not less than zero never carries a minus sign.\<close>

lemma f64_sub_not_negative:
  assumes "f64_is_finite a" "f64_is_finite b" "\<not> f64_less a b"
  shows "\<not> f64_negative (f64_sub a b) \<or> f64_mag (f64_sub a b) = 0"
proof -
  have v: "f64_value a + f64_value (f64_neg b) \<ge> 0"
    using assms by (simp add: f64_less_finite)
  show ?thesis
    using assms v positive_bits [OF f64_round_bound]
    by (auto simp: f64_sub_def f64_add_def Let_def dest: nan_not_finite intro: positive_bits)
qed

lemma f64_neg_neg [simp]: "f64_neg (f64_neg b) = b"
  by (auto simp: f64_neg_def bit_simps intro!: bit_word_eqI)

lemma f64_infinity_facts:
  "\<not> f64_is_nan (f64_infinity neg)" "\<not> f64_is_finite (f64_infinity neg)" "f64_negative (f64_infinity neg) = neg"
  by (cases neg; simp add: f64_infinity_def f64_signed_def f64_class_defs f64_negative_def
      drop_bit_eq_div take_bit_eq_mod bit_iff_odd)+

lemma UNIT_pos [simp]: "UNIT > 0" "UNIT \<noteq> 0"
  by (simp_all add: UNIT_def)

lemma f64_infinity_mul:
  assumes "f64_is_finite b" "f64_mag b > 0"
  shows "f64_mul (f64_infinity neg) b = f64_infinity (neg \<noteq> f64_negative b)"
  using assms nan_not_finite [of b] by (auto simp: f64_mul_def Let_def f64_infinity_facts)

end
