(* ===== verification/Validation.thy ===== *)
theory Validation
  imports Float_Ops
begin

text \<open>
  Validation of values and names: \<open>libs/voltage-model/src/validation.rs\<close>.  A name is the list of its
  Unicode scalar values; \<open>len()\<close> counts the bytes of its UTF-8 encoding.
\<close>

section \<open>Numeric values\<close>

record validation_config =
  vc_reject_nan :: bool
  vc_reject_infinity :: bool
  vc_max_abs_value :: "f64 option"

definition validation_default :: validation_config where
  "validation_default = \<lparr>vc_reject_nan = True, vc_reject_infinity = True, vc_max_abs_value = None\<rparr>"

text \<open>\<open>1e15\<close>.\<close>

definition validation_strict :: validation_config where
  "validation_strict =
     \<lparr>vc_reject_nan = True, vc_reject_infinity = True, vc_max_abs_value = Some (f64_of_nat (10 ^ 15))\<rparr>"

definition validation_permissive :: validation_config where
  "validation_permissive = validation_default"

definition allow_all :: validation_config where
  "allow_all = \<lparr>vc_reject_nan = False, vc_reject_infinity = False, vc_max_abs_value = None\<rparr>"

datatype value_validation_error = NaN | Infinity | OutOfRange f64 f64

definition f64_is_infinite :: "f64 \<Rightarrow> bool" where
  "f64_is_infinite b \<longleftrightarrow> \<not> f64_is_finite b \<and> \<not> f64_is_nan b"

definition validate_value :: "f64 \<Rightarrow> validation_config \<Rightarrow> value_validation_error + f64" where
  "validate_value v config =
     (if vc_reject_nan config \<and> f64_is_nan v then Inl NaN
      else if vc_reject_infinity config \<and> f64_is_infinite v then Inl Infinity
      else (case vc_max_abs_value config of
              Some m \<Rightarrow> if f64_less m (f64_abs v) then Inl (OutOfRange v m) else Inr v
            | None \<Rightarrow> Inr v))"

definition is_value_valid :: "f64 \<Rightarrow> validation_config \<Rightarrow> bool" where
  "is_value_valid v config = (case validate_value v config of Inr _ \<Rightarrow> True | Inl _ \<Rightarrow> False)"

definition sanitize_value :: "f64 \<Rightarrow> f64 \<Rightarrow> validation_config \<Rightarrow> f64" where
  "sanitize_value v dflt config = (case validate_value v config of Inr x \<Rightarrow> x | Inl _ \<Rightarrow> dflt)"

section \<open>Names\<close>

type_synonym uchar = nat

definition utf8_len :: "uchar \<Rightarrow> nat" where
  "utf8_len c = (if c < 0x80 then 1 else if c < 0x800 then 2 else if c < 0x10000 then 3 else 4)"

definition str_len :: "uchar list \<Rightarrow> usize" where
  "str_len s = sum_list (map utf8_len s)"

text \<open>\<open>char::is_control\<close>: the general category Cc, \<open>U+0000..U+001F\<close> and \<open>U+007F..U+009F\<close>.\<close>

definition is_control :: "uchar \<Rightarrow> bool" where
  "is_control c \<longleftrightarrow> c < 0x20 \<or> (0x7F \<le> c \<and> c < 0xA0)"

definition FORBIDDEN_CHARS :: "uchar list" where
  "FORBIDDEN_CHARS = map of_char [CHR ''/'', CHR 0x5C, CHR '':'', CHR ''*'', CHR ''?'', CHR 0x22,
     CHR ''<'', CHR ''>'', CHR ''|'']"

datatype name_error = Empty | TooLong usize | ControlChar | Forbidden uchar | BadChar

fun check_chars :: "uchar list \<Rightarrow> name_error + unit" where
  "check_chars [] = Inr ()"
| "check_chars (c # cs) =
     (if is_control c then Inl ControlChar
      else if c \<in> set FORBIDDEN_CHARS then Inl (Forbidden c)
      else check_chars cs)"

definition validate_instance_name :: "uchar list \<Rightarrow> name_error + unit" where
  "validate_instance_name name =
     (if name = [] then Inl Empty
      else if str_len name > 64 then Inl (TooLong (str_len name))
      else check_chars name)"

definition validate_product_name :: "uchar list \<Rightarrow> name_error + unit" where
  "validate_product_name name =
     (if name = [] then Inl Empty
      else if str_len name > 64 then Inl (TooLong (str_len name))
      else check_chars name)"

definition is_ascii_alphanumeric :: "uchar \<Rightarrow> bool" where
  "is_ascii_alphanumeric c \<longleftrightarrow>
     (0x30 \<le> c \<and> c \<le> 0x39) \<or> (0x41 \<le> c \<and> c \<le> 0x5A) \<or> (0x61 \<le> c \<and> c \<le> 0x7A)"

definition validate_calculation_id :: "uchar list \<Rightarrow> name_error + unit" where
  "validate_calculation_id ident =
     (if ident = [] then Inl Empty
      else if str_len ident > 128 then Inl (TooLong (str_len ident))
      else if \<not> list_all (\<lambda>c. is_ascii_alphanumeric c \<or> c = 0x5F \<or> c = 0x2D \<or> c = 0x2E) ident then Inl BadChar
      else Inr ())"

section \<open>Lemmas\<close>

lemma validate_value_Inr: "validate_value v config = Inr x \<Longrightarrow> x = v"
  by (auto simp: validate_value_def split: if_splits option.splits)

lemma validate_default: "validate_value v validation_default = Inr x \<longleftrightarrow> x = v \<and> f64_is_finite v"
  using nan_not_finite by (auto simp: validate_value_def validation_default_def f64_is_infinite_def)

lemma check_chars_iff:
  "check_chars cs = Inr () \<longleftrightarrow> list_all (\<lambda>c. \<not> is_control c \<and> c \<notin> set FORBIDDEN_CHARS) cs"
  by (induction cs) auto

lemma length_le_str_len: "length s \<le> str_len s"
proof (induction s)
  case (Cons c s)
  have "1 \<le> utf8_len c" by (simp add: utf8_len_def)
  with Cons show ?case by (simp add: str_len_def)
qed (simp add: str_len_def)

text \<open>Between three and sixty-five times as restrictive as the comment says: 22 characters can be too long.\<close>

lemma wide_name_rejected: "validate_instance_name (replicate 22 0x8D1F) = Inl (TooLong 66)"
  by (simp add: validate_instance_name_def str_len_def utf8_len_def sum_list_replicate)

end
