(* ===== verification/Command_Path.thy ===== *)
theory Command_Path
  imports Unified_Shm Validation "HOL-Library.Sublist"
begin

text \<open>
  Commands from the model service to a device channel.  \<open>libs/voltage-rtdb-shm/src\<close>: the 48-byte
  notification (\<open>notification.rs\<close>), its sender with retries and reconnection (\<open>notifier.rs\<close>) and the
  dispatcher that writes the segment and then notifies (\<open>dispatch.rs\<close>).
  \<open>services/comsrv/src/core/channels/shm_listener.rs\<close>: the receiver that drops stale and duplicate
  events and forwards commands.  Socket and queue results, clock readings and the generation that other
  processes leave in the header are inputs.
\<close>

section \<open>Notification\<close>

record shm_notification =
  nf_channel_id :: u32
  nf_point_id :: u32
  nf_point_type :: u8
  nf_padding :: "u8 list"
  nf_value_bits :: u64
  nf_timestamp_ms :: u64
  nf_producer_id :: u64
  nf_seq :: u64

definition NOTIFICATION_SIZE :: usize where
  "NOTIFICATION_SIZE = 48"

definition notification_new :: "u32 \<Rightarrow> point_type \<Rightarrow> u32 \<Rightarrow> f64 \<Rightarrow> u64 \<Rightarrow> u64 \<Rightarrow> u64 \<Rightarrow> shm_notification" where
  "notification_new channel_id pt point_id v ts producer_id sq =
     \<lparr>nf_channel_id = channel_id, nf_point_id = point_id, nf_point_type = to_u8 pt,
      nf_padding = replicate 7 0, nf_value_bits = v, nf_timestamp_ms = ts,
      nf_producer_id = producer_id, nf_seq = sq\<rparr>"

definition notification_to_bytes :: "shm_notification \<Rightarrow> u8 list" where
  "notification_to_bytes n =
     to_le 4 (nf_channel_id n) @ to_le 4 (nf_point_id n) @ [nf_point_type n] @ nf_padding n @
     to_le 8 (nf_value_bits n) @ to_le 8 (nf_timestamp_ms n) @ to_le 8 (nf_producer_id n) @ to_le 8 (nf_seq n)"

text \<open>\<open>*bytemuck::from_bytes(bytes)\<close>, which panics on a buffer that is not aligned for the struct.\<close>

definition notification_from_bytes :: "bool \<Rightarrow> u8 list \<Rightarrow> shm_notification outcome" where
  "notification_from_bytes aligned bs =
     (if \<not> aligned then Panic
      else Ret
        \<lparr>nf_channel_id = from_le (take 4 bs),
         nf_point_id = from_le (take 4 (drop 4 bs)),
         nf_point_type = bs ! 8,
         nf_padding = take 7 (drop 9 bs),
         nf_value_bits = from_le (take 8 (drop 16 bs)),
         nf_timestamp_ms = from_le (take 8 (drop 24 bs)),
         nf_producer_id = from_le (take 8 (drop 32 bs)),
         nf_seq = from_le (take 8 (drop 40 bs))\<rparr>)"

definition get_point_type :: "shm_notification \<Rightarrow> point_type option" where
  "get_point_type n =
     (if nf_point_type n = 2 then Some Control else if nf_point_type n = 3 then Some Adjustment else None)"

section \<open>Sender\<close>

record notify_result =
  nr_uds_sent :: bool
  nr_fallback_used :: bool
  nr_disabled :: bool

definition nr_sent :: notify_result where
  "nr_sent = \<lparr>nr_uds_sent = True, nr_fallback_used = False, nr_disabled = False\<rparr>"

definition nr_degraded :: notify_result where
  "nr_degraded = \<lparr>nr_uds_sent = False, nr_fallback_used = True, nr_disabled = False\<rparr>"

definition nr_off :: notify_result where
  "nr_off = \<lparr>nr_uds_sent = False, nr_fallback_used = False, nr_disabled = True\<rparr>"

record notifier =
  nt_connected :: bool
  nt_path :: string
  nt_producer_id :: u64
  nt_next_seq :: u64
  nt_last_connect_attempt :: "nat option"
  nt_backoff_ms :: u64
  nt_reconnect_attempts :: u32

definition NOTIFIER_MIN_BACKOFF_MS :: u64 where
  "NOTIFIER_MIN_BACKOFF_MS = 1000"

definition NOTIFIER_MAX_BACKOFF_MS :: u64 where
  "NOTIFIER_MAX_BACKOFF_MS = 5000"

definition MAX_RETRIES :: nat where
  "MAX_RETRIES = 3"

definition notifier_connect :: "bool \<Rightarrow> nat \<Rightarrow> string \<Rightarrow> u64 \<Rightarrow> notifier" where
  "notifier_connect ok now path producer_id =
     \<lparr>nt_connected = ok, nt_path = path, nt_producer_id = producer_id, nt_next_seq = 1,
      nt_last_connect_attempt = (if ok then None else Some now),
      nt_backoff_ms = NOTIFIER_MIN_BACKOFF_MS, nt_reconnect_attempts = 0\<rparr>"

definition notifier_disabled :: "u64 \<Rightarrow> notifier" where
  "notifier_disabled producer_id =
     \<lparr>nt_connected = False, nt_path = [], nt_producer_id = producer_id, nt_next_seq = 1,
      nt_last_connect_attempt = None, nt_backoff_ms = NOTIFIER_MIN_BACKOFF_MS, nt_reconnect_attempts = 0\<rparr>"

text \<open>A write either completes or fails after some bytes of the message have left.\<close>

datatype write_result = WriteOk | WriteErr nat

record notify_env =
  ne_now :: nat
  ne_connect_ok :: bool
  ne_connect_done :: nat
  ne_write :: "nat \<Rightarrow> write_result"
  ne_write_done :: nat

definition try_reconnect :: "notify_env \<Rightarrow> notifier \<Rightarrow> notifier" where
  "try_reconnect env n =
     (if nt_connected n \<or> nt_path n = [] then n
      else if (case nt_last_connect_attempt n of
                 Some t \<Rightarrow> ne_now env - t < unat (nt_backoff_ms n) | None \<Rightarrow> False) then n
      else if ne_connect_ok env then
        n\<lparr>nt_connected := True, nt_backoff_ms := NOTIFIER_MIN_BACKOFF_MS, nt_last_connect_attempt := None,
          nt_reconnect_attempts := 0\<rparr>
      else
        n\<lparr>nt_reconnect_attempts := nt_reconnect_attempts n + 1,
          nt_backoff_ms := min (nt_backoff_ms n * 2) NOTIFIER_MAX_BACKOFF_MS,
          nt_last_connect_attempt := Some (ne_connect_done env)\<rparr>)"

text \<open>The retry loop: whether an attempt succeeded, and everything that went into the stream.\<close>

fun send_attempts :: "nat \<Rightarrow> (nat \<Rightarrow> write_result) \<Rightarrow> u8 list \<Rightarrow> bool \<times> u8 list" where
  "send_attempts 0 wr bytes = (False, [])"
| "send_attempts (Suc k) wr bytes =
     (case wr 0 of
        WriteOk \<Rightarrow> (True, bytes)
      | WriteErr m \<Rightarrow>
          (let (ok, out) = send_attempts k (\<lambda>i. wr (Suc i)) bytes in (ok, take m bytes @ out)))"

definition notify :: "notify_env \<Rightarrow> u32 \<Rightarrow> point_type \<Rightarrow> u32 \<Rightarrow> f64 \<Rightarrow> u64 \<Rightarrow> notifier \<Rightarrow>
    notify_result \<times> notifier \<times> u8 list" where
  "notify env channel_id pt point_id v ts n =
     (if nt_path n = [] then (nr_off, n, [])
      else
        let n = try_reconnect env n in
        if nt_connected n then
          let sq = nt_next_seq n;
              n = n\<lparr>nt_next_seq := max (sq + 1) 1\<rparr>;
              bytes = notification_to_bytes (notification_new channel_id pt point_id v ts (nt_producer_id n) sq);
              (ok, out) = send_attempts MAX_RETRIES (ne_write env) bytes
          in if ok then (nr_sent, n, out)
             else (nr_degraded, n\<lparr>nt_connected := False, nt_last_connect_attempt := Some (ne_write_done env)\<rparr>, out)
        else (nr_degraded, n, []))"

section \<open>Receiver\<close>

datatype channel_command =
    CmdControl string u32 f64 u64
  | CmdAdjustment string u32 f64 u64
  | CmdBatchControl string "(u32 \<times> f64) list" u64
  | CmdBatchAdjustment string "(u32 \<times> f64) list" u64

datatype send_result = Sent | Closed | TimedOut

record command_listener =
  cl_senders :: "u32 \<rightharpoonup> channel_command list"
  cl_last_sequences :: "(u32 \<times> u8 \<times> u32) \<rightharpoonup> (u64 \<times> u64)"
  cl_dropped_count :: u64

definition listener_new :: command_listener where
  "listener_new = \<lparr>cl_senders = Map.empty, cl_last_sequences = Map.empty, cl_dropped_count = 0\<rparr>"

definition register_channel :: "u32 \<Rightarrow> command_listener \<Rightarrow> command_listener" where
  "register_channel channel_id l = l\<lparr>cl_senders := (cl_senders l)(channel_id \<mapsto> [])\<rparr>"

definition unregister_channel :: "u32 \<Rightarrow> command_listener \<Rightarrow> command_listener" where
  "unregister_channel channel_id l = l\<lparr>cl_senders := (cl_senders l)(channel_id := None)\<rparr>"

definition hex_digit :: "nat \<Rightarrow> char" where
  "hex_digit d = (if d < 10 then char_of (48 + d) else char_of (87 + d))"

definition hex16 :: "u64 \<Rightarrow> string" where
  "hex16 w = map (\<lambda>i. hex_digit (unat (drop_bit (4 * i) w AND 15))) (List.rev [0..<16])"

definition command_id :: "u64 \<Rightarrow> u64 \<Rightarrow> string" where
  "command_id producer_id sq = ''uds-'' @ hex16 producer_id @ ''-'' @ nat_digits (unat sq)"

definition build_command :: "point_type \<Rightarrow> u32 \<Rightarrow> f64 \<Rightarrow> u64 \<Rightarrow> u64 \<Rightarrow> u64 \<Rightarrow> channel_command" where
  "build_command pt point_id v ts producer_id sq =
     (if pt = Control then CmdControl (command_id producer_id sq) point_id v ts
      else CmdAdjustment (command_id producer_id sq) point_id v ts)"

definition seq_key :: "shm_notification \<Rightarrow> u32 \<times> u8 \<times> u32" where
  "seq_key nf = (nf_channel_id nf, nf_point_type nf, nf_point_id nf)"

text \<open>Older by the wrapping distance, or the very same event.\<close>

definition is_repeat :: "command_listener \<Rightarrow> shm_notification \<Rightarrow> bool" where
  "is_repeat l nf =
     (case cl_last_sequences l (seq_key nf) of
        None \<Rightarrow> False
      | Some (last_producer, last_seq) \<Rightarrow>
          last_producer = nf_producer_id nf \<and>
          (nf_seq nf - last_seq > 0x7FFFFFFFFFFFFFFF \<or> nf_seq nf = last_seq))"

definition handle_notification :: "(u32 \<Rightarrow> send_result) \<Rightarrow> shm_notification \<Rightarrow> command_listener \<Rightarrow> command_listener" where
  "handle_notification send nf l =
     (case get_point_type nf of
        None \<Rightarrow> l
      | Some pt \<Rightarrow>
          if is_repeat l nf then l
          else
            let l = l\<lparr>cl_last_sequences := (cl_last_sequences l)(seq_key nf \<mapsto> (nf_producer_id nf, nf_seq nf))\<rparr> in
            (case validate_value (nf_value_bits nf) validation_default of
               Inl _ \<Rightarrow> l
             | Inr v \<Rightarrow>
                 let command = build_command pt (nf_point_id nf) v (nf_timestamp_ms nf) (nf_producer_id nf) (nf_seq nf) in
                 (case cl_senders l (nf_channel_id nf) of
                    None \<Rightarrow> l
                  | Some queue \<Rightarrow>
                      (case send (nf_channel_id nf) of
                         Sent \<Rightarrow> l\<lparr>cl_senders := (cl_senders l)(nf_channel_id nf \<mapsto> queue @ [command])\<rparr>
                       | Closed \<Rightarrow> l
                       | TimedOut \<Rightarrow> l\<lparr>cl_dropped_count := cl_dropped_count l + 1\<rparr>))))"

function handle_commands :: "bool \<Rightarrow> (u32 \<Rightarrow> send_result) \<Rightarrow> u8 list \<Rightarrow> command_listener \<Rightarrow> command_listener outcome" where
  "handle_commands aligned send stream l =
     (if length stream < NOTIFICATION_SIZE then Ret l
      else bind_outcome (notification_from_bytes aligned (take NOTIFICATION_SIZE stream))
        (\<lambda>nf. handle_commands aligned send (drop NOTIFICATION_SIZE stream) (handle_notification send nf l)))"
  by auto
termination
  by (relation "measure (\<lambda>(_, _, stream, _). length stream)") (auto simp: NOTIFICATION_SIZE_def)

declare handle_commands.simps [simp del]

section \<open>Dispatcher\<close>

record route_context =
  ctx_channel_id :: string
  ctx_point_type :: string
  ctx_comsrv_point_id :: string
  ctx_target_channel_id :: u32
  ctx_target_point_type :: u8
  ctx_target_point_id :: u32
  ctx_timestamp_ms :: u64

datatype dispatch_outcome =
    Delivered | ShmOnly string | NoWriter | MirrorMiss string | Noop

fun is_delivered :: "dispatch_outcome \<Rightarrow> bool" where
  "is_delivered Delivered = True"
| "is_delivered Noop = True"
| "is_delivered (ShmOnly _) = False"
| "is_delivered NoWriter = False"
| "is_delivered (MirrorMiss _) = False"

record shm_dispatch =
  sd_writer :: "unified_writer option"
  sd_config :: "shared_config option"
  sd_notifier :: "notifier option"
  sd_expected_generation :: u64
  sd_rebuild_signals :: nat

definition dispatch_new :: shm_dispatch where
  "dispatch_new = \<lparr>sd_writer = None, sd_config = None, sd_notifier = None, sd_expected_generation = 0, sd_rebuild_signals = 0\<rparr>"

definition set_writer :: "unified_writer \<Rightarrow> shared_config \<Rightarrow> shm_dispatch \<Rightarrow> shm_dispatch" where
  "set_writer w cfg d =
     d\<lparr>sd_expected_generation := sw_generation (uw_inner w), sd_writer := Some w,
       sd_config := (case sd_config d of None \<Rightarrow> Some cfg | Some c \<Rightarrow> Some c)\<rparr>"

definition set_notifier :: "notifier \<Rightarrow> shm_dispatch \<Rightarrow> bool \<times> shm_dispatch" where
  "set_notifier n d = (case sd_notifier d of Some _ \<Rightarrow> (False, d) | None \<Rightarrow> (True, d\<lparr>sd_notifier := Some n\<rparr>))"

text \<open>
  \<open>post_gen\<close> is the generation the second look at the header finds, \<open>lock_ok\<close> whether the notifier's
  lock was obtained within 100 ms.
\<close>

definition dispatch :: "notify_env \<Rightarrow> u64 \<Rightarrow> bool \<Rightarrow> route_context \<Rightarrow> f64 \<Rightarrow> shm_dispatch \<Rightarrow>
    (dispatch_outcome \<times> shm_dispatch \<times> u8 list) outcome" where
  "dispatch env post_gen lock_ok ctx v d =
     (case sd_writer d of
        None \<Rightarrow> Ret (NoWriter, d, [])
      | Some w \<Rightarrow>
          let expected = sd_expected_generation d in
          if expected \<noteq> 0 \<and> sw_generation (uw_inner w) \<noteq> expected
          then Ret (NoWriter, d\<lparr>sd_writer := None, sd_rebuild_signals := sd_rebuild_signals d + 1\<rparr>, [])
          else bind_outcome
            (uw_set_action w (ctx_target_channel_id ctx) (ctx_target_point_type ctx) (ctx_target_point_id ctx)
               v (ctx_timestamp_ms ctx))
            (\<lambda>(mirrored, w').
              let d = d\<lparr>sd_writer := Some w'\<rparr> in
              if \<not> mirrored then Ret (MirrorMiss ''SHM action slot missing'', d, [])
              else if expected \<noteq> 0 \<and> post_gen \<noteq> expected
              then Ret (MirrorMiss ''generation changed mid-dispatch'',
                        d\<lparr>sd_writer := None, sd_rebuild_signals := sd_rebuild_signals d + 1\<rparr>, [])
              else (case sd_notifier d of
                      None \<Rightarrow> Ret (ShmOnly ''notifier not configured'', d, [])
                    | Some n \<Rightarrow>
                        if \<not> lock_ok then Ret (ShmOnly ''notifier lock timeout'', d, [])
                        else (case from_u8 (ctx_target_point_type ctx) of
                                None \<Rightarrow> Ret (ShmOnly ''invalid point_type'', d, [])
                              | Some pt \<Rightarrow>
                                  (case notify env (ctx_target_channel_id ctx) pt (ctx_target_point_id ctx) v
                                          (ctx_timestamp_ms ctx) n of
                                     (res, n', out) \<Rightarrow>
                                       Ret (if nr_uds_sent res then Delivered
                                            else if nr_fallback_used res then ShmOnly ''UDS degraded''
                                            else ShmOnly ''UDS disabled'',
                                            d\<lparr>sd_notifier := Some n'\<rparr>, out))))))"

definition noop_dispatch :: "route_context \<Rightarrow> f64 \<Rightarrow> dispatch_outcome" where
  "noop_dispatch ctx v = Noop"

section \<open>Frames\<close>

definition notification_wf :: "shm_notification \<Rightarrow> bool" where
  "notification_wf nf \<longleftrightarrow> length (nf_padding nf) = 7"

lemma notification_roundtrip:
  assumes "notification_wf nf"
  shows "notification_from_bytes True (notification_to_bytes nf) = Ret nf"
  using assms unfolding notification_wf_def
  by (cases nf) (simp add: notification_from_bytes_def notification_to_bytes_def from_le_to_le nth_append)

lemma length_notification [simp]: "notification_wf nf \<Longrightarrow> length (notification_to_bytes nf) = NOTIFICATION_SIZE"
  by (simp add: notification_wf_def notification_to_bytes_def NOTIFICATION_SIZE_def)

lemma notification_new_wf [simp]: "notification_wf (notification_new ch pt pid v ts p sq)"
  by (simp add: notification_wf_def notification_new_def)

lemma handle_commands_frames:
  assumes "list_all notification_wf nfs"
  shows "handle_commands True send (concat (map notification_to_bytes nfs) @ rest) l =
    handle_commands True send rest (fold (handle_notification send) nfs l)"
  using assms
proof (induction nfs arbitrary: l)
  case (Cons nf nfs)
  then show ?case by (subst handle_commands.simps) (simp add: notification_roundtrip)
qed simp

lemma handle_commands_end: "handle_commands True send [] l = Ret l"
  by (subst handle_commands.simps) (simp add: NOTIFICATION_SIZE_def)

section \<open>One notification\<close>

definition command_of :: "shm_notification \<Rightarrow> channel_command" where
  "command_of nf = build_command (if nf_point_type nf = 2 then Control else Adjustment)
     (nf_point_id nf) (nf_value_bits nf) (nf_timestamp_ms nf) (nf_producer_id nf) (nf_seq nf)"

definition is_command :: "shm_notification \<Rightarrow> bool" where
  "is_command nf \<longleftrightarrow> nf_point_type nf = 2 \<or> nf_point_type nf = 3"

lemma handle_senders:
  "cl_senders (handle_notification send nf l) ch =
     (if ch = nf_channel_id nf \<and> is_command nf \<and> \<not> is_repeat l nf \<and> f64_is_finite (nf_value_bits nf) \<and> send ch = Sent
      then map_option (\<lambda>q. q @ [command_of nf]) (cl_senders l ch) else cl_senders l ch)"
proof (cases "is_command nf \<and> \<not> is_repeat l nf")
  case False
  then show ?thesis by (auto simp: handle_notification_def get_point_type_def is_command_def)
next
  case True
  show ?thesis
  proof (cases "validate_value (nf_value_bits nf) validation_default")
    case (Inl e)
    then have "\<not> f64_is_finite (nf_value_bits nf)"
      using validate_default [of "nf_value_bits nf" "nf_value_bits nf"] by simp
    then show ?thesis using Inl by (simp add: handle_notification_def split: option.splits)
  next
    case (Inr v)
    then have "f64_is_finite (nf_value_bits nf)" "v = nf_value_bits nf" by (auto simp: validate_default)
    then show ?thesis using Inr True
      by (auto simp: handle_notification_def get_point_type_def is_command_def command_of_def Let_def
          split: option.splits send_result.splits)
  qed
qed

lemma handle_last:
  "cl_last_sequences (handle_notification send nf l) k =
     (if k = seq_key nf \<and> is_command nf \<and> \<not> is_repeat l nf then Some (nf_producer_id nf, nf_seq nf)
      else cl_last_sequences l k)"
  by (auto simp: handle_notification_def get_point_type_def is_command_def Let_def
      split: option.splits send_result.splits sum.splits)

lemma handle_ignored: "\<not> is_command nf \<or> is_repeat l nf \<Longrightarrow> handle_notification send nf l = l"
  by (auto simp: handle_notification_def get_point_type_def is_command_def)

text \<open>Below half of the counter's range the wrapping comparison is the plain one.\<close>

lemma repeat_window:
  fixes a b :: u64
  assumes "unat a < 2 ^ 63" "unat b < 2 ^ 63"
  shows "(a - b > 0x7FFFFFFFFFFFFFFF \<or> a = b) \<longleftrightarrow> a \<le> b"
proof (cases "b \<le> a")
  case True
  then have "unat (a - b) = unat a - unat b" by (simp add: unat_sub)
  then have "\<not> a - b > 0x7FFFFFFFFFFFFFFF" using assms by (simp add: word_less_nat_alt)
  then show ?thesis using True by auto
next
  case False
  then have lt: "unat a < unat b" by (simp add: word_less_nat_alt not_le)
  have "unat (a - b) = unat a + 2 ^ 64 - unat b"
    using False by (simp add: unat_sub_if' word_le_nat_alt)
  then have "a - b > 0x7FFFFFFFFFFFFFFF" using assms lt by (simp add: word_less_nat_alt)
  then show ?thesis using False by auto
qed

section \<open>Sequences of notifications\<close>

text \<open>The listener's record of one producer stays inside the window of the comparison.\<close>

definition tracks :: "u64 \<Rightarrow> command_listener \<Rightarrow> bool" where
  "tracks p l \<longleftrightarrow> (\<forall>k s. cl_last_sequences l k = Some (p, s) \<longrightarrow> unat s < 2 ^ 63)"

definition from_producer :: "u64 \<Rightarrow> shm_notification \<Rightarrow> bool" where
  "from_producer p nf \<longleftrightarrow> nf_producer_id nf = p \<and> unat (nf_seq nf) < 2 ^ 63"

definition covered :: "u64 \<Rightarrow> command_listener \<Rightarrow> shm_notification \<Rightarrow> bool" where
  "covered p l nf \<longleftrightarrow> (\<exists>s. cl_last_sequences l (seq_key nf) = Some (p, s) \<and> nf_seq nf \<le> s)"

lemma is_repeat_iff:
  assumes "tracks p l" "from_producer p nf"
  shows "is_repeat l nf \<longleftrightarrow> covered p l nf"
proof (cases "cl_last_sequences l (seq_key nf)")
  case (Some ps)
  obtain q s where ps: "ps = (q, s)" by force
  show ?thesis
  proof (cases "q = p")
    case True
    then have "unat s < 2 ^ 63" "unat (nf_seq nf) < 2 ^ 63" "nf_producer_id nf = p"
      using assms(1) [unfolded tracks_def, rule_format, of "seq_key nf" s] assms(2) Some ps
      by (auto simp: from_producer_def)
    then show ?thesis using repeat_window [of "nf_seq nf" s] Some ps True by (simp add: is_repeat_def covered_def)
  next
    case False
    then show ?thesis using assms(2) Some ps by (simp add: is_repeat_def covered_def from_producer_def)
  qed
qed (simp add: is_repeat_def covered_def)

lemma handle_tracks:
  assumes "tracks p l" "from_producer p nf"
  shows "tracks p (handle_notification send nf l)"
  using assms by (auto simp: tracks_def handle_last from_producer_def)

lemma handle_covers:
  assumes "tracks p l" "from_producer p nf"
  shows "covered p (handle_notification send nf l) nf' \<longleftrightarrow>
    covered p l nf' \<or> is_command nf \<and> seq_key nf' = seq_key nf \<and> nf_seq nf' \<le> nf_seq nf"
proof (cases "is_command nf \<and> \<not> is_repeat l nf \<and> seq_key nf' = seq_key nf")
  case True
  then have nc: "\<not> covered p l nf" using is_repeat_iff [OF assms] by simp
  have "nf_seq nf' \<le> nf_seq nf" if c: "covered p l nf'"
  proof -
    obtain s where "cl_last_sequences l (seq_key nf) = Some (p, s)" "nf_seq nf' \<le> s"
      using c True by (auto simp: covered_def)
    then show ?thesis using nc by (auto simp: covered_def)
  qed
  then show ?thesis using True assms(2)
    by (auto simp: covered_def [of p "handle_notification send nf l"] handle_last from_producer_def)
next
  case False
  have "covered p (handle_notification send nf l) nf' = covered p l nf'"
    using False by (auto simp: covered_def handle_last)
  moreover have "covered p l nf'" if "is_command nf" "seq_key nf' = seq_key nf" "nf_seq nf' \<le> nf_seq nf"
    using False that is_repeat_iff [OF assms] by (auto simp: covered_def)
  ultimately show ?thesis by blast
qed

lemma handle_replay:
  assumes "tracks p l" "list_all (from_producer p) nfs" "\<forall>nf\<in>set nfs. is_command nf \<longrightarrow> covered p l nf"
  shows "fold (handle_notification send) nfs l = l"
  using assms(2,3)
proof (induction nfs)
  case (Cons nf nfs)
  then have "handle_notification send nf l = l"
    using handle_ignored [of nf l send] is_repeat_iff [OF assms(1), of nf] by auto
  then show ?case using Cons by simp
qed simp

abbreviation handle_all :: "((u32 \<Rightarrow> send_result) \<times> shm_notification) list \<Rightarrow> command_listener \<Rightarrow> command_listener" where
  "handle_all evs l \<equiv> fold (\<lambda>(send, nf). handle_notification send nf) evs l"

lemma handle_all_once:
  assumes "tracks p l" "list_all (\<lambda>e. from_producer p (snd e)) evs" "cl_senders l ch = Some q"
  shows "\<exists>sub. subseq sub (map snd evs) \<and> cl_senders (handle_all evs l) ch = Some (q @ map command_of sub) \<and>
    (\<forall>nf\<in>set sub. nf_channel_id nf = ch \<and> is_command nf \<and> f64_is_finite (nf_value_bits nf) \<and> \<not> covered p l nf) \<and>
    sorted_wrt (\<lambda>a b. seq_key a = seq_key b \<longrightarrow> nf_seq a < nf_seq b) sub"
  using assms
proof (induction evs arbitrary: l q)
  case Nil
  then show ?case by (intro exI [of _ "[]"]) simp
next
  case (Cons e evs)
  obtain send nf where e: "e = (send, nf)" by force
  let ?l = "handle_notification send nf l"
  have f: "from_producer p nf" "list_all (\<lambda>e. from_producer p (snd e)) evs" using Cons.prems(2) e by auto
  note cov = handle_covers [OF Cons.prems(1) f(1), of send]
  have t: "tracks p ?l" by (rule handle_tracks [OF Cons.prems(1) f(1)])
  show ?case
  proof (cases "cl_senders ?l ch = cl_senders l ch")
    case True
    then have q: "cl_senders ?l ch = Some q" using Cons.prems(3) by simp
    obtain sub where sub: "subseq sub (map snd evs)" "cl_senders (handle_all evs ?l) ch = Some (q @ map command_of sub)"
      "\<forall>nf\<in>set sub. nf_channel_id nf = ch \<and> is_command nf \<and> f64_is_finite (nf_value_bits nf) \<and> \<not> covered p ?l nf"
      "sorted_wrt (\<lambda>a b. seq_key a = seq_key b \<longrightarrow> nf_seq a < nf_seq b) sub"
      using Cons.IH [OF t f(2) q] by (elim exE conjE) (rule that)
    then show ?thesis using e by (intro exI [of _ sub]) (auto simp: cov)
  next
    case False
    then have x: "ch = nf_channel_id nf" "is_command nf" "\<not> is_repeat l nf" "f64_is_finite (nf_value_bits nf)"
        "cl_senders ?l ch = Some (q @ [command_of nf])"
      using Cons.prems(3) by (auto simp: handle_senders split: if_splits)
    obtain sub where sub: "subseq sub (map snd evs)"
      "cl_senders (handle_all evs ?l) ch = Some ((q @ [command_of nf]) @ map command_of sub)"
      "\<forall>nf\<in>set sub. nf_channel_id nf = ch \<and> is_command nf \<and> f64_is_finite (nf_value_bits nf) \<and> \<not> covered p ?l nf"
      "sorted_wrt (\<lambda>a b. seq_key a = seq_key b \<longrightarrow> nf_seq a < nf_seq b) sub"
      using Cons.IH [OF t f(2) x(5)] by (elim exE conjE) (rule that)
    have "\<not> covered p l nf" using x(3) is_repeat_iff [OF Cons.prems(1) f(1)] by simp
    then show ?thesis using sub x(1,2,4) e by (intro exI [of _ "nf # sub"]) (auto simp: cov not_le)
  qed
qed

lemma in_order_all_executed:
  assumes "tracks p l" "list_all (from_producer p) nfs" "sorted_wrt (\<lambda>a b. nf_seq a < nf_seq b) nfs"
    and "\<forall>nf\<in>set nfs. \<not> covered p l nf" "cl_senders l ch = Some q"
  shows "cl_senders (fold (handle_notification (\<lambda>_. Sent)) nfs l) ch =
      Some (q @ map command_of (filter (\<lambda>nf. nf_channel_id nf = ch \<and> is_command nf \<and> f64_is_finite (nf_value_bits nf)) nfs)) \<and>
    tracks p (fold (handle_notification (\<lambda>_. Sent)) nfs l) \<and>
    (\<forall>nf. covered p l nf \<longrightarrow> covered p (fold (handle_notification (\<lambda>_. Sent)) nfs l) nf) \<and>
    (\<forall>nf\<in>set nfs. is_command nf \<longrightarrow> covered p (fold (handle_notification (\<lambda>_. Sent)) nfs l) nf)"
  using assms
proof (induction nfs arbitrary: l q)
  case (Cons nf nfs)
  let ?l = "handle_notification (\<lambda>_. Sent) nf l"
  have f: "from_producer p nf" "list_all (from_producer p) nfs" using Cons.prems(2) by auto
  note cov = handle_covers [OF Cons.prems(1) f(1), of "\<lambda>_. Sent"]
  have t: "tracks p ?l" by (rule handle_tracks [OF Cons.prems(1) f(1)])
  have nr: "\<not> is_repeat l nf" using Cons.prems(4) is_repeat_iff [OF Cons.prems(1) f(1)] by simp
  have nc: "\<forall>nf\<in>set nfs. \<not> covered p ?l nf" using Cons.prems(3,4) by (auto simp: cov)
  have q: "cl_senders ?l ch = Some (q @ map command_of
      (filter (\<lambda>nf. nf_channel_id nf = ch \<and> is_command nf \<and> f64_is_finite (nf_value_bits nf)) [nf]))"
    using nr Cons.prems(5) by (auto simp: handle_senders)
  have "covered p ?l nf" if "is_command nf" using that by (simp add: cov)
  then show ?case using Cons.IH [OF t f(2) _ nc q] Cons.prems(3) by (auto simp: cov)
qed simp

section \<open>A run of the sender\<close>

record command_request =
  rq_env :: notify_env
  rq_channel :: u32
  rq_type :: point_type
  rq_point :: u32
  rq_value :: f64
  rq_ts :: u64

text \<open>Consecutive calls: the requests reported as sent with their numbers, and the bytes of the stream.\<close>

fun notify_all :: "command_request list \<Rightarrow> notifier \<Rightarrow> (command_request \<times> u64) list \<times> notifier \<times> u8 list" where
  "notify_all [] n = ([], n, [])"
| "notify_all (r # rs) n =
     (case notify (rq_env r) (rq_channel r) (rq_type r) (rq_point r) (rq_value r) (rq_ts r) n of
        (res, n1, out) \<Rightarrow>
          (case notify_all rs n1 of
             (sent, n2, outs) \<Rightarrow> ((if nr_uds_sent res then [(r, nt_next_seq n)] else []) @ sent, n2, out @ outs)))"

definition frame_of :: "u64 \<Rightarrow> command_request \<times> u64 \<Rightarrow> shm_notification" where
  "frame_of p rs = (case rs of (r, sq) \<Rightarrow>
     notification_new (rq_channel r) (rq_type r) (rq_point r) (rq_value r) (rq_ts r) p sq)"

lemma frame_command:
  "nf_channel_id (frame_of p (r, sq)) = rq_channel r"
  "is_command (frame_of p (r, sq)) \<longleftrightarrow> rq_type r = Control \<or> rq_type r = Adjustment"
  "nf_value_bits (frame_of p (r, sq)) = rq_value r"
  "rq_type r = Control \<or> rq_type r = Adjustment \<Longrightarrow>
     command_of (frame_of p (r, sq)) = build_command (rq_type r) (rq_point r) (rq_value r) (rq_ts r) p sq"
  by (cases "rq_type r"; simp add: frame_of_def notification_new_def is_command_def command_of_def)+

definition whole_writes :: "notify_env \<Rightarrow> bool" where
  "whole_writes env \<longleftrightarrow> (\<forall>i<MAX_RETRIES. ne_write env i = WriteOk \<or> ne_write env i = WriteErr 0)"

lemma send_attempts_clean:
  "\<forall>i<k. wr i = WriteOk \<or> wr i = WriteErr 0 \<Longrightarrow> send_attempts k wr bytes = (ok, out) \<Longrightarrow>
     out = (if ok then bytes else [])"
proof (induction k arbitrary: wr out)
  case (Suc k)
  have "wr (Suc i) = WriteOk \<or> wr (Suc i) = WriteErr 0" if "i < k" for i using Suc.prems(1) that by simp
  then show ?case
    using Suc.IH [of "\<lambda>i. wr (Suc i)"] Suc.prems
    by (cases "wr 0"; cases "send_attempts k (\<lambda>i. wr (Suc i)) bytes") auto
qed simp

lemma try_reconnect_keeps [simp]:
  "nt_producer_id (try_reconnect env n) = nt_producer_id n" "nt_next_seq (try_reconnect env n) = nt_next_seq n"
  "nt_path (try_reconnect env n) = nt_path n"
  by (simp_all add: try_reconnect_def)

lemma notify_effect:
  assumes "notify env ch pt pid v ts n = (res, n', out)" "unat (nt_next_seq n) < 2 ^ 63"
  shows "nt_producer_id n' = nt_producer_id n \<and>
    (nt_next_seq n' = nt_next_seq n \<and> \<not> nr_uds_sent res \<or> unat (nt_next_seq n') = Suc (unat (nt_next_seq n))) \<and>
    (whole_writes env \<longrightarrow> out =
       (if nr_uds_sent res
        then notification_to_bytes (notification_new ch pt pid v ts (nt_producer_id n) (nt_next_seq n)) else []))"
proof -
  let ?m = "try_reconnect env n"
  let ?bytes = "notification_to_bytes (notification_new ch pt pid v ts (nt_producer_id n) (nt_next_seq n))"
  have su: "unat (nt_next_seq n + 1) = Suc (unat (nt_next_seq n))"
    using assms(2) by (simp add: unat_word_ariths)
  then have mx: "max (nt_next_seq n + 1) 1 = nt_next_seq n + 1"
    by (simp add: max_def word_le_nat_alt unat_eq_zero)
  show ?thesis
  proof (cases "nt_path n = [] \<or> \<not> nt_connected ?m")
    case True
    then show ?thesis using assms(1) by (auto simp: notify_def nr_off_def nr_degraded_def Let_def split: if_splits)
  next
    case False
    obtain ok bs where sa: "send_attempts MAX_RETRIES (ne_write env) ?bytes = (ok, bs)" by force
    have "bs = (if ok then ?bytes else [])" if "whole_writes env"
      using send_attempts_clean [OF _ sa] that by (simp add: whole_writes_def)
    then show ?thesis using assms(1) False sa su mx
      by (auto simp: notify_def nr_sent_def nr_degraded_def Let_def split: if_splits)
  qed
qed

lemma notify_all_frames:
  assumes "notify_all rs n = (sent, n', out)" "unat (nt_next_seq n) + length rs < 2 ^ 63"
    and "\<forall>r\<in>set rs. whole_writes (rq_env r)"
  shows "out = concat (map notification_to_bytes (map (frame_of (nt_producer_id n)) sent)) \<and>
    (\<forall>x\<in>set sent. nt_next_seq n \<le> snd x \<and> unat (snd x) < 2 ^ 63) \<and> sorted_wrt (\<lambda>a b. snd a < snd b) sent"
  using assms
proof (induction rs arbitrary: n sent n' out)
  case (Cons r rs)
  obtain res n1 o1 where r: "notify (rq_env r) (rq_channel r) (rq_type r) (rq_point r) (rq_value r) (rq_ts r) n = (res, n1, o1)"
    using prod_cases3 by blast
  obtain sent' n2 o2 where rs: "notify_all rs n1 = (sent', n2, o2)" using prod_cases3 by blast
  have lt: "unat (nt_next_seq n) < 2 ^ 63" using Cons.prems(2) by simp
  have out: "n2 = n'" "out = o1 @ o2" "sent = (if nr_uds_sent res then [(r, nt_next_seq n)] else []) @ sent'"
    using Cons.prems(1) r rs by auto
  note e = notify_effect [OF r lt]
  then have le: "unat (nt_next_seq n1) \<le> Suc (unat (nt_next_seq n))" "nt_next_seq n \<le> nt_next_seq n1"
      "nr_uds_sent res \<Longrightarrow> nt_next_seq n < nt_next_seq n1"
    by (auto simp: word_le_nat_alt word_less_nat_alt)
  have "unat (nt_next_seq n1) + length rs < 2 ^ 63" using le(1) Cons.prems(2) by simp
  then have ih: "o2 = concat (map notification_to_bytes (map (frame_of (nt_producer_id n)) sent'))"
      "\<And>x. x \<in> set sent' \<Longrightarrow> nt_next_seq n1 \<le> snd x \<and> unat (snd x) < 2 ^ 63"
      "sorted_wrt (\<lambda>a b. snd a < snd b) sent'"
    using Cons.IH [OF rs] Cons.prems(3) e by auto
  have o1: "o1 = (if nr_uds_sent res then notification_to_bytes (frame_of (nt_producer_id n) (r, nt_next_seq n)) else [])"
    using e Cons.prems(3) by (simp add: frame_of_def)
  have b: "nt_next_seq n \<le> snd x \<and> (nr_uds_sent res \<longrightarrow> nt_next_seq n < snd x) \<and> unat (snd x) < 2 ^ 63" if "x \<in> set sent'" for x
    using ih(2) [OF that] le(2,3) by (meson order_trans less_le_trans)
  show ?case using ih(1,3) o1 b lt unfolding out by (cases "nr_uds_sent res") auto
qed auto

section \<open>Dispatch\<close>

lemma uw_set_action_cases:
  assumes "uw_invar lhash cp w"
  obtains (written) w' where "uw_set_action w ch ty pid v ts = Ret (True, w')" "ty = 2 \<or> ty = 3" "uw_invar lhash cp w'"
      "uw_point w' = (uw_point w)((ch, ty, pid) \<mapsto> as_read (v, v, ts))"
  | (missed) "uw_set_action w ch ty pid v ts = Ret (False, w)"
proof (cases "(ty = 2 \<or> ty = 3) \<and> (ch, ty, pid) \<in> uw_points w")
  case True
  then obtain w' where "uw_write w (ch, ty, pid) v v ts = Ret (True, w')" "uw_invar lhash cp w'"
      "uw_point w' = (uw_point w)((ch, ty, pid) \<mapsto> as_read (v, v, ts))"
    using uw_write_in [OF assms] by blast
  then show ?thesis using True by (intro written [of w']) (auto simp: uw_set_action_def uw_write_def)
next
  case False
  then show ?thesis
    using uw.write_out [OF assms, of "(ch, ty, pid)" v v ts] by (intro missed) (auto simp: uw_set_action_def uw_write_def)
qed

lemma action_type: "ty = 2 \<or> ty = 3 \<Longrightarrow> \<exists>pt. from_u8 ty = Some pt"
  using from_u8_to_u8 [of Control] from_u8_to_u8 [of Adjustment] by auto

section \<open>Properties\<close>

text \<open>C18. The dispatcher's outcome tells the truth: an outcome that counts as delivered means that the
  notification of this very command, with the next sequence number, left on the socket, and any other
  outcome that nothing did (failed writes leaving no partial message); after \<open>Delivered\<close> and
  \<open>ShmOnly\<close> the target point holds the value in shared memory and every other point is unchanged; and
  the writer is dropped only together with a rebuild signal.\<close>
theorem dispatch_outcome_faithful:
  assumes "uw_invar lhash cp w" "sd_writer d = Some w" "sd_notifier d = Some n"
    and "whole_writes env" "unat (nt_next_seq n) < 2 ^ 63"
    and "dispatch env post_gen lock_ok ctx v d = Ret (oc, d', out)"
  shows "out = (if is_delivered oc then notification_to_bytes (notification_new (ctx_target_channel_id ctx)
           (the (from_u8 (ctx_target_point_type ctx))) (ctx_target_point_id ctx) v (ctx_timestamp_ms ctx)
           (nt_producer_id n) (nt_next_seq n)) else []) \<and>
    (oc = Delivered \<or> (\<exists>reason. oc = ShmOnly reason) \<longrightarrow>
       (\<exists>w'. sd_writer d' = Some w' \<and> uw_invar lhash cp w' \<and>
          uw_point w' = (uw_point w)((ctx_target_channel_id ctx, ctx_target_point_type ctx, ctx_target_point_id ctx)
            \<mapsto> as_read (v, v, ctx_timestamp_ms ctx)))) \<and>
    (sd_writer d' = None \<longrightarrow> sd_rebuild_signals d' = Suc (sd_rebuild_signals d))"
proof (cases "sd_expected_generation d \<noteq> 0 \<and> sw_generation (uw_inner w) \<noteq> sd_expected_generation d")
  case True
  then show ?thesis using assms(2,6) by (auto simp: dispatch_def Let_def)
next
  case False
  show ?thesis
  proof (cases rule: uw_set_action_cases [OF assms(1), of "ctx_target_channel_id ctx" "ctx_target_point_type ctx"
        "ctx_target_point_id ctx" v "ctx_timestamp_ms ctx"])
    case (1 w')
    note written = this
    obtain pt where pt: "from_u8 (ctx_target_point_type ctx) = Some pt" using action_type [OF written(2)] by auto
    obtain res n' o' where nt: "notify env (ctx_target_channel_id ctx) pt (ctx_target_point_id ctx) v (ctx_timestamp_ms ctx) n =
        (res, n', o')" using prod_cases3 by blast
    note e = notify_effect [OF nt assms(5)]
    have "out = [] \<and> (\<exists>r. oc = MirrorMiss r) \<and> sd_rebuild_signals d' = Suc (sd_rebuild_signals d) \<or>
        out = [] \<and> (\<exists>r. oc = ShmOnly r) \<and> sd_writer d' = Some w' \<or>
        out = o' \<and> sd_writer d' = Some w' \<and> (if nr_uds_sent res then oc = Delivered else \<exists>r. oc = ShmOnly r)"
      using False assms(6) by (simp add: dispatch_def Let_def assms(2,3) written(1) pt nt split: if_splits) auto
    then show ?thesis
    proof (elim disjE conjE exE)
      assume "out = o'" "sd_writer d' = Some w'" "if nr_uds_sent res then oc = Delivered else \<exists>r. oc = ShmOnly r"
      then show ?thesis using e assms(4) written(3,4) pt by (cases "nr_uds_sent res") auto
    qed (use written(3,4) in simp_all)
  next
    case 2
    then show ?thesis using False assms(2,6) by (auto simp: dispatch_def Let_def split: if_splits)
  qed
qed

text \<open>C10. At most once and in order: whatever the order, the repetitions and the queue results with
  which events of one producer arrive (below half of the counter's range), the commands a channel
  receives are a subsequence of the arriving events, all of them controls or adjustments for that
  channel with a finite value, and the events of each point carry strictly increasing sequence
  numbers, so no event is executed twice and none after a newer one.\<close>
theorem commands_at_most_once:
  assumes "tracks p l" "list_all (\<lambda>e. from_producer p (snd e)) evs" "cl_senders l ch = Some q"
  shows "\<exists>sub. subseq sub (map snd evs) \<and> cl_senders (handle_all evs l) ch = Some (q @ map command_of sub) \<and>
    (\<forall>nf\<in>set sub. nf_channel_id nf = ch \<and> is_command nf \<and> f64_is_finite (nf_value_bits nf)) \<and>
    sorted_wrt (\<lambda>a b. seq_key a = seq_key b \<longrightarrow> nf_seq a < nf_seq b) sub"
  using handle_all_once [OF assms] by blast

text \<open>C3. Every command reported as sent is executed exactly once: when failed writes leave no partial
  message and queues have room, the receiver decodes from the sender's stream exactly the requests the
  sender reported as sent, and the channel gets, in order, those that are controls or adjustments with
  a finite value; a second delivery of the whole stream changes nothing.\<close>
theorem sent_commands_executed_once:
  assumes "notify_all rs n = (sent, n', out)" "\<forall>r\<in>set rs. whole_writes (rq_env r)"
    and "unat (nt_next_seq n) + length rs < 2 ^ 63"
    and "\<forall>k s. cl_last_sequences l k \<noteq> Some (nt_producer_id n, s)" "cl_senders l ch = Some q"
  shows "\<exists>l'. handle_commands True (\<lambda>_. Sent) out l = Ret l' \<and>
    handle_commands True (\<lambda>_. Sent) (out @ out) l = Ret l' \<and>
    cl_senders l' ch = Some (q @
      map (\<lambda>(r, sq). build_command (rq_type r) (rq_point r) (rq_value r) (rq_ts r) (nt_producer_id n) sq)
        (filter (\<lambda>(r, sq). rq_channel r = ch \<and> rq_type r \<in> {Control, Adjustment} \<and> f64_is_finite (rq_value r)) sent))"
proof -
  let ?p = "nt_producer_id n" and ?h = "fold (handle_notification (\<lambda>_. Sent))"
  let ?nfs = "map (frame_of ?p) sent"
  note fr = notify_all_frames [OF assms(1,3,2)]
  have t: "tracks ?p l" using assms(4) by (simp add: tracks_def)
  have f: "list_all (from_producer ?p) ?nfs"
    using fr by (auto simp: list_all_iff from_producer_def frame_of_def notification_new_def)
  have o: "sorted_wrt (\<lambda>a b. nf_seq a < nf_seq b) ?nfs"
    using fr by (auto simp: sorted_wrt_map frame_of_def notification_new_def case_prod_beta)
  have c: "\<forall>nf\<in>set ?nfs. \<not> covered ?p l nf" using assms(4) unfolding covered_def by blast
  note r = in_order_all_executed [OF t f o c assms(5)]
  have wf: "list_all notification_wf ?nfs" by (auto simp: list_all_iff frame_of_def)
  have "handle_commands True (\<lambda>_. Sent) out l = Ret (?h ?nfs l)"
    using handle_commands_frames [OF wf, of "\<lambda>_. Sent" "[]" l] fr by (simp add: handle_commands_end)
  moreover have "handle_commands True (\<lambda>_. Sent) (out @ out) l = Ret (?h ?nfs l)"
    using handle_commands_frames [OF wf, of "\<lambda>_. Sent" out l] handle_commands_frames [OF wf, of "\<lambda>_. Sent" "[]" "?h ?nfs l"]
      fr r handle_replay [of ?p "?h ?nfs l" ?nfs "\<lambda>_. Sent"] f by (simp add: handle_commands_end)
  moreover have "map command_of (filter (\<lambda>nf. nf_channel_id nf = ch \<and> is_command nf \<and> f64_is_finite (nf_value_bits nf)) (map (frame_of ?p) sent)) =
      map (\<lambda>(r, sq). build_command (rq_type r) (rq_point r) (rq_value r) (rq_ts r) ?p sq)
        (filter (\<lambda>(r, sq). rq_channel r = ch \<and> rq_type r \<in> {Control, Adjustment} \<and> f64_is_finite (rq_value r)) sent)"
    for sent
  proof (induction sent)
    case (Cons x sent)
    then show ?case by (cases x) (auto simp: frame_command)
  qed simp
  ultimately show ?thesis using r by simp
qed

lemma finite_zero: "f64_is_finite 0"
  by code_simp

definition demo_env :: notify_env where
  "demo_env = \<lparr>ne_now = 0, ne_connect_ok = True, ne_connect_done = 0, ne_write = (\<lambda>_. WriteOk), ne_write_done = 0\<rparr>"

definition demo_notifier :: notifier where
  "demo_notifier = notifier_connect True 0 ''/tmp/voltage-m2c.sock'' 9"

text \<open>C39. A write that fails part-way is retried on the same stream, which shifts every later message:
  when the first attempt of a command that sets control point 2 of channel 5 to 1.0 stops after
  four bytes and the second succeeds, the sender reports success, and the receiver executes a command that
  was never issued, setting control point 5 to 0.0.\<close>
theorem partial_write_misframes:
  "\<exists>n out l ts. notify (demo_env\<lparr>ne_write := (\<lambda>i. if i = 0 then WriteErr 4 else WriteOk)\<rparr>)
       5 Control 2 0x3FF0000000000000 1000 demo_notifier = (nr_sent, n, out) \<and>
     handle_commands True (\<lambda>_. Sent) out (register_channel 5 listener_new) = Ret l \<and>
     cl_senders l 5 = Some [CmdControl (command_id 0x900000000 0x100000000) 5 0 ts]"
proof -
  let ?f = "notification_to_bytes (notification_new 5 Control 2 0x3FF0000000000000 1000 9 1)"
  let ?nf = "\<lparr>nf_channel_id = 5, nf_point_id = 5, nf_point_type = 2, nf_padding = [0, 0, 0, 2, 0, 0, 0], nf_value_bits = 0,
    nf_timestamp_ms = 0x3E83FF00000, nf_producer_id = 0x900000000, nf_seq = 0x100000000\<rparr>"
  have f: "?f = [5,0,0,0, 2,0,0,0, 2,0,0,0,0,0,0,0, 0,0,0,0,0,0,0xF0,0x3F, 0xE8,3,0,0,0,0,0,0,
      9,0,0,0,0,0,0,0, 1,0,0,0,0,0,0,0]"
    by code_simp
  have sa: "send_attempts MAX_RETRIES (\<lambda>i. if i = 0 then WriteErr 4 else WriteOk) bs = (True, take 4 bs @ bs)" for bs
    unfolding MAX_RETRIES_def numeral_3_eq_3 by simp
  have n: "notify (demo_env\<lparr>ne_write := (\<lambda>i. if i = 0 then WriteErr 4 else WriteOk)\<rparr>)
       5 Control 2 0x3FF0000000000000 1000 demo_notifier =
     (nr_sent, demo_notifier\<lparr>nt_next_seq := 2\<rparr>, take 4 ?f @ ?f)"
    by (simp add: notify_def try_reconnect_def demo_notifier_def notifier_connect_def demo_env_def sa Let_def)
  have d: "notification_from_bytes True (take 48 (take 4 ?f @ ?f)) = Ret ?nf"
    unfolding f by code_simp
  have s: "length (take 4 ?f @ ?f) = 52" unfolding f by simp
  let ?l = "register_channel 5 listener_new"
  have h: "handle_commands True (\<lambda>_. Sent) (take 4 ?f @ ?f) ?l = Ret (handle_notification (\<lambda>_. Sent) ?nf ?l)"
    using s d by (subst handle_commands.simps, subst handle_commands.simps) (simp add: NOTIFICATION_SIZE_def)
  have "\<not> is_repeat ?l ?nf" by (simp add: is_repeat_def register_channel_def listener_new_def)
  then have "cl_senders (handle_notification (\<lambda>_. Sent) ?nf ?l) 5 =
      Some [CmdControl (command_id 0x900000000 0x100000000) 5 0 0x3E83FF00000]"
    by (simp add: handle_senders is_command_def command_of_def build_command_def register_channel_def listener_new_def
        finite_zero)
  with n h show ?thesis by blast
qed

definition demo_command :: shm_notification where
  "demo_command = notification_new 5 Control 2 0 1 9 4"

theorem commands_at_most_once_witness:
  "\<exists>sub. subseq sub [demo_command, demo_command] \<and>
     cl_senders (handle_all [(\<lambda>_. Sent, demo_command), (\<lambda>_. Sent, demo_command)] (register_channel 5 listener_new)) 5 =
       Some (map command_of sub) \<and> length sub \<le> 1"
proof -
  have "tracks 9 (register_channel 5 listener_new)"
    by (simp add: tracks_def register_channel_def listener_new_def)
  moreover have "list_all (\<lambda>e. from_producer 9 (snd e)) [(\<lambda>_. Sent, demo_command), (\<lambda>_. Sent, demo_command)]"
    by (simp add: from_producer_def demo_command_def notification_new_def)
  moreover have "cl_senders (register_channel 5 listener_new) 5 = Some []"
    by (simp add: register_channel_def)
  ultimately obtain sub where sub: "subseq sub [demo_command, demo_command]"
      "cl_senders (handle_all [(\<lambda>_. Sent, demo_command), (\<lambda>_. Sent, demo_command)] (register_channel 5 listener_new)) 5 =
         Some (map command_of sub)"
      "sorted_wrt (\<lambda>a b. seq_key a = seq_key b \<longrightarrow> nf_seq a < nf_seq b) sub"
    using commands_at_most_once [of 9 "register_channel 5 listener_new"
        "[(\<lambda>_. Sent, demo_command), (\<lambda>_. Sent, demo_command)]" 5 "[]"] by auto
  have "sub \<noteq> [demo_command, demo_command]" using sub(3) by auto
  then have "length sub \<le> 1"
    using sub(1) list_emb_length [OF sub(1)] subseq_same_length [OF sub(1)] by (cases "length sub = 2") auto
  with sub show ?thesis by blast
qed

text \<open>A run with a lost connection in the middle: of three requests the first and the third are executed.\<close>

definition demo_request :: "u32 \<Rightarrow> f64 \<Rightarrow> (nat \<Rightarrow> write_result) \<Rightarrow> command_request" where
  "demo_request pid v wr =
     \<lparr>rq_env = demo_env\<lparr>ne_write := wr\<rparr>, rq_channel = 5, rq_type = Control, rq_point = pid, rq_value = v, rq_ts = 1000\<rparr>"

theorem sent_commands_executed_once_witness:
  "\<exists>n out l. notify_all [demo_request 2 0 (\<lambda>_. WriteOk), demo_request 3 0 (\<lambda>_. WriteErr 0)] demo_notifier =
       ([(demo_request 2 0 (\<lambda>_. WriteOk), 1)], n, out) \<and>
     handle_commands True (\<lambda>_. Sent) out (register_channel 5 listener_new) = Ret l \<and>
     cl_senders l 5 = Some [CmdControl (command_id 9 1) 2 0 1000]"
proof -
  have sa: "send_attempts MAX_RETRIES (\<lambda>_. WriteErr 0) bs = (False, [])" "send_attempts MAX_RETRIES (\<lambda>_. WriteOk) bs = (True, bs)" for bs
    unfolding MAX_RETRIES_def numeral_3_eq_3 by simp_all
  obtain n out where r: "notify_all [demo_request 2 0 (\<lambda>_. WriteOk), demo_request 3 0 (\<lambda>_. WriteErr 0)] demo_notifier =
      ([(demo_request 2 0 (\<lambda>_. WriteOk), 1)], n, out)"
    by (simp add: demo_request_def notify_def try_reconnect_def demo_notifier_def notifier_connect_def demo_env_def sa
        nr_sent_def nr_degraded_def Let_def)
  have "\<forall>r\<in>set [demo_request 2 0 (\<lambda>_. WriteOk), demo_request 3 0 (\<lambda>_. WriteErr 0)]. whole_writes (rq_env r)"
    by (simp add: demo_request_def whole_writes_def)
  moreover have "\<forall>k s. cl_last_sequences (register_channel 5 listener_new) k \<noteq> Some (nt_producer_id demo_notifier, s)"
    by (simp add: register_channel_def listener_new_def)
  moreover have "cl_senders (register_channel 5 listener_new) 5 = Some []" by (simp add: register_channel_def)
  moreover have "unat (nt_next_seq demo_notifier) + length [demo_request 2 0 (\<lambda>_. WriteOk), demo_request 3 0 (\<lambda>_. WriteErr 0)] < 2 ^ 63"
    by (simp add: demo_notifier_def notifier_connect_def)
  ultimately show ?thesis
    using sent_commands_executed_once [OF r, of "register_channel 5 listener_new" 5 "[]"] r
    by (auto simp: demo_request_def build_command_def finite_zero demo_notifier_def notifier_connect_def)
qed

definition demo_ctx :: route_context where
  "demo_ctx = \<lparr>ctx_channel_id = ''1'', ctx_point_type = ''C'', ctx_comsrv_point_id = ''0'', ctx_target_channel_id = 1,
     ctx_target_point_type = 2, ctx_target_point_id = 0, ctx_timestamp_ms = 6\<rparr>"

theorem dispatch_outcome_faithful_witness:
  "\<exists>d out w. dispatch demo_env 103 True demo_ctx 5 (dispatch_new\<lparr>sd_writer := Some demo_shm_writer, sd_notifier := Some demo_notifier\<rparr>) =
     Ret (Delivered, d, out) \<and> sd_writer d = Some w \<and> uw_point w (1, 2, 0) = Some (as_read (5, 5, 6)) \<and>
     out = notification_to_bytes (notification_new 1 Control 0 5 6 9 1)"
proof -
  let ?d = "dispatch_new\<lparr>sd_writer := Some demo_shm_writer, sd_notifier := Some demo_notifier\<rparr>"
  have sa: "send_attempts MAX_RETRIES (\<lambda>_. WriteOk) bs = (True, bs)" for bs
    unfolding MAX_RETRIES_def numeral_3_eq_3 by simp
  have "uw_slot demo_shm_writer (1, 2, 0) = Some 4"
    using demo_total demo_allocate by (auto simp: uw_slot_def demo_shm_writer_def fresh_writer_def)
  then obtain w where w: "uw_write demo_shm_writer (1, 2, 0) 5 5 6 = Ret (True, w)"
    using uw_write_in [OF demo_shm_invar, of "(1, 2, 0)" 5 5 6] by (auto simp: uw_points_def)
  have two: "from_u8 2 = Some Control" using from_u8_to_u8 [of Control] by simp
  obtain d out where r: "dispatch demo_env 103 True demo_ctx 5 ?d = Ret (Delivered, d, out)"
    using w by (simp add: dispatch_def dispatch_new_def uw_set_action_def uw_write_def two notify_def try_reconnect_def
        demo_notifier_def notifier_connect_def demo_env_def demo_ctx_def sa nr_sent_def Let_def)
  have "whole_writes demo_env" "unat (nt_next_seq demo_notifier) < 2 ^ 63" "nt_producer_id demo_notifier = 9"
      "nt_next_seq demo_notifier = 1"
    by (simp_all add: demo_env_def whole_writes_def demo_notifier_def notifier_connect_def)
  then show ?thesis
    using dispatch_outcome_faithful [OF demo_shm_invar _ _ _ _ r, of demo_notifier] r two by (auto simp: demo_ctx_def)
qed

end
