(* ===== verification/Batch_Routing.thy ===== *)
theory Batch_Routing
  imports Unified_Shm
begin

text \<open>
  Batches of point updates and their channel-to-channel (C2C) cascade: the data types and the shared loop of
  \<open>libs/voltage-routing/src/batch.rs\<close>, and \<open>libs/voltage-rtdb-shm/src/batch_direct.rs\<close>, which stores
  into shared memory.  The clock and the iteration order of the hash map of groups are inputs.
\<close>

section \<open>Updates and results\<close>

record channel_point_update =
  up_channel_id :: u32
  up_point_type :: point_type
  up_point_id :: u32
  up_value :: f64
  up_raw_value :: "f64 option"
  up_cascade_depth :: u8

definition update_new :: "u32 \<Rightarrow> point_type \<Rightarrow> u32 \<Rightarrow> f64 \<Rightarrow> channel_point_update" where
  "update_new channel_id pt point_id v =
     \<lparr>up_channel_id = channel_id, up_point_type = pt, up_point_id = point_id, up_value = v,
      up_raw_value = None, up_cascade_depth = 0\<rparr>"

definition with_raw :: "f64 \<Rightarrow> channel_point_update \<Rightarrow> channel_point_update" where
  "with_raw raw_value u = u\<lparr>up_raw_value := Some raw_value\<rparr>"

record batch_result =
  br_channel_writes :: usize
  br_c2m_writes :: usize
  br_c2c_forwards :: usize
  br_cycles_detected :: usize
  br_slot_misses :: usize

definition batch_zero :: batch_result where
  "batch_zero = \<lparr>br_channel_writes = 0, br_c2m_writes = 0, br_c2c_forwards = 0, br_cycles_detected = 0,
     br_slot_misses = 0\<rparr>"

definition batch_merge :: "batch_result \<Rightarrow> batch_result \<Rightarrow> batch_result" where
  "batch_merge a b =
     \<lparr>br_channel_writes = br_channel_writes a + br_channel_writes b,
      br_c2m_writes = br_c2m_writes a + br_c2m_writes b,
      br_c2c_forwards = br_c2c_forwards a + br_c2c_forwards b,
      br_cycles_detected = br_cycles_detected a + br_cycles_detected b,
      br_slot_misses = br_slot_misses a + br_slot_misses b\<rparr>"

definition MAX_C2C_CASCADE_DEPTH :: u8 where
  "MAX_C2C_CASCADE_DEPTH = 2"

section \<open>Grouping\<close>

type_synonym group_key = "u32 \<times> point_type"

definition up_group :: "channel_point_update \<Rightarrow> group_key" where
  "up_group u = (up_channel_id u, up_point_type u)"

definition up_key :: "channel_point_update \<Rightarrow> route_key" where
  "up_key u = (up_channel_id u, up_point_type u, up_point_id u)"

text \<open>\<open>grouped.entry(key).or_default().push(update)\<close>.\<close>

fun group_push :: "channel_point_update \<Rightarrow> (group_key \<times> channel_point_update list) list \<Rightarrow>
    (group_key \<times> channel_point_update list) list" where
  "group_push u [] = [(up_group u, [u])]"
| "group_push u ((k, us) # gs) = (if k = up_group u then (k, us @ [u]) # gs else (k, us) # group_push u gs)"

definition group_updates :: "channel_point_update list \<Rightarrow> (group_key \<times> channel_point_update list) list" where
  "group_updates us = fold group_push us []"

section \<open>Cascade\<close>

definition forward_update :: "c2c_target \<Rightarrow> channel_point_update \<Rightarrow> channel_point_update" where
  "forward_update target u =
     \<lparr>up_channel_id = c2c_channel_id target, up_point_type = c2c_point_type target,
      up_point_id = c2c_point_id target, up_value = transform target (up_value u), up_raw_value = None,
      up_cascade_depth = up_cascade_depth u + 1\<rparr>"

definition c2c_next :: "routing_cache \<Rightarrow> group_key \<Rightarrow> channel_point_update \<Rightarrow> c2c_target option" where
  "c2c_next cache k u =
     (if up_cascade_depth u < MAX_C2C_CASCADE_DEPTH
      then lookup_c2c_by_parts cache (fst k) (snd k) (up_point_id u) else None)"

text \<open>
  The part of the loop over a group's updates that follows the routes: the points visited, the updates to
  forward and the cycles detected.
\<close>

fun c2c_scan :: "routing_cache \<Rightarrow> group_key \<Rightarrow> channel_point_update list \<Rightarrow> route_key set \<Rightarrow>
    channel_point_update list \<Rightarrow> usize \<Rightarrow> route_key set \<times> channel_point_update list \<times> usize" where
  "c2c_scan cache k [] visited fwds cycles = (visited, fwds, cycles)"
| "c2c_scan cache k (u # us) visited fwds cycles =
     (let visited = insert (fst k, snd k, up_point_id u) visited in
      case c2c_next cache k u of
        None \<Rightarrow> c2c_scan cache k us visited fwds cycles
      | Some target \<Rightarrow>
          if (c2c_channel_id target, c2c_point_type target, c2c_point_id target) \<in> visited
          then c2c_scan cache k us visited fwds (cycles + 1)
          else c2c_scan cache k us visited (fwds @ [forward_update target u]) cycles)"

text \<open>Steps an update can still be forwarded, plus one.\<close>

definition cascade_rank :: "channel_point_update \<Rightarrow> nat" where
  "cascade_rank u = Suc (unat MAX_C2C_CASCADE_DEPTH - unat (up_cascade_depth u))"

definition cascade_budget :: "channel_point_update list \<Rightarrow> nat" where
  "cascade_budget us = Max (insert 0 (cascade_rank ` set us))"

lemma cascade_budget_le: "cascade_budget us \<le> n \<longleftrightarrow> (\<forall>u\<in>set us. cascade_rank u \<le> n)"
  by (auto simp: cascade_budget_def)

lemma cascade_rank_le: "u \<in> set us \<Longrightarrow> cascade_rank u \<le> cascade_budget us"
  by (simp add: cascade_budget_def)

lemma c2c_next_rank:
  assumes "c2c_next cache k u = Some t"
  shows "cascade_rank (forward_update t u) < cascade_rank u"
proof -
  have d: "unat (up_cascade_depth u) < 2"
    using assms by (auto simp: c2c_next_def MAX_C2C_CASCADE_DEPTH_def word_less_nat_alt split: if_splits)
  then have "unat (up_cascade_depth u + 1) = unat (up_cascade_depth u) + 1"
    by (simp add: unat_word_ariths)
  then show ?thesis using d by (simp add: cascade_rank_def forward_update_def MAX_C2C_CASCADE_DEPTH_def)
qed

lemma c2c_scan_forwards:
  assumes "c2c_scan cache k us visited fwds cycles = (gv, fwds', cyc)" "f \<in> set fwds'"
  shows "f \<in> set fwds \<or> (\<exists>u t. u \<in> set us \<and> c2c_next cache k u = Some t \<and> f = forward_update t u)"
  using assms
  by (induction us arbitrary: visited fwds cycles)
    (fastforce simp: Let_def split: option.splits if_splits)+

lemma c2c_scan_budget:
  assumes "c2c_scan cache k us visited [] 0 = (gv, fwds, cyc)" "us \<noteq> []"
  shows "cascade_budget fwds < cascade_budget us"
proof -
  have "cascade_rank f < cascade_budget us" if "f \<in> set fwds" for f
    using c2c_scan_forwards [OF assms(1) that] c2c_next_rank cascade_rank_le [of _ us]
    by (fastforce intro: less_le_trans)
  moreover have "0 < cascade_budget us"
    using cascade_rank_le [of "hd us" us] assms(2) by (simp add: cascade_rank_def)
  ultimately show ?thesis by (auto simp: cascade_budget_def [of fwds])
qed

lemma in_group_push:
  "(k, us) \<in> set (group_push u gs) \<Longrightarrow> v \<in> set us \<Longrightarrow> v = u \<or> (\<exists>us'. (k, us') \<in> set gs \<and> v \<in> set us')"
  by (induction u gs rule: group_push.induct) (auto split: if_splits)

lemma in_group_updates:
  assumes "(k, us) \<in> set (group_updates ups)" "v \<in> set us"
  shows "v \<in> set ups"
proof -
  have "(k, us) \<in> set (fold group_push ups gs) \<Longrightarrow> v \<in> set us \<Longrightarrow>
      v \<in> set ups \<or> (\<exists>us'. (k, us') \<in> set gs \<and> v \<in> set us')" for gs
  proof (induction ups arbitrary: gs)
    case (Cons u ups)
    then show ?case using in_group_push [of k _ u gs v] by fastforce
  qed auto
  from this [of "[]"] show ?thesis using assms by (auto simp: group_updates_def)
qed

definition groups_budget :: "(group_key \<times> channel_point_update list) list \<Rightarrow> nat" where
  "groups_budget gs = cascade_budget (concat (map snd gs))"

lemma groups_budget_Cons:
  "cascade_budget us \<le> groups_budget ((k, us) # gs)" "groups_budget gs \<le> groups_budget ((k, us) # gs)"
  unfolding groups_budget_def cascade_budget_le using cascade_rank_le [of _ "us @ concat (map snd gs)"] by auto

lemma groups_budget_batch:
  "groups_budget (sort_key f (group_updates (filter admit us))) \<le> cascade_budget us"
  unfolding groups_budget_def cascade_budget_le
proof
  fix v assume "v \<in> set (concat (map snd (sort_key f (group_updates (filter admit us)))))"
  then obtain g where g: "g \<in> set (group_updates (filter admit us))" "v \<in> set (snd g)"
    by (simp only: set_concat set_map set_sort) blast
  then have "v \<in> set us" using in_group_updates [of "fst g" "snd g" "filter admit us" v] by simp
  then show "cascade_rank v \<le> cascade_budget us" by (rule cascade_rank_le)
qed

lemma c2c_scan_groups_budget:
  assumes "c2c_scan cache k us visited [] 0 = (gv, fwds, cyc)" "fwds \<noteq> []"
  shows "cascade_budget fwds < groups_budget ((k, us) # gs)"
proof -
  have "us \<noteq> []" using assms by auto
  then show ?thesis using c2c_scan_budget [OF assms(1)] groups_budget_Cons(1) [of us k gs] by simp
qed

section \<open>The driver\<close>

record batch_env =
  be_clock :: "nat \<Rightarrow> u64"
  be_order :: "nat \<Rightarrow> group_key \<Rightarrow> nat"

text \<open>
  The recursion all variants of the batch writer share.  \<open>admit\<close> tells which updates take part and
  \<open>store\<close> is what the variant does with a group's updates; neither reads what \<open>c2c_scan\<close> tracks, so the two
  halves of the loop body are run one after the other.  Invocation \<open>n\<close> reads the clock at \<open>be_clock env n\<close> and
  visits the groups in the order of \<open>be_order env n\<close>.
\<close>

function run_batch :: "batch_env \<Rightarrow> routing_cache \<Rightarrow> (channel_point_update \<Rightarrow> bool) \<Rightarrow>
    (u64 \<Rightarrow> group_key \<Rightarrow> channel_point_update list \<Rightarrow> 's \<Rightarrow> ('s \<times> batch_result) outcome) \<Rightarrow>
    channel_point_update list \<Rightarrow> route_key set \<Rightarrow> nat \<Rightarrow> 's \<Rightarrow> ('s \<times> nat \<times> batch_result) outcome"
  and run_groups :: "batch_env \<Rightarrow> routing_cache \<Rightarrow> (channel_point_update \<Rightarrow> bool) \<Rightarrow>
    (u64 \<Rightarrow> group_key \<Rightarrow> channel_point_update list \<Rightarrow> 's \<Rightarrow> ('s \<times> batch_result) outcome) \<Rightarrow> u64 \<Rightarrow>
    (group_key \<times> channel_point_update list) list \<Rightarrow> route_key set \<Rightarrow> nat \<Rightarrow> 's \<Rightarrow> batch_result \<Rightarrow>
    ('s \<times> nat \<times> batch_result) outcome" where
  "run_batch env cache admit store us visited n s =
     (if us = [] then Ret (s, n, batch_zero)
      else run_groups env cache admit store (be_clock env n)
             (sort_key (\<lambda>g. be_order env n (fst g)) (group_updates (filter admit us))) visited (Suc n) s batch_zero)"
| "run_groups env cache admit store ts [] visited n s res = Ret (s, n, res)"
| "run_groups env cache admit store ts ((k, us) # gs) visited n s res =
     (case c2c_scan cache k us visited [] 0 of
        (group_visited, fwds, cycles) \<Rightarrow>
          bind_outcome (store ts k us s) (\<lambda>(s1, stored).
            let res = (batch_merge res stored)\<lparr>br_cycles_detected := br_cycles_detected res + cycles\<rparr> in
            if fwds = [] then run_groups env cache admit store ts gs visited n s1 res
            else bind_outcome (run_batch env cache admit store fwds group_visited n s1) (\<lambda>(s2, n2, sub).
                   run_groups env cache admit store ts gs visited n2 s2
                     (batch_merge (res\<lparr>br_c2c_forwards := br_c2c_forwards res + length fwds\<rparr>) sub))))"
  by pat_completeness auto

termination
proof (relation "measures
    [\<lambda>x. case x of Inl (_, _, _, _, us, _) \<Rightarrow> cascade_budget us | Inr (_, _, _, _, _, gs, _) \<Rightarrow> groups_budget gs,
     \<lambda>x. case x of Inl _ \<Rightarrow> 1 | Inr _ \<Rightarrow> 0,
     \<lambda>x. case x of Inl _ \<Rightarrow> 0 | Inr (_, _, _, _, _, gs, _) \<Rightarrow> length gs]", goal_cases)
  case 1
  show ?case by (rule wf_measures)
next
  case (2 env cache admit store us visited n s)
  show ?case
    using groups_budget_batch [of "\<lambda>g. be_order env n (fst g)" admit us] by (simp add: le_less)
next
  case (3 env cache admit store ts k us gs visited n s res)
  then show ?case using groups_budget_Cons(2) [of gs k us] by (simp add: le_less)
next
  case (4 env cache admit store ts k us gs visited n s res)
  then show ?case by simp (metis c2c_scan_groups_budget)
next
  case (5 env cache admit store ts k us gs visited n s res)
  then show ?case using groups_budget_Cons(2) [of gs k us] by (simp add: le_less)
qed

declare run_batch.simps [simp del] run_groups.simps [simp del]

end
