(* ===== verification/Batch_Rule.thy ===== *)
theory Batch_Rule
  imports Batch_Routing "HOL-Library.Multiset"
begin

text \<open>
  A rule for the cascade that the batch writers share (\<open>libs/voltage-routing/src/batch.rs\<close>,
  \<open>libs/voltage-rtdb-shm/src/batch_direct.rs\<close>): what a variant has to show of the way it stores one group of
  updates, and what then holds of a whole batch with everything its routes forward.
\<close>

section \<open>Groups\<close>

lemma group_push_mset: "mset (concat (map snd (group_push u gs))) = add_mset u (mset (concat (map snd gs)))"
  by (induction u gs rule: group_push.induct) auto

lemma mset_groups: "mset (concat (map snd (group_updates us))) = mset us"
proof -
  have "mset (concat (map snd (fold group_push us gs))) = mset us + mset (concat (map snd gs))" for gs
    by (induction us arbitrary: gs) (auto simp: group_push_mset simp del: mset_concat)
  from this [of "[]"] show ?thesis by (simp add: group_updates_def)
qed

lemma mset_sorted_groups: "mset (concat (map snd (sort_key f (group_updates us)))) = mset us"
proof -
  have c: "mset (concat (map snd gs)) = sum_mset (image_mset (\<lambda>g. mset (snd g)) (mset gs))"
    for gs :: "(group_key \<times> channel_point_update list) list"
    by (induction gs) simp_all
  show ?thesis using mset_groups [of us] by (simp only: c mset_sort)
qed

lemma group_keys:
  assumes "(k, us) \<in> set (group_updates ups)" "v \<in> set us"
  shows "up_group v = k"
proof -
  let ?keyed = "\<lambda>gs. \<forall>g\<in>set gs. \<forall>v\<in>set (snd g). up_group v = fst g"
  have push: "?keyed gs \<Longrightarrow> ?keyed (group_push u gs)" for u gs
  proof (induction u gs rule: group_push.induct)
    case (2 u k us gs)
    then show ?case by (cases "k = up_group u") simp_all
  qed simp
  have "?keyed gs \<Longrightarrow> ?keyed (fold group_push ups gs)" for gs
  proof (induction ups arbitrary: gs)
    case (Cons u ups)
    then show ?case using Cons.IH [OF push [OF Cons.prems]] by simp
  qed simp
  from this [of "[]"] have "?keyed (group_updates ups)" by (simp add: group_updates_def)
  from bspec [OF this assms(1)] show ?thesis using assms(2) by simp
qed

lemma c2c_scan_ranks:
  "c2c_scan cache k us visited fwds cycles = (gv, fwds', cyc) \<Longrightarrow>
     sum_list (map cascade_rank fwds') \<le> sum_list (map cascade_rank fwds) + (\<Sum>u\<leftarrow>us. cascade_rank u - 1)"
proof (induction us arbitrary: visited fwds cycles)
  case (Cons u us)
  let ?v = "insert (fst k, snd k, up_point_id u) visited"
  show ?case
  proof (cases "c2c_next cache k u")
    case None
    then show ?thesis using Cons.IH [of ?v fwds cycles] Cons.prems by simp
  next
    case (Some t)
    have r: "cascade_rank (forward_update t u) \<le> cascade_rank u - 1" using c2c_next_rank [OF Some] by simp
    show ?thesis
    proof (cases "(c2c_channel_id t, c2c_point_type t, c2c_point_id t) \<in> ?v")
      case True
      then show ?thesis using Cons.IH [of ?v fwds "cycles + 1"] Cons.prems Some
        by (simp add: Let_def del: insert_iff)
    next
      case False
      then show ?thesis using Cons.IH [of ?v "fwds @ [forward_update t u]" cycles] Cons.prems Some r
        by (simp add: Let_def del: insert_iff)
    qed
  qed
qed simp

lemma ranks_split: "sum_list (map cascade_rank us) = length us + (\<Sum>u\<leftarrow>us. cascade_rank u - 1)"
  by (induction us) (simp_all add: cascade_rank_def)

section \<open>A rule for the driver\<close>

text \<open>
  Counters after handling \<open>len\<close> updates that allow \<open>steps\<close> forwards in all, when a group's updates
  count for at most \<open>c\<close> each.
\<close>

definition accounted :: "nat \<Rightarrow> nat \<Rightarrow> nat \<Rightarrow> batch_result \<Rightarrow> batch_result \<Rightarrow> bool" where
  "accounted c len steps res res' \<longleftrightarrow>
     br_channel_writes res' + br_slot_misses res' + c * br_c2c_forwards res \<le>
       br_channel_writes res + br_slot_misses res + c * len + c * br_c2c_forwards res' \<and>
     br_c2c_forwards res' \<le> br_c2c_forwards res + steps"

lemma accounted_refl: "accounted c n t res res"
  by (simp add: accounted_def)

lemma accounted_weaken:
  assumes "accounted c n t res res'" "n \<le> m" "t \<le> u"
  shows "accounted c m u res res'"
  using assms(1,3) mult_le_mono2 [OF assms(2), of c] unfolding accounted_def by linarith

lemma accounted_store:
  assumes "br_channel_writes r + br_slot_misses r \<le> c * n" "br_c2c_forwards r = 0"
    and "accounted c m t ((batch_merge res r)\<lparr>br_cycles_detected := x\<rparr>) res'"
  shows "accounted c (n + m) (u + t) res res'"
  using assms by (auto simp: accounted_def batch_merge_def algebra_simps)

lemma accounted_forward:
  assumes "br_channel_writes r + br_slot_misses r \<le> c * n" "br_c2c_forwards r = 0"
    and "accounted c (length fwds) t1 batch_zero sub" "length fwds + t1 \<le> u"
    and "accounted c m t (batch_merge ((batch_merge res r)\<lparr>br_cycles_detected := x,
      br_c2c_forwards := br_c2c_forwards (batch_merge res r) + length fwds\<rparr>) sub) res'"
  shows "accounted c (n + m) (u + t) res res'"
  using assms by (auto simp: accounted_def batch_merge_def batch_zero_def algebra_simps)

text \<open>The updates of a batch and what the routes make of them.\<close>

inductive routed :: "routing_cache \<Rightarrow> channel_point_update list \<Rightarrow> channel_point_update \<Rightarrow> bool" for cache ups where
  given: "u \<in> set ups \<Longrightarrow> routed cache ups u"
| forwarded: "routed cache ups u \<Longrightarrow> c2c_next cache (up_group u) u = Some t \<Longrightarrow> routed cache ups (forward_update t u)"

lemma forwards_bound: "(\<Sum>u\<leftarrow>us. cascade_rank u - 1) \<le> 2 * length us"
  by (induction us) (auto simp: cascade_rank_def MAX_C2C_CASCADE_DEPTH_def)

text \<open>The groups of a batch, in any order.\<close>

lemma sorted_groups:
  fixes f :: "group_key \<times> channel_point_update list \<Rightarrow> nat" and a us
  defines "gs \<equiv> sort_key f (group_updates (filter a us))"
  shows "g \<in> set gs \<Longrightarrow> u \<in> set (snd g) \<Longrightarrow> u \<in> set us \<and> a u \<and> up_group u = fst g"
    and "u \<in> set us \<Longrightarrow> a u \<Longrightarrow> \<exists>g\<in>set gs. u \<in> set (snd g)"
    and "length (concat (map snd gs)) \<le> length us"
    and "(\<Sum>u\<leftarrow>concat (map snd gs). cascade_rank u - 1) \<le> (\<Sum>u\<leftarrow>us. cascade_rank u - 1)"
proof -
  have ms: "mset (concat (map snd gs)) = mset (filter a us)"
    unfolding gs_def by (rule mset_sorted_groups)
  show "g \<in> set gs \<Longrightarrow> u \<in> set (snd g) \<Longrightarrow> u \<in> set us \<and> a u \<and> up_group u = fst g"
    using in_group_updates [of "fst g" "snd g" "filter a us" u] group_keys [of "fst g" "snd g" "filter a us" u]
    by (simp add: gs_def)
  show "\<exists>g\<in>set gs. u \<in> set (snd g)" if "u \<in> set us" "a u"
  proof -
    have "u \<in> set (concat (map snd gs))"
      using that mset_eq_setD [OF ms] by simp
    then show ?thesis by (simp only: set_concat set_map) blast
  qed
  show "length (concat (map snd gs)) \<le> length us"
    using mset_eq_length [OF ms] length_filter_le [of a us] by (simp only:)
  have "(\<Sum>u\<leftarrow>concat (map snd gs). cascade_rank u - 1) = (\<Sum>u\<leftarrow>filter a us. cascade_rank u - 1)"
    using arg_cong [OF ms, of "\<lambda>m. sum_mset (image_mset (\<lambda>u. cascade_rank u - 1) m)"]
    by (simp only: mset_map [symmetric] sum_mset_sum_list)
  also have "\<dots> \<le> (\<Sum>u\<leftarrow>us. cascade_rank u - 1)" by (induction us) auto
  finally show "(\<Sum>u\<leftarrow>concat (map snd gs). cascade_rank u - 1) \<le> (\<Sum>u\<leftarrow>us. cascade_rank u - 1)" .
qed

text \<open>
  What a variant promises of \<open>store\<close>: it never panics on admitted updates of one group, keeps the
  invariant, has stored the updates afterwards and keeps what was stored, and counts each of them at
  most \<open>charge\<close> times.  \<open>good\<close> is a property of updates that forwarding keeps.
\<close>

locale batch_store =
  fixes store :: "u64 \<Rightarrow> group_key \<Rightarrow> channel_point_update list \<Rightarrow> 's \<Rightarrow> ('s \<times> batch_result) outcome"
    and admit :: "channel_point_update \<Rightarrow> bool"
    and cache :: routing_cache
    and good :: "channel_point_update \<Rightarrow> bool"
    and invar :: "'s \<Rightarrow> bool"
    and stored :: "channel_point_update \<Rightarrow> 's \<Rightarrow> bool"
    and charge :: nat
  assumes store_ok: "invar s \<Longrightarrow> (\<And>u. u \<in> set us \<Longrightarrow> good u \<and> admit u \<and> up_group u = k) \<Longrightarrow>
      \<exists>s' r. store ts k us s = Ret (s', r) \<and> invar s' \<and>
        (\<forall>u. u \<in> set us \<or> stored u s \<longrightarrow> stored u s') \<and>
        br_channel_writes r + br_slot_misses r \<le> charge * length us \<and> br_c2c_forwards r = 0"
    and good_forward: "good u \<Longrightarrow> admit u \<Longrightarrow> c2c_next cache (up_group u) u = Some t \<Longrightarrow> good (forward_update t u)"
begin

text \<open>What a run of the driver establishes, given the updates it was handed.\<close>

definition run_ok :: "('s \<times> nat \<times> batch_result) outcome \<Rightarrow> 's \<Rightarrow> channel_point_update set \<Rightarrow> nat \<Rightarrow> nat \<Rightarrow>
    batch_result \<Rightarrow> bool" where
  "run_ok out s us len steps res \<longleftrightarrow>
     (\<exists>s' n' res'. out = Ret (s', n', res') \<and> invar s' \<and> (\<forall>u. u \<in> us \<or> stored u s \<longrightarrow> stored u s') \<and>
        accounted charge len steps res res')"

lemma run_okI:
  assumes "out = Ret (s', n', res')" "invar s'" "\<And>u. u \<in> us \<or> stored u s \<Longrightarrow> stored u s'"
    "accounted charge len steps res res'"
  shows "run_ok out s us len steps res"
  unfolding run_ok_def using assms by (intro exI [of _ s'] exI [of _ n'] exI [of _ res']) simp

lemma run_okE:
  assumes "run_ok out s us len steps res"
  obtains s' n' res' where "out = Ret (s', n', res')" "invar s'" "\<And>u. u \<in> us \<or> stored u s \<Longrightarrow> stored u s'"
    "accounted charge len steps res res'"
  using assms unfolding run_ok_def by blast

lemma run_batch_aux:
  shows "c = cache \<Longrightarrow> a = admit \<Longrightarrow> st = store \<Longrightarrow> invar s \<Longrightarrow> (\<And>u. u \<in> set us \<Longrightarrow> good u) \<Longrightarrow>
      run_ok (run_batch env c a st us visited n s) s {u \<in> set us. admit u} (length us)
        (\<Sum>u\<leftarrow>us. cascade_rank u - 1) batch_zero"
    and "c = cache \<Longrightarrow> a = admit \<Longrightarrow> st = store \<Longrightarrow> invar s \<Longrightarrow>
        (\<And>g u. g \<in> set gs \<Longrightarrow> u \<in> set (snd g) \<Longrightarrow> good u \<and> admit u \<and> up_group u = fst g) \<Longrightarrow>
      run_ok (run_groups env c a st ts gs visited n s res) s {u. \<exists>g\<in>set gs. u \<in> set (snd g)}
        (length (concat (map snd gs))) (\<Sum>u\<leftarrow>concat (map snd gs). cascade_rank u - 1) res"
proof (induction env c a st us visited n s and env c a st ts gs visited n s res
    rule: run_batch_run_groups.induct)
  case (1 env c a st us visited n s)
  show ?case
  proof (cases "us = []")
    case True
    then show ?thesis
      using 1(5) by (intro run_okI [where s' = s and n' = n]) (auto simp: run_batch.simps accounted_refl)
  next
    case False
    let ?gs = "sort_key (\<lambda>g. be_order env n (fst g)) (group_updates (filter a us))"
    note sg = sorted_groups [where f = "\<lambda>g. be_order env n (fst g)" and a = a and us = us]
    have good: "good u \<and> admit u \<and> up_group u = fst g" if "g \<in> set ?gs" "u \<in> set (snd g)" for g u
      using sg(1) [OF that] 1(3,6) by auto
    obtain s' n' res where r: "run_groups env c a st (be_clock env n) ?gs visited (Suc n) s batch_zero = Ret (s', n', res)"
        "invar s'" "\<And>u. u \<in> {u. \<exists>g\<in>set ?gs. u \<in> set (snd g)} \<or> stored u s \<Longrightarrow> stored u s'"
        "accounted charge (length (concat (map snd ?gs))) (\<Sum>u\<leftarrow>concat (map snd ?gs). cascade_rank u - 1) batch_zero res"
      using 1(1) [OF False 1(2-5) good] by (rule run_okE) auto
    show ?thesis
    proof (rule run_okI)
      show "run_batch env c a st us visited n s = Ret (s', n', res)" using False r(1) by (simp add: run_batch.simps)
      show "stored u s'" if "u \<in> {u \<in> set us. admit u} \<or> stored u s" for u
        using that r(3) [of u] sg(2) [of u] 1(3) by auto
    qed (use r(2) accounted_weaken [OF r(4) sg(3,4)] in auto)
  qed
next
  case (2 env c a st ts visited n s res)
  then show ?case by (intro run_okI [where s' = s and n' = n]) (auto simp: run_groups.simps accounted_refl)
next
  case (3 env c a st ts k us gs visited n s res)
  obtain gv fwds cyc where sc: "c2c_scan c k us visited [] 0 = (gv, fwds, cyc)" using prod_cases3 by blast
  have us: "good u \<and> admit u \<and> up_group u = k" if "u \<in> set us" for u using 3(8) [of "(k, us)" u] that by simp
  have gs: "good u \<and> admit u \<and> up_group u = fst g" if "g \<in> set gs" "u \<in> set (snd g)" for g u
    using 3(8) [of g u] that by simp
  obtain s1 r where st: "st ts k us s = Ret (s1, r)" "invar s1" "\<forall>u. u \<in> set us \<or> stored u s \<longrightarrow> stored u s1"
      "br_channel_writes r + br_slot_misses r \<le> charge * length us" "br_c2c_forwards r = 0"
    using store_ok [OF 3(7), of us k ts] us 3(6) by auto
  let ?res = "(batch_merge res r)\<lparr>br_cycles_detected := br_cycles_detected res + cyc\<rparr>"
  have rk: "length fwds + (\<Sum>u\<leftarrow>fwds. cascade_rank u - 1) \<le> (\<Sum>u\<leftarrow>us. cascade_rank u - 1)"
    using c2c_scan_ranks [OF sc] ranks_split [of fwds] by simp
  show ?case
  proof (cases "fwds = []")
    case True
    obtain s' n' res' where r: "run_groups env c a st ts gs visited n s1 ?res = Ret (s', n', res')" "invar s'"
        "\<And>u. u \<in> {u. \<exists>g\<in>set gs. u \<in> set (snd g)} \<or> stored u s1 \<Longrightarrow> stored u s'"
        "accounted charge (length (concat (map snd gs))) (\<Sum>u\<leftarrow>concat (map snd gs). cascade_rank u - 1) ?res res'"
      using 3(1) [OF sc [symmetric] refl refl True 3(4-6) st(2) gs] by (rule run_okE) auto
    show ?thesis
    proof (rule run_okI)
      show "run_groups env c a st ts ((k, us) # gs) visited n s res = Ret (s', n', res')"
        using r(1) True by (simp add: run_groups.simps sc st(1) Let_def)
      show "stored u s'" if "u \<in> {u. \<exists>g\<in>set ((k, us) # gs). u \<in> set (snd g)} \<or> stored u s" for u
        using that r(3) [of u] st(3) by auto
    qed (use r(2) accounted_store [OF st(4,5) r(4)] in auto)
  next
    case False
    have fg: "good f" if "f \<in> set fwds" for f
      using c2c_scan_forwards [OF sc that] us good_forward 3(4) by auto
    obtain s2 n2 sub where b: "run_batch env c a st fwds gv n s1 = Ret (s2, n2, sub)" "invar s2"
        "\<And>u. u \<in> {u \<in> set fwds. admit u} \<or> stored u s1 \<Longrightarrow> stored u s2"
        "accounted charge (length fwds) (\<Sum>u\<leftarrow>fwds. cascade_rank u - 1) batch_zero sub"
      using 3(2) [OF sc [symmetric] refl refl False 3(4-6) st(2) fg] by (rule run_okE) auto
    let ?res2 = "batch_merge (?res\<lparr>br_c2c_forwards := br_c2c_forwards ?res + length fwds\<rparr>) sub"
    obtain s' n' res' where r: "run_groups env c a st ts gs visited n2 s2 ?res2 = Ret (s', n', res')" "invar s'"
        "\<And>u. u \<in> {u. \<exists>g\<in>set gs. u \<in> set (snd g)} \<or> stored u s2 \<Longrightarrow> stored u s'"
        "accounted charge (length (concat (map snd gs))) (\<Sum>u\<leftarrow>concat (map snd gs). cascade_rank u - 1) ?res2 res'"
      using 3(3) [OF sc [symmetric] refl refl False 3(4-6) b(2) gs] by (rule run_okE) auto
    have acc: "accounted charge (length us + length (concat (map snd gs)))
        ((\<Sum>u\<leftarrow>us. cascade_rank u - 1) + (\<Sum>u\<leftarrow>concat (map snd gs). cascade_rank u - 1)) res res'"
      using accounted_forward [OF st(4,5) b(4) rk, of _ _ res "br_cycles_detected res + cyc" res'] r(4) by simp
    show ?thesis
    proof (rule run_okI)
      show "run_groups env c a st ts ((k, us) # gs) visited n s res = Ret (s', n', res')"
        using r(1) b(1) False by (simp add: run_groups.simps sc st(1) Let_def)
      show "stored u s'" if "u \<in> {u. \<exists>g\<in>set ((k, us) # gs). u \<in> set (snd g)} \<or> stored u s" for u
        using that r(3) [of u] b(3) [of u] st(3) by auto
    qed (use r(2) acc in auto)
  qed
qed

lemma run_batch_ok:
  assumes "invar s" "\<And>u. u \<in> set us \<Longrightarrow> good u"
  shows "\<exists>s' n' res. run_batch env cache admit store us visited n s = Ret (s', n', res) \<and> invar s' \<and>
    (\<forall>u. u \<in> set us \<and> admit u \<or> stored u s \<longrightarrow> stored u s') \<and>
    accounted charge (length us) (\<Sum>u\<leftarrow>us. cascade_rank u - 1) batch_zero res"
  using run_batch_aux(1) [OF refl refl refl assms] unfolding run_ok_def by auto

end

end
