(* ===== verification/Batch_Direct.thy ===== *)
theory Batch_Direct
  imports Batch_Rule
begin

text \<open>
  \<open>write_channel_batch_direct\<close> of \<open>libs/voltage-rtdb-shm/src/batch_direct.rs\<close>: a batch of device readings
  stored into the segment through the slot index, with its C2C cascade, and what it guarantees.
\<close>

section \<open>Definition\<close>

fun store_direct :: "channel_to_slot_index \<Rightarrow> u64 \<Rightarrow> group_key \<Rightarrow> channel_point_update list \<Rightarrow>
    unified_writer \<Rightarrow> batch_result \<Rightarrow> (unified_writer \<times> batch_result) outcome" where
  "store_direct idx ts k [] w res = Ret (w, res)"
| "store_direct idx ts k (u # us) w res =
     (let raw_value = (case up_raw_value u of Some r \<Rightarrow> r | None \<Rightarrow> up_value u) in
      case slot_lookup idx (fst k) (snd k) (up_point_id u) of
        Some slot \<Rightarrow>
          bind_outcome (uw_set_direct w slot (up_value u) raw_value ts)
            (\<lambda>w'. store_direct idx ts k us w' (res\<lparr>br_channel_writes := br_channel_writes res + 1\<rparr>))
      | None \<Rightarrow> store_direct idx ts k us w (res\<lparr>br_slot_misses := br_slot_misses res + 1\<rparr>))"

definition write_channel_batch_direct :: "batch_env \<Rightarrow> unified_writer \<Rightarrow> channel_to_slot_index \<Rightarrow> routing_cache \<Rightarrow>
    channel_point_update list \<Rightarrow> (unified_writer \<times> batch_result) outcome" where
  "write_channel_batch_direct env w idx cache updates =
     bind_outcome
       (run_batch env cache (\<lambda>u. is_measurement (up_point_type u))
          (\<lambda>ts k us w. store_direct idx ts k us w batch_zero) updates {} 0 w)
       (\<lambda>(w', n, res). Ret (w', res))"

section \<open>Storing into shared memory\<close>

definition up_cell :: "channel_point_update \<Rightarrow> point_key" where
  "up_cell u = (up_channel_id u, to_u8 (up_point_type u), up_point_id u)"

definition up_sample :: "u64 \<Rightarrow> channel_point_update \<Rightarrow> sample" where
  "up_sample ts u = (up_value u, (case up_raw_value u of Some r \<Rightarrow> r | None \<Rightarrow> up_value u), ts)"

text \<open>
  The writer reached from \<open>w0\<close> by writes of measurement updates that satisfy \<open>P\<close>; the index
  is the one built from the writer's layout.
\<close>

definition batch_invar :: "(channel_point_counts \<Rightarrow> u64) \<Rightarrow> channel_point_counts \<Rightarrow> channel_to_slot_index \<Rightarrow>
    (channel_point_update \<Rightarrow> bool) \<Rightarrow> unified_writer \<Rightarrow> unified_writer \<Rightarrow> bool" where
  "batch_invar lhash cp idx P w0 w \<longleftrightarrow>
     uw_invar lhash cp w \<and> sums_fit cp \<and> idx = from_layouts (uw_channel_layouts w) \<and>
     (\<exists>tr. run_writes uw_write w0 tr = Ret w \<and>
        (\<forall>x\<in>set tr. \<exists>u ts. x = (up_cell u, up_sample ts u) \<and> P u \<and> is_measurement (up_point_type u)))"

lemma slot_lookup_uw_slot:
  assumes "uw_invar lhash cp w" "sums_fit cp"
  shows "slot_lookup (from_layouts (uw_channel_layouts w)) ch pt pid = uw_slot w (ch, to_u8 pt, pid)"
  using slot_lookup_chan_slot [of cp "uw_channel_layouts w" "sw_slot_count (uw_inner w)"] assms
  by (simp add: uw_invar_def uw_slot_def)

lemma run_writes_append:
  "run_writes wr s (xs @ ys) = bind_outcome (run_writes wr s xs) (\<lambda>s'. run_writes wr s' ys)"
proof (induction xs arbitrary: s)
  case (Cons x xs)
  obtain i v raw ts where "x = (i, v, raw, ts)" by (cases x)
  then show ?case using Cons.IH by (cases "wr s i v raw ts") auto
qed simp

lemma batch_invar_write:
  assumes "batch_invar lhash cp idx P w0 w" "P u" "is_measurement (up_point_type u)"
    and "slot_lookup idx (up_channel_id u) (up_point_type u) (up_point_id u) = Some slot"
  shows "\<exists>w'. uw_set_direct w slot (up_value u) (case up_raw_value u of Some r \<Rightarrow> r | None \<Rightarrow> up_value u) ts = Ret w' \<and>
    batch_invar lhash cp idx P w0 w'"
proof -
  let ?raw = "case up_raw_value u of Some r \<Rightarrow> r | None \<Rightarrow> up_value u"
  have i: "uw_invar lhash cp w" "sums_fit cp" "idx = from_layouts (uw_channel_layouts w)"
    using assms(1) by (auto simp: batch_invar_def)
  obtain tr where tr: "run_writes uw_write w0 tr = Ret w"
      "\<forall>x\<in>set tr. \<exists>u ts. x = (up_cell u, up_sample ts u) \<and> P u \<and> is_measurement (up_point_type u)"
    using assms(1) by (auto simp: batch_invar_def)
  have s: "uw_slot w (up_cell u) = Some slot"
    using assms(4) slot_lookup_uw_slot [OF i(1,2)] i(3) by (simp add: up_cell_def)
  obtain w' where w': "uw_set_direct w slot (up_value u) ?raw ts = Ret w'" "uw_invar lhash cp w'"
      "uw_channel_layouts w' = uw_channel_layouts w"
    using uw_set_direct_in [OF i(1) uw_slot_bound [OF i(1) s]] by blast
  have "uw_write w (up_cell u) (up_value u) ?raw ts = Ret (True, w')" by (simp add: uw_write_slot s w'(1))
  then have r: "run_writes uw_write w0 (tr @ [(up_cell u, up_sample ts u)]) = Ret w'"
    by (simp add: run_writes_append tr(1) up_sample_def)
  have "\<forall>x\<in>set (tr @ [(up_cell u, up_sample ts u)]).
      \<exists>u ts. x = (up_cell u, up_sample ts u) \<and> P u \<and> is_measurement (up_point_type u)"
    using tr(2) assms(2,3) by (simp only: set_append ball_Un list.set ball_simps) blast
  with r have "batch_invar lhash cp idx P w0 w'"
    unfolding batch_invar_def w'(3) using w'(2) i(2,3) by (intro conjI exI) assumption+
  then show ?thesis using w'(1) by blast
qed

lemma store_direct_ok:
  assumes "batch_invar lhash cp idx P w0 w" "\<And>u. u \<in> set us \<Longrightarrow> P u \<and> is_measurement (up_point_type u) \<and> up_group u = k"
  shows "\<exists>w' r. store_direct idx ts k us w res = Ret (w', r) \<and> batch_invar lhash cp idx P w0 w' \<and>
    br_channel_writes r + br_slot_misses r = br_channel_writes res + br_slot_misses res + length us \<and>
    br_c2c_forwards r = br_c2c_forwards res"
  using assms
proof (induction us arbitrary: w res)
  case (Cons u us)
  have u: "P u" "is_measurement (up_point_type u)" "k = (up_channel_id u, up_point_type u)"
    using Cons.prems(2) [of u] by (auto simp: up_group_def)
  have us: "P v \<and> is_measurement (up_point_type v) \<and> up_group v = k" if "v \<in> set us" for v
    using Cons.prems(2) [of v] that by simp
  show ?case
  proof (cases "slot_lookup idx (fst k) (snd k) (up_point_id u)")
    case None
    obtain w' r where "store_direct idx ts k us w (res\<lparr>br_slot_misses := br_slot_misses res + 1\<rparr>) = Ret (w', r)"
        "batch_invar lhash cp idx P w0 w'" "br_channel_writes r + br_slot_misses r =
           br_channel_writes res + br_slot_misses res + Suc (length us)" "br_c2c_forwards r = br_c2c_forwards res"
      using Cons.IH [OF Cons.prems(1) us, of "res\<lparr>br_slot_misses := br_slot_misses res + 1\<rparr>"] by auto
    then show ?thesis using None by (simp add: Let_def)
  next
    case (Some slot)
    then obtain w1 where w1: "uw_set_direct w slot (up_value u) (case up_raw_value u of Some r \<Rightarrow> r | None \<Rightarrow> up_value u) ts = Ret w1"
        "batch_invar lhash cp idx P w0 w1"
      using batch_invar_write [OF Cons.prems(1) u(1,2)] u(3) by auto
    obtain w' r where "store_direct idx ts k us w1 (res\<lparr>br_channel_writes := br_channel_writes res + 1\<rparr>) = Ret (w', r)"
        "batch_invar lhash cp idx P w0 w'" "br_channel_writes r + br_slot_misses r =
           br_channel_writes res + br_slot_misses res + Suc (length us)" "br_c2c_forwards r = br_c2c_forwards res"
      using Cons.IH [OF w1(2) us, of "res\<lparr>br_channel_writes := br_channel_writes res + 1\<rparr>"] by auto
    then show ?thesis using w1(1) Some by (simp add: Let_def)
  qed
qed simp

interpretation bd: batch_store "\<lambda>ts k us w. store_direct idx ts k us w batch_zero" "\<lambda>u. is_measurement (up_point_type u)"
    cache "routed cache ups" "batch_invar lhash cp idx (routed cache ups) w0" "\<lambda>_ _. True" 1 for idx cache ups lhash cp w0
proof unfold_locales
  fix w us k ts
  assume a: "batch_invar lhash cp idx (routed cache ups) w0 w"
    "\<And>u. u \<in> set us \<Longrightarrow> routed cache ups u \<and> is_measurement (up_point_type u) \<and> up_group u = k"
  obtain w' r where "store_direct idx ts k us w batch_zero = Ret (w', r)" "batch_invar lhash cp idx (routed cache ups) w0 w'"
      "br_channel_writes r + br_slot_misses r = length us" "br_c2c_forwards r = 0"
    using store_direct_ok [OF a, where ts = ts and res = batch_zero and us = us] by (auto simp: batch_zero_def)
  then show "\<exists>w' r. store_direct idx ts k us w batch_zero = Ret (w', r) \<and> batch_invar lhash cp idx (routed cache ups) w0 w' \<and>
      (\<forall>u. u \<in> set us \<or> True \<longrightarrow> True) \<and>
      br_channel_writes r + br_slot_misses r \<le> 1 * length us \<and> br_c2c_forwards r = 0"
    by (intro exI [of _ w'] exI [of _ r]) simp
next
  fix u t assume "routed cache ups u" "c2c_next cache (up_group u) u = Some t"
  then show "routed cache ups (forward_update t u)" by (rule forwarded)
qed

section \<open>Properties\<close>

lemma run_writes_untouched:
  assumes "uw_invar lhash cp w" "run_writes uw_write w tr = Ret w'" "\<forall>x\<in>set tr. fst x \<noteq> c"
  shows "uw_point w' c = uw_point w c"
proof -
  have "newest tr c = None" using assms(3) by (auto simp: newest_def map_of_eq_None_iff)
  then show ?thesis
    using uw.writes_effect [OF assms(1), of tr] assms(2) by (cases c) auto
qed

text \<open>C4. A batch of device readings always terminates without panicking, whatever the routes and the
  orders of the groups: the writer that results is reached by writes each of which is a measurement
  update of the batch or what at most two route steps make of one; control and adjustment points are
  left alone even when a route points at them; every update and every forwarded update is counted at
  most once as written or missed, and at most two forwards arise per update.\<close>
theorem batch_direct_provenance:
  assumes "uw_invar lhash cp w" "sums_fit cp"
  shows "\<exists>w' res tr.
    write_channel_batch_direct env w (from_layouts (uw_channel_layouts w)) cache ups = Ret (w', res) \<and>
    uw_invar lhash cp w' \<and> run_writes uw_write w tr = Ret w' \<and>
    (\<forall>x\<in>set tr. \<exists>u ts. x = (up_cell u, up_sample ts u) \<and> routed cache ups u \<and> is_measurement (up_point_type u)) \<and>
    (\<forall>ch pt pid. is_action pt \<longrightarrow> uw_point w' (ch, to_u8 pt, pid) = uw_point w (ch, to_u8 pt, pid)) \<and>
    br_channel_writes res + br_slot_misses res \<le> length ups + br_c2c_forwards res \<and>
    br_c2c_forwards res \<le> 2 * length ups"
proof -
  let ?idx = "from_layouts (uw_channel_layouts w)"
  have "run_writes uw_write w [] = Ret w" by simp
  then have i: "batch_invar lhash cp ?idx (routed cache ups) w w"
    unfolding batch_invar_def using assms by (intro conjI exI [of _ "[]"]) simp_all
  obtain w' n res where r: "run_batch env cache (\<lambda>u. is_measurement (up_point_type u))
        (\<lambda>ts k us w. store_direct ?idx ts k us w batch_zero) ups {} 0 w = Ret (w', n, res)"
      "batch_invar lhash cp ?idx (routed cache ups) w w'"
      "accounted 1 (length ups) (\<Sum>u\<leftarrow>ups. cascade_rank u - 1) batch_zero res"
    using bd.run_batch_ok [OF i given, of ups env "{}" 0] by blast
  obtain tr where tr: "run_writes uw_write w tr = Ret w'"
      "\<forall>x\<in>set tr. \<exists>u ts. x = (up_cell u, up_sample ts u) \<and> routed cache ups u \<and> is_measurement (up_point_type u)"
    using r(2) by (auto simp: batch_invar_def)
  have "uw_point w' (ch, to_u8 pt, pid) = uw_point w (ch, to_u8 pt, pid)" if "is_action pt" for ch pt pid
  proof (rule run_writes_untouched [OF assms(1) tr(1)], rule ballI)
    fix x assume "x \<in> set tr"
    then obtain u ts where u: "x = (up_cell u, up_sample ts u)" "is_measurement (up_point_type u)"
      using tr(2) by blast
    then have "up_point_type u \<noteq> pt" using that by (auto simp: action_iff_not_measurement)
    then show "fst x \<noteq> (ch, to_u8 pt, pid)" by (simp add: u(1) up_cell_def)
  qed
  moreover have "uw_invar lhash cp w'" using r(2) by (simp add: batch_invar_def)
  moreover have "write_channel_batch_direct env w ?idx cache ups = Ret (w', res)"
    by (simp add: write_channel_batch_direct_def r(1))
  moreover have "br_channel_writes res + br_slot_misses res \<le> length ups + br_c2c_forwards res"
      "br_c2c_forwards res \<le> 2 * length ups"
    using r(3) forwards_bound [of ups] by (auto simp: accounted_def batch_zero_def)
  ultimately show ?thesis using tr by blast
qed

lemma group_updates_pair:
  "up_group u = k \<Longrightarrow> up_group v = k \<Longrightarrow> group_updates [u, v] = [(k, [u, v])]"
  "group_updates [u] = [(up_group u, [u])]"
  by (simp_all add: group_updates_def)

lemma store_direct_counts:
  "store_direct idx ts k us w res = Ret (w', r) \<Longrightarrow>
     br_c2c_forwards r = br_c2c_forwards res \<and> br_cycles_detected r = br_cycles_detected res"
  by (induction us arbitrary: w res) (fastforce simp: Let_def outcome_simps split: option.splits)+

lemma run_batch_single_group:
  assumes "run_batch env cache admit (\<lambda>ts k us w. store_direct idx ts k us w batch_zero) us visited n w = Ret (w', n', res)"
    and "us \<noteq> []" "group_updates (filter admit us) = [(k, us)]"
    and "c2c_scan cache k us visited [] 0 = (gv, fwds, cyc)"
  shows "if fwds = [] then br_c2c_forwards res = 0 \<and> br_cycles_detected res = cyc
    else \<exists>w1 w2 n2 sub. run_batch env cache admit (\<lambda>ts k us w. store_direct idx ts k us w batch_zero) fwds gv (Suc n) w1 = Ret (w2, n2, sub) \<and>
      br_c2c_forwards res = length fwds + br_c2c_forwards sub \<and> br_cycles_detected res = cyc + br_cycles_detected sub"
proof -
  obtain w1 r where s: "store_direct idx (be_clock env n) k us w batch_zero = Ret (w1, r)"
    using assms by (cases "store_direct idx (be_clock env n) k us w batch_zero") (auto simp: run_batch.simps run_groups.simps)
  note c = store_direct_counts [OF s]
  show ?thesis
  proof (cases "fwds = []")
    case True
    then show ?thesis using assms s c by (auto simp: run_batch.simps run_groups.simps batch_merge_def batch_zero_def)
  next
    case False
    then obtain w2 n2 sub where "run_batch env cache admit (\<lambda>ts k us w. store_direct idx ts k us w batch_zero) fwds gv (Suc n) w1 = Ret (w2, n2, sub)"
      "res = batch_merge (((batch_merge batch_zero r)\<lparr>br_cycles_detected := cyc\<rparr>)\<lparr>br_c2c_forwards := length fwds\<rparr>) sub"
      using assms s c
      by (auto simp: run_batch.simps [of _ _ _ _ us] run_groups.simps batch_merge_def batch_zero_def outcome_simps)
    then show ?thesis using False by (auto simp: batch_merge_def)
  qed
qed

text \<open>C40. Whether a reading is forwarded depends on the order of the batch: when a route leads from
  point \<open>a\<close> to point \<open>b\<close> of the same channel and type and a batch has a reading of each, the reading of
  \<open>a\<close> is forwarded when it comes first, and is dropped and reported as a routing cycle when it comes
  second, although the routes have no cycle.\<close>
theorem sibling_reading_blocks_forward:
  assumes "is_measurement pt" "a \<noteq> b"
    and t: "lookup_c2c_by_parts cache ch pt a =
      Some \<lparr>c2c_channel_id = ch, c2c_point_type = pt, c2c_point_id = b, c2c_scale = sc, c2c_offset = off\<rparr>"
    and n: "lookup_c2c_by_parts cache ch pt b = None"
    and first: "write_channel_batch_direct env w idx cache [update_new ch pt a v, update_new ch pt b v'] = Ret (w1, first)"
    and second: "write_channel_batch_direct env w idx cache [update_new ch pt b v', update_new ch pt a v] = Ret (w2, second)"
  shows "br_c2c_forwards first = 1 \<and> br_cycles_detected first = 0 \<and>
    br_c2c_forwards second = 0 \<and> br_cycles_detected second = 1"
proof -
  let ?t = "\<lparr>c2c_channel_id = ch, c2c_point_type = pt, c2c_point_id = b, c2c_scale = sc, c2c_offset = off\<rparr>"
  let ?a = "update_new ch pt a v" and ?b = "update_new ch pt b v'"
  let ?f = "forward_update ?t ?a"
  let ?run = "run_batch env cache (\<lambda>u. is_measurement (up_point_type u)) (\<lambda>ts k us w. store_direct idx ts k us w batch_zero)"
  have nx: "c2c_next cache (ch, pt) ?a = Some ?t" "c2c_next cache (ch, pt) ?b = None" "c2c_next cache (ch, pt) ?f = None"
    using t n by (simp_all add: c2c_next_def update_new_def forward_update_def MAX_C2C_CASCADE_DEPTH_def)
  have g: "up_group ?a = (ch, pt)" "up_group ?b = (ch, pt)" "up_group ?f = (ch, pt)"
    by (simp_all add: up_group_def update_new_def forward_update_def)
  have sa: "c2c_scan cache (ch, pt) [?a, ?b] {} [] 0 = ({(ch, pt, a), (ch, pt, b)}, [?f], 0)"
    using nx assms(2) by (auto simp: update_new_def)
  have sb: "c2c_scan cache (ch, pt) [?b, ?a] {} [] 0 = ({(ch, pt, a), (ch, pt, b)}, [], 1)"
    using nx assms(2) by (auto simp: update_new_def)
  have sf: "c2c_scan cache (ch, pt) [?f] V [] 0 = (insert (ch, pt, b) V, [], 0)" for V
    using nx by (simp add: forward_update_def)
  have m: "is_measurement (up_point_type ?a)" "is_measurement (up_point_type ?b)" "is_measurement (up_point_type ?f)"
    using assms(1) by (simp_all add: update_new_def forward_update_def)
  let ?groups = "\<lambda>us. group_updates (filter (\<lambda>u. is_measurement (up_point_type u)) us)"
  have gs: "?groups [?a, ?b] = [((ch, pt), [?a, ?b])]" "?groups [?b, ?a] = [((ch, pt), [?b, ?a])]" "?groups [?f] = [((ch, pt), [?f])]"
    using m g by (simp_all add: group_updates_pair)
  obtain n1 where r1: "?run [?a, ?b] {} 0 w = Ret (w1, n1, first)"
    using first by (auto simp: write_channel_batch_direct_def outcome_simps)
  obtain n2 where r2: "?run [?b, ?a] {} 0 w = Ret (w2, n2, second)"
    using second by (auto simp: write_channel_batch_direct_def outcome_simps)
  have "br_c2c_forwards second = 0 \<and> br_cycles_detected second = 1"
    using run_batch_single_group [OF r2 _ gs(2) sb] by simp
  moreover obtain w3 w4 n3 sub where f: "?run [?f] {(ch, pt, a), (ch, pt, b)} 1 w3 = Ret (w4, n3, sub)"
      "br_c2c_forwards first = 1 + br_c2c_forwards sub" "br_cycles_detected first = br_cycles_detected sub"
    using run_batch_single_group [OF r1 _ gs(1) sa] by auto
  moreover have "br_c2c_forwards sub = 0 \<and> br_cycles_detected sub = 0"
    using run_batch_single_group [OF f(1) _ gs(3) sf] by simp
  ultimately show ?thesis by simp
qed

section \<open>Witnesses\<close>

definition demo_batch_env :: batch_env where
  "demo_batch_env = \<lparr>be_clock = (\<lambda>n. of_nat n), be_order = (\<lambda>_ _. 0)\<rparr>"

text \<open>One route, from telemetry 0 to telemetry 1 of channel 1.\<close>

definition demo_c2c_cache :: routing_cache where
  "demo_c2c_cache = \<lparr>rc_c2m = Map.empty,
     rc_c2c = [(1, Telemetry, 0) \<mapsto> \<lparr>c2c_channel_id = 1, c2c_point_type = Telemetry, c2c_point_id = 1,
        c2c_scale = f64_one, c2c_offset = f64_zero\<rparr>],
     rc_m2c = Map.empty, rc_c2m_reverse = Map.empty\<rparr>"

abbreviation demo_direct :: "channel_point_update list \<Rightarrow> (unified_writer \<times> batch_result) outcome" where
  "demo_direct us \<equiv> write_channel_batch_direct demo_batch_env demo_shm_writer
     (from_layouts (uw_channel_layouts demo_shm_writer)) demo_c2c_cache us"

theorem batch_direct_provenance_witness:
  "\<exists>w' res tr. demo_direct [update_new 1 Telemetry 0 5, update_new 1 Control 0 6] = Ret (w', res) \<and>
     run_writes uw_write demo_shm_writer tr = Ret w' \<and>
     uw_point w' (1, to_u8 Control, 0) = uw_point demo_shm_writer (1, to_u8 Control, 0) \<and> br_c2c_forwards res \<le> 4"
proof -
  obtain w' res tr where r: "demo_direct [update_new 1 Telemetry 0 5, update_new 1 Control 0 6] = Ret (w', res)"
      "run_writes uw_write demo_shm_writer tr = Ret w'"
      "\<forall>ch pt pid. is_action pt \<longrightarrow> uw_point w' (ch, to_u8 pt, pid) = uw_point demo_shm_writer (ch, to_u8 pt, pid)"
      "br_c2c_forwards res \<le> 2 * length [update_new 1 Telemetry 0 5, update_new 1 Control 0 6]"
    using batch_direct_provenance [OF demo_shm_invar demo_sums_fit, of demo_batch_env demo_c2c_cache
        "[update_new 1 Telemetry 0 5, update_new 1 Control 0 6]"]
    by (elim exE conjE) (rule that)
  have "is_action Control" by simp
  with r(3) have "uw_point w' (1, to_u8 Control, 0) = uw_point demo_shm_writer (1, to_u8 Control, 0)" by blast
  with r(1,2,4) show ?thesis by auto
qed

theorem sibling_reading_blocks_forward_witness:
  "\<exists>w1 first w2 second.
     demo_direct [update_new 1 Telemetry 0 5, update_new 1 Telemetry 1 6] = Ret (w1, first) \<and> br_c2c_forwards first = 1 \<and>
     demo_direct [update_new 1 Telemetry 1 6, update_new 1 Telemetry 0 5] = Ret (w2, second) \<and> br_cycles_detected second = 1"
proof -
  have total: "\<exists>w' res. demo_direct us = Ret (w', res)" for us
  proof -
    have "batch_invar (\<lambda>_. 7) demo_counts (from_layouts (uw_channel_layouts demo_shm_writer))
        (routed demo_c2c_cache us) demo_shm_writer demo_shm_writer"
      unfolding batch_invar_def using demo_shm_invar demo_sums_fit by (intro conjI exI [of _ "[]"]) simp_all
    from bd.run_batch_ok [OF this given, of us demo_batch_env "{}" 0] show ?thesis
      by (auto simp: write_channel_batch_direct_def)
  qed
  obtain w1 first w2 second where r:
      "demo_direct [update_new 1 Telemetry 0 5, update_new 1 Telemetry 1 6] = Ret (w1, first)"
      "demo_direct [update_new 1 Telemetry 1 6, update_new 1 Telemetry 0 5] = Ret (w2, second)"
    using total by blast
  have "is_measurement Telemetry" "(0 :: u32) \<noteq> 1"
    "lookup_c2c_by_parts demo_c2c_cache 1 Telemetry 0 = Some \<lparr>c2c_channel_id = 1, c2c_point_type = Telemetry,
       c2c_point_id = 1, c2c_scale = f64_one, c2c_offset = f64_zero\<rparr>"
    "lookup_c2c_by_parts demo_c2c_cache 1 Telemetry 1 = None"
    by (simp_all add: lookup_c2c_by_parts_def demo_c2c_cache_def)
  from sibling_reading_blocks_forward [OF this r] r show ?thesis by blast
qed

end
