(* ===== verification/Key_Space.thy ===== *)
theory Key_Space
  imports Routing
begin

text \<open>
  The Redis key names, \<open>libs/voltage-model/src/keyspace.rs\<close>: every service builds its keys through
  \<open>KeySpaceConfig\<close>, which is the only place that fixes their shape.  A key is a \<open>string\<close>, and
  \<open>format!\<close> is concatenation.  The theory shows that the keys of one environment never collide and
  that the production and the test environment share no key.
\<close>

section \<open>Configurations\<close>

record key_space_config =
  data_prefix :: string
  inst_prefix :: string
  routing_table :: string
  target_prefix :: "string option"
  inst_name_pattern :: "string option"

definition production :: key_space_config where
  "production =
     \<lparr>data_prefix = ''comsrv'', inst_prefix = ''inst'', routing_table = ''route:c2m'',
      target_prefix = None, inst_name_pattern = None\<rparr>"

definition test_config :: key_space_config where
  "test_config =
     \<lparr>data_prefix = ''test:comsrv'', inst_prefix = ''test:inst'', routing_table = ''test:route:c2m'',
      target_prefix = Some ''test:comsrv'', inst_name_pattern = Some ''test:inst:*:name''\<rparr>"

text \<open>\<open>s.contains(p)\<close> and \<open>s.strip_suffix(p)\<close>.\<close>

fun str_contains :: "string \<Rightarrow> string \<Rightarrow> bool" where
  "str_contains p [] = (p = [])"
| "str_contains p (x # xs) = (take (length p) (x # xs) = p \<or> str_contains p xs)"

definition strip_suffix :: "string \<Rightarrow> string \<Rightarrow> string option" where
  "strip_suffix p s =
     (let n = length s - length p
      in if length p \<le> length s \<and> drop n s = p then Some (take n s) else None)"

definition for_m2c :: "key_space_config \<Rightarrow> key_space_config" where
  "for_m2c c =
     \<lparr>data_prefix = inst_prefix c, inst_prefix = inst_prefix c,
      routing_table =
        (if str_contains ''test:'' (routing_table c) then ''test:route:m2c'' else ''route:m2c''),
      target_prefix = Some (data_prefix c),
      inst_name_pattern = Some (inst_prefix c @ '':*:name'')\<rparr>"

section \<open>Keys\<close>

definition channel_key :: "key_space_config \<Rightarrow> u32 \<Rightarrow> point_type \<Rightarrow> string" where
  "channel_key c channel pt = data_prefix c @ '':'' @ u32_to_string channel @ '':'' @ as_str pt"

definition channel_ts_key :: "key_space_config \<Rightarrow> u32 \<Rightarrow> point_type \<Rightarrow> string" where
  "channel_ts_key c channel pt =
     data_prefix c @ '':'' @ u32_to_string channel @ '':'' @ as_str pt @ '':ts''"

definition channel_raw_key :: "key_space_config \<Rightarrow> u32 \<Rightarrow> point_type \<Rightarrow> string" where
  "channel_raw_key c channel pt =
     data_prefix c @ '':'' @ u32_to_string channel @ '':'' @ as_str pt @ '':raw''"

definition instance_measurement_key :: "key_space_config \<Rightarrow> u32 \<Rightarrow> string" where
  "instance_measurement_key c i = inst_prefix c @ '':'' @ u32_to_string i @ '':M''"

definition instance_action_key :: "key_space_config \<Rightarrow> u32 \<Rightarrow> string" where
  "instance_action_key c i = inst_prefix c @ '':'' @ u32_to_string i @ '':A''"

definition instance_measurement_ts_key :: "key_space_config \<Rightarrow> u32 \<Rightarrow> string" where
  "instance_measurement_ts_key c i = inst_prefix c @ '':'' @ u32_to_string i @ '':M:ts''"

definition instance_action_ts_key :: "key_space_config \<Rightarrow> u32 \<Rightarrow> string" where
  "instance_action_ts_key c i = inst_prefix c @ '':'' @ u32_to_string i @ '':A:ts''"

definition instance_name_key :: "key_space_config \<Rightarrow> u32 \<Rightarrow> string" where
  "instance_name_key c i = inst_prefix c @ '':'' @ u32_to_string i @ '':name''"

definition channels_hash_key :: "key_space_config \<Rightarrow> string" where
  "channels_hash_key c = data_prefix c @ '':channels''"

definition channel_online_key :: "key_space_config \<Rightarrow> string" where
  "channel_online_key c = data_prefix c @ '':online''"

definition instance_measurement_point_key :: "key_space_config \<Rightarrow> u32 \<Rightarrow> string \<Rightarrow> string" where
  "instance_measurement_point_key c i p = inst_prefix c @ '':'' @ u32_to_string i @ '':M:'' @ p"

definition instance_action_point_key :: "key_space_config \<Rightarrow> u32 \<Rightarrow> string \<Rightarrow> string" where
  "instance_action_point_key c i p = inst_prefix c @ '':'' @ u32_to_string i @ '':A:'' @ p"

definition instance_pattern :: "key_space_config \<Rightarrow> u32 \<Rightarrow> string" where
  "instance_pattern c i = inst_prefix c @ '':'' @ u32_to_string i @ '':*''"

definition instance_name_index_key :: "key_space_config \<Rightarrow> string" where
  "instance_name_index_key c = inst_prefix c @ '':name:index''"

definition c2m_route_key :: "u32 \<Rightarrow> point_type \<Rightarrow> string \<Rightarrow> string" where
  "c2m_route_key channel pt p = u32_to_string channel @ '':'' @ as_str pt @ '':'' @ p"

definition route_measurement_prefix :: "u32 \<Rightarrow> string" where
  "route_measurement_prefix i = u32_to_string i @ '':M:''"

definition route_action_prefix :: "u32 \<Rightarrow> string" where
  "route_action_prefix i = u32_to_string i @ '':A:''"

definition env_prefix :: "key_space_config \<Rightarrow> string" where
  "env_prefix c = (case strip_suffix ''inst'' (inst_prefix c) of Some s \<Rightarrow> s | None \<Rightarrow> [])"

definition product_key :: "key_space_config \<Rightarrow> string \<Rightarrow> string" where
  "product_key c name = env_prefix c @ ''modsrv:product:'' @ name"

definition product_index_key :: "key_space_config \<Rightarrow> string" where
  "product_index_key c = env_prefix c @ ''modsrv:products''"

text \<open>\<open>n.to_string()\<close> of an \<open>i64\<close>.\<close>

definition i64_to_string :: "i64 \<Rightarrow> string" where
  "i64_to_string n =
     (if sint n < 0 then CHR ''-'' # nat_digits (nat (- sint n)) else nat_digits (nat (sint n)))"

definition rule_exec_key :: "key_space_config \<Rightarrow> i64 \<Rightarrow> string" where
  "rule_exec_key c r = env_prefix c @ ''rule:'' @ i64_to_string r @ '':exec''"

section \<open>The key space\<close>

text \<open>
  What a key is about, one constructor per method that builds a key (patterns and route prefixes
  are not keys).  Points are named by their number: the methods also accept other strings, and a
  point called \<open>ts\<close> would collide with the time stamps of its instance.
\<close>

datatype redis_key =
    Channel u32 point_type | Channel_Ts u32 point_type | Channel_Raw u32 point_type
  | Channels_Hash | Channel_Online
  | Measurements u32 | Actions u32 | Measurements_Ts u32 | Actions_Ts u32
  | Measurement_Point u32 u32 | Action_Point u32 u32
  | Instance_Name u32 | Name_Index
  | Product string | Product_Index | Rule_Exec i64

fun key_of :: "key_space_config \<Rightarrow> redis_key \<Rightarrow> string" where
  "key_of c (Channel i p) = channel_key c i p"
| "key_of c (Channel_Ts i p) = channel_ts_key c i p"
| "key_of c (Channel_Raw i p) = channel_raw_key c i p"
| "key_of c Channels_Hash = channels_hash_key c"
| "key_of c Channel_Online = channel_online_key c"
| "key_of c (Measurements i) = instance_measurement_key c i"
| "key_of c (Actions i) = instance_action_key c i"
| "key_of c (Measurements_Ts i) = instance_measurement_ts_key c i"
| "key_of c (Actions_Ts i) = instance_action_ts_key c i"
| "key_of c (Measurement_Point i p) = instance_measurement_point_key c i (u32_to_string p)"
| "key_of c (Action_Point i p) = instance_action_point_key c i (u32_to_string p)"
| "key_of c (Instance_Name i) = instance_name_key c i"
| "key_of c Name_Index = instance_name_index_key c"
| "key_of c (Product n) = product_key c n"
| "key_of c Product_Index = product_index_key c"
| "key_of c (Rule_Exec r) = rule_exec_key c r"

text \<open>The pieces of a key between its colons, without the environment prefix.\<close>

fun key_parts :: "redis_key \<Rightarrow> string list" where
  "key_parts (Channel i p) = [''comsrv'', u32_to_string i, as_str p]"
| "key_parts (Channel_Ts i p) = [''comsrv'', u32_to_string i, as_str p, ''ts'']"
| "key_parts (Channel_Raw i p) = [''comsrv'', u32_to_string i, as_str p, ''raw'']"
| "key_parts Channels_Hash = [''comsrv'', ''channels'']"
| "key_parts Channel_Online = [''comsrv'', ''online'']"
| "key_parts (Measurements i) = [''inst'', u32_to_string i, ''M'']"
| "key_parts (Actions i) = [''inst'', u32_to_string i, ''A'']"
| "key_parts (Measurements_Ts i) = [''inst'', u32_to_string i, ''M'', ''ts'']"
| "key_parts (Actions_Ts i) = [''inst'', u32_to_string i, ''A'', ''ts'']"
| "key_parts (Measurement_Point i p) = [''inst'', u32_to_string i, ''M'', u32_to_string p]"
| "key_parts (Action_Point i p) = [''inst'', u32_to_string i, ''A'', u32_to_string p]"
| "key_parts (Instance_Name i) = [''inst'', u32_to_string i, ''name'']"
| "key_parts Name_Index = [''inst'', ''name'', ''index'']"
| "key_parts (Product n) = ''modsrv'' # ''product'' # split_on CHR '':'' n"
| "key_parts Product_Index = [''modsrv'', ''products'']"
| "key_parts (Rule_Exec r) = [''rule'', i64_to_string r, ''exec'']"

section \<open>Numbers in keys\<close>

lemma u32_to_string_inject [simp]: "u32_to_string a = u32_to_string b \<longleftrightarrow> a = b"
  by (metis option.inject parse_u32_to_string)

lemma nat_digits_inject [simp]: "nat_digits a = nat_digits b \<longleftrightarrow> a = b"
  by (metis nat_digits_props)

lemma as_str_inject [simp]: "as_str p = as_str q \<longleftrightarrow> p = q"
  by (metis from_str_as_str option.inject)

lemma u32_to_string_digits: "list_all is_digit (u32_to_string n) \<and> u32_to_string n \<noteq> []"
  using nat_digits_props by (simp add: u32_to_string_def)

text \<open>A number is none of the words that stand at its place in another key.\<close>

lemma u32_not_word [simp]:
  "\<not> is_digit c \<Longrightarrow> u32_to_string n \<noteq> c # s" "\<not> is_digit c \<Longrightarrow> c # s \<noteq> u32_to_string n"
  using u32_to_string_digits [of n] by (metis list.pred_inject(2))+

lemma minus_not_digit: "\<not> is_digit CHR ''-''"
  by (simp add: is_digit_def)

lemma nat_digits_not_minus [simp]:
  "nat_digits n \<noteq> CHR ''-'' # s" "CHR ''-'' # s \<noteq> nat_digits n"
  using nat_digits_props [of n] minus_not_digit by (metis list.pred_inject(2))+

lemma i64_to_string_inject [simp]: "i64_to_string a = i64_to_string b \<longleftrightarrow> a = b"
  by (auto simp: i64_to_string_def eq_nat_nat_iff split: if_splits intro: signed_word_eqI)

lemma colon_not_in_i64 [simp]: "CHR '':'' \<notin> set (i64_to_string n)"
  using nat_digits_props colon_not_digit by (auto simp: i64_to_string_def)

section \<open>Keys split into their parts\<close>

lemma split_on_nonempty [simp]: "split_on c s \<noteq> []" "[] \<noteq> split_on c s"
  by (induction s) (auto split: list.splits)

lemma split_on_inject [simp]: "split_on c s = split_on c t \<longleftrightarrow> s = t"
proof
  show "split_on c s = split_on c t \<Longrightarrow> s = t"
  proof (induction s arbitrary: t)
    case Nil
    then show ?case by (cases t) (auto split: if_splits list.splits)
  next
    case (Cons x s)
    note ih = Cons.IH and eq = Cons.prems
    show ?case
    proof (cases t)
      case Nil
      with eq show ?thesis by (auto split: if_splits list.splits)
    next
      case (Cons y u)
      obtain p ps q qs where "split_on c s = p # ps" "split_on c u = q # qs"
        by (meson split_on_nonempty(1) list.exhaust)
      with eq ih [of u] Cons show ?thesis by (auto split: if_splits)
    qed
  qed
qed simp

lemmas key_defs =
  channel_key_def channel_ts_key_def channel_raw_key_def channels_hash_key_def channel_online_key_def
  instance_measurement_key_def instance_action_key_def instance_measurement_ts_key_def
  instance_action_ts_key_def instance_measurement_point_key_def instance_action_point_key_def
  instance_name_key_def instance_name_index_key_def product_key_def product_index_key_def
  rule_exec_key_def

lemma env_prefixes [simp]: "env_prefix production = []" "env_prefix test_config = ''test:''"
  by code_simp+

lemma prefixes [simp]:
  "data_prefix production = ''comsrv''" "inst_prefix production = ''inst''"
  "data_prefix test_config = ''test:comsrv''" "inst_prefix test_config = ''test:inst''"
  by (simp_all add: production_def test_config_def)

lemma split_on_cons [simp]:
  "split_on c (c # s) = [] # split_on c s"
  "x \<noteq> c \<Longrightarrow> split_on c (x # s) = (x # hd (split_on c s)) # tl (split_on c s)"
  by (auto split: list.splits)

lemma split_key_production [simp]: "split_on CHR '':'' (key_of production k) = key_parts k"
  by (cases k) (simp_all add: key_defs split_on_append split_on_no_sep)

lemma split_key_test [simp]: "split_on CHR '':'' (key_of test_config k) = ''test'' # key_parts k"
  by (cases k) (simp_all add: key_defs split_on_append split_on_no_sep)

lemma key_parts_inject: "key_parts k = key_parts k' \<longleftrightarrow> k = k'"
  by (cases k; cases k') (simp_all add: is_digit_def)

lemma key_parts_not_test: "key_parts k \<noteq> ''test'' # ps"
  by (cases k) simp_all

text \<open>A route built for the routing table is read back by its parser.\<close>

lemma c2m_route_key_parsed [simp]:
  "parse_route_key (c2m_route_key channel pt (u32_to_string p)) = Some (channel, pt, p)"
  by (simp add: c2m_route_key_def parse_route_key_def split_on_append split_on_no_sep)

lemma key_of_production_inject: "key_of production k = key_of production k' \<longleftrightarrow> k = k'"
proof -
  have "key_of production k = key_of production k' \<longleftrightarrow>
      split_on CHR '':'' (key_of production k) = split_on CHR '':'' (key_of production k')"
    by (simp only: split_on_inject)
  then show ?thesis by (simp only: split_key_production key_parts_inject)
qed

text \<open>The instances the batch writers need.\<close>

lemma mirror_keys [simp]:
  "channel_key production c p = channel_key production c' p' \<longleftrightarrow> c = c' \<and> p = p'"
  "channel_key production c p \<noteq> channel_ts_key production c' p'"
  "channel_key production c p \<noteq> channel_raw_key production c' p'"
  "channel_key production c p \<noteq> instance_measurement_key production i"
  "channel_key production c p \<noteq> instance_measurement_ts_key production i"
  "instance_measurement_key production i = instance_measurement_key production i' \<longleftrightarrow> i = i'"
  "instance_measurement_key production i \<noteq> channel_key production c p"
  "instance_measurement_key production i \<noteq> channel_ts_key production c p"
  "instance_measurement_key production i \<noteq> channel_raw_key production c p"
  "instance_measurement_key production i \<noteq> instance_measurement_ts_key production i'"
  using key_of_production_inject [of "Channel c p"] key_of_production_inject [of "Measurements i"]
  by (metis key_of.simps redis_key.distinct redis_key.inject)+

section \<open>Property\<close>

text \<open>C16. Within the production environment, and within the test environment, two keys are equal only if
  they are about the same thing: values, time stamps, raw values, instance points, names, products
  and rule states of different channels, instances or rules never share a key.  No production key is
  a test key.
\<close>

theorem key_space_collision_free:
  "(key_of production k = key_of production k' \<longleftrightarrow> k = k') \<and>
   (key_of test_config k = key_of test_config k' \<longleftrightarrow> k = k') \<and>
   key_of production k \<noteq> key_of test_config k'"
proof (intro conjI)
  let ?s = "split_on CHR '':''"
  show "key_of production k = key_of production k' \<longleftrightarrow> k = k'"
    by (rule key_of_production_inject)
  have "key_of test_config k = key_of test_config k' \<longleftrightarrow> ?s (key_of test_config k) = ?s (key_of test_config k')"
    by (simp only: split_on_inject)
  then show "key_of test_config k = key_of test_config k' \<longleftrightarrow> k = k'"
    by (simp only: split_key_test list.inject key_parts_inject simp_thms)
  have "?s (key_of production k) \<noteq> ?s (key_of test_config k')"
    by (simp only: split_key_production split_key_test key_parts_not_test not_False_eq_True)
  then show "key_of production k \<noteq> key_of test_config k'"
    by (simp only: split_on_inject not_False_eq_True)
qed

end
