(* ===== verification/Memory_Rtdb.thy ===== *)
theory Memory_Rtdb
  imports Key_Space "HOL-Library.AList" "HOL-Library.Char_ord" "HOL-Library.List_Lexorder"
begin

text \<open>
  The real-time database: number formatting (\<open>libs/voltage-rtdb/src/numfmt.rs\<close>), the in-memory
  backend (\<open>memory_impl.rs\<close>) with every operation of the \<open>Rtdb\<close> trait, and the contract its hash
  operations give to the write buffer.  A \<open>DashMap\<close> is an association list with distinct keys
  (\<open>AList.update\<close>, \<open>AList.delete\<close>), a \<open>DashSet\<close> a list without duplicates, and \<open>Bytes\<close> are a
  \<open>string\<close>.  Each operation holds the lock of its entry, so it is one function on the state.  The
  crates \<open>itoa\<close>, \<open>ryu\<close> and \<open>regex\<close> are parameters.
\<close>

section \<open>Formatting numbers\<close>

record num_format =
  fmt_u32 :: "u32 \<Rightarrow> string"
  fmt_usize :: "usize \<Rightarrow> string"
  fmt_i64 :: "i64 \<Rightarrow> string"
  fmt_f64 :: "f64 \<Rightarrow> string"

text \<open>What \<open>itoa\<close> documents: the decimal digits of the number.\<close>

definition decimal_ids :: "num_format \<Rightarrow> bool" where
  "decimal_ids fmt \<longleftrightarrow> (\<forall>n. fmt_u32 fmt n = u32_to_string n) \<and> (\<forall>n. fmt_usize fmt n = nat_digits n)"

definition u32_to_bytes :: "num_format \<Rightarrow> u32 \<Rightarrow> string" where
  "u32_to_bytes fmt n = fmt_u32 fmt n"

definition i64_to_bytes :: "num_format \<Rightarrow> i64 \<Rightarrow> string" where
  "i64_to_bytes fmt n = fmt_i64 fmt n"

definition f64_to_bytes :: "num_format \<Rightarrow> f64 \<Rightarrow> string" where
  "f64_to_bytes fmt n = fmt_f64 fmt n"

definition u32_to_arc_str :: "num_format \<Rightarrow> u32 \<Rightarrow> string" where
  "u32_to_arc_str fmt n = fmt_u32 fmt n"

subsection \<open>The cache of point numbers\<close>

type_synonym point_id_cache = "string option list"

definition DEFAULT_CAPACITY :: usize where
  "DEFAULT_CAPACITY = 1024"

definition pic_with_capacity :: "usize \<Rightarrow> point_id_cache" where
  "pic_with_capacity capacity = replicate capacity None"

definition pic_new :: point_id_cache where
  "pic_new = replicate DEFAULT_CAPACITY None"

definition pic_get :: "num_format \<Rightarrow> u32 \<Rightarrow> point_id_cache \<Rightarrow> string \<times> point_id_cache" where
  "pic_get fmt p cache =
     (let idx = unat p in
      if idx < length cache then
        (case cache ! idx of
           Some s \<Rightarrow> (s, cache)
         | None \<Rightarrow> (let s = u32_to_arc_str fmt p in (s, cache[idx := Some s])))
      else (u32_to_arc_str fmt p, cache))"

definition pic_get_cached :: "u32 \<Rightarrow> point_id_cache \<Rightarrow> string option" where
  "pic_get_cached p cache = (let idx = unat p in if idx < length cache then cache ! idx else None)"

definition pic_clear :: "point_id_cache \<Rightarrow> point_id_cache" where
  "pic_clear cache = map (\<lambda>_. None) cache"

text \<open>\<open>precomputed\<close>: the names of the first 256 points, computed once.\<close>

definition POINT_ID_POOL :: "num_format \<Rightarrow> string list" where
  "POINT_ID_POOL fmt = map (fmt_usize fmt) [0..<256]"

definition get_point_id_str :: "num_format \<Rightarrow> u32 \<Rightarrow> string option" where
  "get_point_id_str fmt p = (if p < 256 then Some (POINT_ID_POOL fmt ! unat p) else None)"

definition get_point_id_str_or_alloc :: "num_format \<Rightarrow> u32 \<Rightarrow> string" where
  "get_point_id_str_or_alloc fmt p =
     (if p < 256 then POINT_ID_POOL fmt ! unat p else u32_to_arc_str fmt p)"

section \<open>The in-memory database\<close>

type_synonym 'v dash_map = "(string \<times> 'v) list"

record memory_rtdb =
  kv_store :: "string dash_map"
  hash_store :: "string dash_map dash_map"
  list_store :: "string list dash_map"
  set_store :: "string list dash_map"

definition mem_new :: memory_rtdb where
  "mem_new = \<lparr>kv_store = [], hash_store = [], list_store = [], set_store = []\<rparr>"

definition mem_clear :: "memory_rtdb \<Rightarrow> memory_rtdb" where
  "mem_clear db = db\<lparr>kv_store := [], hash_store := [], list_store := [], set_store := []\<rparr>"

record memory_stats =
  kv_count :: usize
  hash_count :: usize
  list_count :: usize
  set_count :: usize

definition mem_stats :: "memory_rtdb \<Rightarrow> memory_stats" where
  "mem_stats db =
     \<lparr>kv_count = length (kv_store db), hash_count = length (hash_store db),
      list_count = length (list_store db), set_count = length (set_store db)\<rparr>"

text \<open>\<open>map.entry(key).or_default()\<close>.\<close>

definition entry_or_default :: "string \<Rightarrow> 'v list dash_map \<Rightarrow> 'v list" where
  "entry_or_default k m = (case map_of m k of Some e \<Rightarrow> e | None \<Rightarrow> [])"

subsection \<open>Values\<close>

definition mem_get :: "string \<Rightarrow> memory_rtdb \<Rightarrow> string option" where
  "mem_get key db = map_of (kv_store db) key"

definition mem_set :: "string \<Rightarrow> string \<Rightarrow> memory_rtdb \<Rightarrow> memory_rtdb" where
  "mem_set key v db = db\<lparr>kv_store := AList.update key v (kv_store db)\<rparr>"

definition mem_del :: "string \<Rightarrow> memory_rtdb \<Rightarrow> bool \<times> memory_rtdb" where
  "mem_del key db = (map_of (kv_store db) key \<noteq> None, db\<lparr>kv_store := AList.delete key (kv_store db)\<rparr>)"

definition mem_exists :: "string \<Rightarrow> memory_rtdb \<Rightarrow> bool" where
  "mem_exists key db \<longleftrightarrow> map_of (kv_store db) key \<noteq> None"

text \<open>
  Bytes that are no valid UTF-8 and text that is no number both count as 0; no text with a byte
  outside ASCII is a number, so the two branches are one.
\<close>

definition mem_incrbyfloat :: "num_format \<Rightarrow> string \<Rightarrow> f64 \<Rightarrow> memory_rtdb \<Rightarrow> f64 \<times> memory_rtdb" where
  "mem_incrbyfloat fmt key inc db =
     (let entry = (case map_of (kv_store db) key of Some v \<Rightarrow> v | None \<Rightarrow> ''0'');
          current = (case parse_f64 entry of Some x \<Rightarrow> x | None \<Rightarrow> 0);
          new_val = f64_add current inc
      in (new_val, db\<lparr>kv_store := AList.update key (f64_to_bytes fmt new_val) (kv_store db)\<rparr>))"

subsection \<open>Hashes\<close>

definition mem_hash_set :: "string \<Rightarrow> string \<Rightarrow> string \<Rightarrow> memory_rtdb \<Rightarrow> memory_rtdb" where
  "mem_hash_set key field v db =
     db\<lparr>hash_store :=
          AList.update key (AList.update field v (entry_or_default key (hash_store db))) (hash_store db)\<rparr>"

definition mem_hash_setnx :: "string \<Rightarrow> string \<Rightarrow> string \<Rightarrow> memory_rtdb \<Rightarrow> bool \<times> memory_rtdb" where
  "mem_hash_setnx key field v db =
     (let entry = entry_or_default key (hash_store db) in
      if map_of entry field \<noteq> None
      then (False, db\<lparr>hash_store := AList.update key entry (hash_store db)\<rparr>)
      else (True, db\<lparr>hash_store := AList.update key (AList.update field v entry) (hash_store db)\<rparr>))"

definition mem_hash_get :: "string \<Rightarrow> string \<Rightarrow> memory_rtdb \<Rightarrow> string option" where
  "mem_hash_get key field db =
     (case map_of (hash_store db) key of None \<Rightarrow> None | Some hash \<Rightarrow> map_of hash field)"

definition mem_hash_mget :: "string \<Rightarrow> string list \<Rightarrow> memory_rtdb \<Rightarrow> string option list" where
  "mem_hash_mget key fvs db =
     (case map_of (hash_store db) key of
        Some hash \<Rightarrow> map (map_of hash) fvs
      | None \<Rightarrow> replicate (length fvs) None)"

definition insert_fields :: "(string \<times> string) list \<Rightarrow> string dash_map \<Rightarrow> string dash_map" where
  "insert_fields fvs hash = fold (\<lambda>(f, v). AList.update f v) fvs hash"

definition mem_hash_mset :: "string \<Rightarrow> (string \<times> string) list \<Rightarrow> memory_rtdb \<Rightarrow> memory_rtdb" where
  "mem_hash_mset key fvs db =
     db\<lparr>hash_store :=
          AList.update key (insert_fields fvs (entry_or_default key (hash_store db))) (hash_store db)\<rparr>"

definition mem_hash_get_all :: "string \<Rightarrow> memory_rtdb \<Rightarrow> string dash_map" where
  "mem_hash_get_all key db = (case map_of (hash_store db) key of Some hash \<Rightarrow> hash | None \<Rightarrow> [])"

definition mem_hash_del :: "string \<Rightarrow> string \<Rightarrow> memory_rtdb \<Rightarrow> bool \<times> memory_rtdb" where
  "mem_hash_del key field db =
     (case map_of (hash_store db) key of
        Some hash \<Rightarrow>
          (map_of hash field \<noteq> None,
           db\<lparr>hash_store := AList.update key (AList.delete field hash) (hash_store db)\<rparr>)
      | None \<Rightarrow> (False, db))"

fun remove_fields :: "string list \<Rightarrow> nat \<Rightarrow> string dash_map \<Rightarrow> nat \<times> string dash_map" where
  "remove_fields [] removed hash = (removed, hash)"
| "remove_fields (f # fs) removed hash =
     remove_fields fs (if map_of hash f \<noteq> None then removed + 1 else removed) (AList.delete f hash)"

definition mem_hash_del_many :: "string \<Rightarrow> string list \<Rightarrow> memory_rtdb \<Rightarrow> usize \<times> memory_rtdb" where
  "mem_hash_del_many key fvs db =
     (case map_of (hash_store db) key of
        Some hash \<Rightarrow>
          (let (removed, hash') = remove_fields fvs 0 hash
           in (removed, db\<lparr>hash_store := AList.update key hash' (hash_store db)\<rparr>))
      | None \<Rightarrow> (0, db))"

text \<open>\<open>s.parse::<i64>()\<close>.\<close>

definition parse_i64 :: "string \<Rightarrow> i64 option" where
  "parse_i64 str =
     (let (neg, ds) = split_sign str;
          n = (if neg then - int (digits_val ds) else int (digits_val ds))
      in if ds = [] \<or> \<not> list_all is_digit ds \<or> n < - (2 ^ 63) \<or> n \<ge> 2 ^ 63 then None
         else Some (word_of_int n))"

definition mem_hincrby :: "num_format \<Rightarrow> string \<Rightarrow> string \<Rightarrow> i64 \<Rightarrow> memory_rtdb \<Rightarrow> i64 \<times> memory_rtdb" where
  "mem_hincrby fmt key field inc db =
     (let hash = entry_or_default key (hash_store db);
          entry = (case map_of hash field of Some v \<Rightarrow> v | None \<Rightarrow> ''0'');
          current = (case parse_i64 entry of Some x \<Rightarrow> x | None \<Rightarrow> 0);
          new_val = current + inc
      in (new_val,
          db\<lparr>hash_store :=
               AList.update key (AList.update field (i64_to_bytes fmt new_val) hash) (hash_store db)\<rparr>))"

type_synonym hash_mset_ops = "(string \<times> (string \<times> string) list) list"

definition mset_op :: "string \<times> (string \<times> string) list \<Rightarrow> memory_rtdb \<Rightarrow> memory_rtdb" where
  "mset_op op db = (if snd op \<noteq> [] then mem_hash_mset (fst op) (snd op) db else db)"

text \<open>The pipeline of a backend reports success or an error; this one never fails.\<close>

definition mem_pipeline_hash_mset :: "hash_mset_ops \<Rightarrow> memory_rtdb \<Rightarrow> (string + unit) \<times> memory_rtdb" where
  "mem_pipeline_hash_mset ops db = (Inr (), fold mset_op ops db)"

subsection \<open>Lists\<close>

text \<open>\<open>isize\<close> is a signed 64-bit word; its additions wrap.\<close>

definition smax :: "i64 \<Rightarrow> i64 \<Rightarrow> i64" where
  "smax a b = (if sint a < sint b then b else a)"

definition smin :: "i64 \<Rightarrow> i64 \<Rightarrow> i64" where
  "smin a b = (if sint b < sint a then b else a)"

definition normalize_list_indices :: "usize \<Rightarrow> i64 \<Rightarrow> i64 \<Rightarrow> usize \<times> usize" where
  "normalize_list_indices len start stop =
     (let l = of_nat len;
          start_idx = (if sint start < 0 then unat (smax (l + start) 0) else unat (smin start l));
          stop_idx = (if sint stop < 0 then unat (smax (l + stop + 1) 0) else unat (smin (stop + 1) l))
      in (start_idx, stop_idx))"

definition mem_list_lpush :: "string \<Rightarrow> string \<Rightarrow> memory_rtdb \<Rightarrow> memory_rtdb" where
  "mem_list_lpush key v db =
     db\<lparr>list_store := AList.update key (v # entry_or_default key (list_store db)) (list_store db)\<rparr>"

definition mem_list_rpush :: "string \<Rightarrow> string \<Rightarrow> memory_rtdb \<Rightarrow> memory_rtdb" where
  "mem_list_rpush key v db =
     db\<lparr>list_store := AList.update key (entry_or_default key (list_store db) @ [v]) (list_store db)\<rparr>"

definition mem_list_lpop :: "string \<Rightarrow> memory_rtdb \<Rightarrow> string option \<times> memory_rtdb" where
  "mem_list_lpop key db =
     (case map_of (list_store db) key of
        Some (x # xs) \<Rightarrow> (Some x, db\<lparr>list_store := AList.update key xs (list_store db)\<rparr>)
      | _ \<Rightarrow> (None, db))"

definition mem_list_rpop :: "string \<Rightarrow> memory_rtdb \<Rightarrow> string option \<times> memory_rtdb" where
  "mem_list_rpop key db =
     (case map_of (list_store db) key of
        Some xs \<Rightarrow>
          (if xs = [] then (None, db)
           else (Some (last xs), db\<lparr>list_store := AList.update key (butlast xs) (list_store db)\<rparr>))
      | None \<Rightarrow> (None, db))"

text \<open>One round of \<open>list_blpop\<close>: the first key, in order, that has a value.\<close>

fun blpop_poll :: "string list \<Rightarrow> memory_rtdb \<Rightarrow> (string \<times> string) option \<times> memory_rtdb" where
  "blpop_poll [] db = (None, db)"
| "blpop_poll (k # ks) db =
     (case mem_list_lpop k db of
        (Some v, db') \<Rightarrow> (Some (k, v), db')
      | (None, _) \<Rightarrow> blpop_poll ks db)"

text \<open>
  The polling loop, given for each round the whole seconds elapsed since the call and what other
  tasks do to the database during the pause that follows: \<open>None\<close> if it still polls after the last
  round, \<open>Some None\<close> if it gave up.
\<close>

fun mem_list_blpop ::
  "string list \<Rightarrow> u64 \<Rightarrow> (u64 \<times> (memory_rtdb \<Rightarrow> memory_rtdb)) list \<Rightarrow> memory_rtdb \<Rightarrow>
     (string \<times> string) option option \<times> memory_rtdb"
where
  "mem_list_blpop ks timeout [] db = (None, db)"
| "mem_list_blpop ks timeout ((elapsed, others) # rounds) db =
     (case blpop_poll ks db of
        (Some kv, db') \<Rightarrow> (Some (Some kv), db')
      | (None, _) \<Rightarrow>
          if elapsed \<ge> timeout then (Some None, db)
          else mem_list_blpop ks timeout rounds (others db))"

text \<open>
  \<open>Vec::with_capacity(n)\<close> panics when the buffer would exceed \<open>isize::MAX\<close> bytes; \<open>sz\<close> is the
  size of a \<open>Bytes\<close> handle.
\<close>

definition with_capacity :: "nat \<Rightarrow> usize \<Rightarrow> unit outcome" where
  "with_capacity sz n = (if n * sz < 2 ^ 63 then Ret () else Panic)"

definition mem_list_range :: "nat \<Rightarrow> string \<Rightarrow> i64 \<Rightarrow> i64 \<Rightarrow> memory_rtdb \<Rightarrow> string list outcome" where
  "mem_list_range sz key start stop db =
     (case map_of (list_store db) key of
        Some xs \<Rightarrow>
          (let (a, b) = normalize_list_indices (length xs) start stop in
           if a < b then bind_outcome (with_capacity sz (b - a)) (\<lambda>_. Ret (take (b - a) (drop a xs)))
           else Ret [])
      | None \<Rightarrow> Ret [])"

definition mem_list_trim :: "string \<Rightarrow> i64 \<Rightarrow> i64 \<Rightarrow> memory_rtdb \<Rightarrow> memory_rtdb" where
  "mem_list_trim key start stop db =
     (case map_of (list_store db) key of
        Some xs \<Rightarrow>
          (let (a, b) = normalize_list_indices (length xs) start stop;
               ys = (if a < b \<and> b \<le> length xs then take (b - a) (drop a xs) else [])
           in db\<lparr>list_store := AList.update key ys (list_store db)\<rparr>)
      | None \<Rightarrow> db)"

subsection \<open>Sets and scanning\<close>

definition mem_sadd :: "string \<Rightarrow> string \<Rightarrow> memory_rtdb \<Rightarrow> bool \<times> memory_rtdb" where
  "mem_sadd key m db =
     (let e = entry_or_default key (set_store db)
      in (m \<notin> set e, db\<lparr>set_store := AList.update key (List.insert m e) (set_store db)\<rparr>))"

definition mem_srem :: "string \<Rightarrow> string \<Rightarrow> memory_rtdb \<Rightarrow> bool \<times> memory_rtdb" where
  "mem_srem key m db =
     (case map_of (set_store db) key of
        Some e \<Rightarrow> (m \<in> set e, db\<lparr>set_store := AList.update key (remove1 m e) (set_store db)\<rparr>)
      | None \<Rightarrow> (False, db))"

definition mem_smembers :: "string \<Rightarrow> memory_rtdb \<Rightarrow> string list" where
  "mem_smembers key db = entry_or_default key (set_store db)"

text \<open>\<open>pattern.replace("*", ".*").replace("?", ".")\<close>, anchored.\<close>

definition glob_regex :: "string \<Rightarrow> string" where
  "glob_regex pattern =
     (let star = concat (map (\<lambda>c. if c = CHR ''*'' then ''.*'' else [c]) pattern);
          quest = concat (map (\<lambda>c. if c = CHR ''?'' then ''.'' else [c]) star)
      in ''^'' @ quest @ ''$'')"

text \<open>
  \<open>Regex::new\<close> either fails or gives the predicate that \<open>is_match\<close> decides; the matches are sorted
  and duplicates dropped.
\<close>

definition mem_scan_match ::
  "(string \<Rightarrow> string + (string \<Rightarrow> bool)) \<Rightarrow> string \<Rightarrow> memory_rtdb \<Rightarrow> string + string list"
where
  "mem_scan_match regex pattern db =
     (case regex (glob_regex pattern) of
        Inl e \<Rightarrow> Inl e
      | Inr is_match \<Rightarrow>
          Inr (remdups_adj (sort
            (filter is_match (map fst (kv_store db)) @
             filter is_match (map fst (hash_store db)) @
             filter is_match (map fst (list_store db))))))"

section \<open>The contract of a hash backend\<close>

text \<open>What a list of pipelined writes says about a field: no key and no field occurs twice in it.\<close>

definition ops_wf :: "hash_mset_ops \<Rightarrow> bool" where
  "ops_wf ops \<longleftrightarrow> distinct (map fst ops) \<and> (\<forall>op \<in> set ops. distinct (map fst (snd op)))"

definition written :: "hash_mset_ops \<Rightarrow> string \<Rightarrow> string \<Rightarrow> string option" where
  "written ops k f = (case map_of ops k of None \<Rightarrow> None | Some fvs \<Rightarrow> map_of fvs f)"

text \<open>
  The part of the \<open>Rtdb\<close> trait the write buffer relies on.  A pipeline that succeeds has written
  every field; one that fails may have written some of them, and has changed nothing else.
\<close>

locale hash_backend =
  fixes pipe :: "hash_mset_ops \<Rightarrow> 'db \<Rightarrow> (string + unit) \<times> 'db"
    and hget :: "string \<Rightarrow> string \<Rightarrow> 'db \<Rightarrow> string option"
  assumes pipe_ok:
      "ops_wf ops \<Longrightarrow> pipe ops db = (Inr u, db') \<Longrightarrow>
       hget k f db' = (case written ops k f of Some v \<Rightarrow> Some v | None \<Rightarrow> hget k f db)"
    and pipe_failed:
      "ops_wf ops \<Longrightarrow> pipe ops db = (Inl e, db') \<Longrightarrow>
       hget k f db' = hget k f db \<or> written ops k f \<noteq> None \<and> hget k f db' = written ops k f"

section \<open>Formatting\<close>

text \<open>A cached name is the name a fresh formatting gives.\<close>

definition pic_ok :: "num_format \<Rightarrow> point_id_cache \<Rightarrow> bool" where
  "pic_ok fmt cache \<longleftrightarrow>
     (\<forall>i < length cache. \<forall>s. cache ! i = Some s \<longrightarrow> s = u32_to_arc_str fmt (of_nat i))"

lemma pic_ok_new: "pic_ok fmt (pic_with_capacity n)" "pic_ok fmt pic_new" "pic_ok fmt (pic_clear c)"
  by (simp_all add: pic_ok_def pic_with_capacity_def pic_new_def pic_clear_def)

lemma pic_get_ok:
  assumes "pic_ok fmt c"
  shows "fst (pic_get fmt p c) = u32_to_arc_str fmt p \<and> pic_ok fmt (snd (pic_get fmt p c)) \<and>
    (unat p < length c \<longrightarrow> pic_get_cached p (snd (pic_get fmt p c)) = Some (u32_to_arc_str fmt p))"
  using assms
  by (auto simp: pic_ok_def pic_get_def pic_get_cached_def Let_def nth_list_update split: option.splits)

lemma point_name [simp]:
  assumes "decimal_ids fmt"
  shows "get_point_id_str_or_alloc fmt p = u32_to_string p"
proof (cases "p < 256")
  case True
  then have "unat p < 256" by (simp add: word_less_nat_alt)
  with True assms show ?thesis
    by (simp add: get_point_id_str_or_alloc_def POINT_ID_POOL_def decimal_ids_def u32_to_string_def)
next
  case False
  with assms show ?thesis
    by (simp add: get_point_id_str_or_alloc_def u32_to_arc_str_def decimal_ids_def)
qed

section \<open>Hash operations\<close>

lemma map_of_insert_fields [simp]: "map_of (insert_fields fvs h) = map_of h ++ map_of (rev fvs)"
  by (induction fvs arbitrary: h)
    (simp_all add: insert_fields_def case_prod_beta update_conv' map_add_assoc [symmetric] del: map_add_assoc
       add: fun_eq_iff map_add_def split: option.splits)

lemma entry_or_default_map_of:
  "map_of (entry_or_default k m) f = (case map_of m k of None \<Rightarrow> None | Some h \<Rightarrow> map_of h f)"
  by (simp add: entry_or_default_def split: option.splits)

lemma hash_get_set [simp]:
  "mem_hash_get k f (mem_hash_set k' f' v db) = (if k = k' \<and> f = f' then Some v else mem_hash_get k f db)"
  by (simp add: mem_hash_get_def mem_hash_set_def update_conv' entry_or_default_map_of)

lemma hash_get_mset:
  "mem_hash_get k f (mem_hash_mset k' fvs db) =
     (case if k = k' then map_of (rev fvs) f else None of Some v \<Rightarrow> Some v | None \<Rightarrow> mem_hash_get k f db)"
  by (simp add: mem_hash_get_def mem_hash_mset_def update_conv' map_add_def entry_or_default_map_of
      split: option.splits)

lemma hash_get_del [simp]:
  "mem_hash_get k f (snd (mem_hash_del k' f' db)) = (if k = k' \<and> f = f' then None else mem_hash_get k f db)"
  by (simp add: mem_hash_get_def mem_hash_del_def update_conv' delete_conv' split: option.splits)

lemma map_of_rev_distinct: "distinct (map fst xs) \<Longrightarrow> map_of (rev xs) = map_of xs"
proof (induction xs)
  case (Cons x xs)
  then have "map_of xs (fst x) = None"
    by (simp add: map_of_eq_None_iff)
  with Cons show ?case
    by (auto simp: fun_eq_iff map_add_def split: option.splits)
qed simp

lemma hash_get_mset_op:
  assumes "distinct (map fst fvs)"
  shows "mem_hash_get k f (mset_op (k', fvs) db) =
    (case if k = k' then map_of fvs f else None of Some v \<Rightarrow> Some v | None \<Rightarrow> mem_hash_get k f db)"
  by (auto simp: mset_op_def hash_get_mset map_of_rev_distinct [OF assms])

lemma fold_mset_op:
  "ops_wf ops \<Longrightarrow>
   mem_hash_get k f (fold mset_op ops db) =
     (case written ops k f of Some v \<Rightarrow> Some v | None \<Rightarrow> mem_hash_get k f db)"
proof (induction ops arbitrary: db)
  case Nil
  then show ?case by (simp add: written_def)
next
  case (Cons op ops)
  obtain k' fvs where op: "op = (k', fvs)" by (cases op)
  have wf: "ops_wf ops" "distinct (map fst fvs)" "k' \<notin> fst ` set ops"
    using Cons.prems by (auto simp: ops_wf_def op)
  have fresh: "map_of ops k' = None"
    using wf(3) by (simp add: map_of_eq_None_iff)
  have "mem_hash_get k f (fold mset_op (op # ops) db) = mem_hash_get k f (fold mset_op ops (mset_op op db))"
    by simp
  also have "\<dots> = (case written (op # ops) k f of Some v \<Rightarrow> Some v | None \<Rightarrow> mem_hash_get k f db)"
    using fresh
    by (simp add: Cons.IH [OF wf(1)] op hash_get_mset_op [OF wf(2)] written_def split: option.splits)
  finally show ?case .
qed

interpretation mb: hash_backend mem_pipeline_hash_mset mem_hash_get
  by unfold_locales (auto simp: mem_pipeline_hash_mset_def fold_mset_op)

section \<open>Lists\<close>

text \<open>
  A timeout of zero, which the trait documents as waiting forever, polls once and returns.
\<close>

lemma blpop_zero_timeout:
  "fst (mem_list_blpop ks 0 (round # rounds) db) = Some (fst (blpop_poll ks db))"
  by (cases round; cases "blpop_poll ks db"; cases "fst (blpop_poll ks db)") simp_all

text \<open>A pushed value is popped from the end it was pushed to.\<close>

lemma list_push_pop:
  "fst (mem_list_lpop k (mem_list_lpush k v db)) = Some v"
  "fst (mem_list_rpop k (mem_list_rpush k v db)) = Some v"
  "map_of (list_store db) k \<in> {None, Some []} \<Longrightarrow> fst (mem_list_lpop k (mem_list_rpush k v db)) = Some v"
  by (auto simp: mem_list_lpop_def mem_list_lpush_def mem_list_rpop_def mem_list_rpush_def update_conv'
      entry_or_default_def)


text \<open>
  What Redis documents for \<open>LRANGE\<close>: negative indices count from the end, both ends are included,
  indices out of range are clipped.
\<close>

definition lrange :: "int \<Rightarrow> int \<Rightarrow> 'a list \<Rightarrow> 'a list" where
  "lrange start stop xs =
     (let n = int (length xs);
          a = (if start < 0 then max 0 (n + start) else start);
          b = (if stop < 0 then n + stop else min stop (n - 1))
      in if a > b then [] else take (nat (b - a + 1)) (drop (nat a) xs))"

lemma sint_small: "n < 2 ^ 63 \<Longrightarrow> sint (of_nat n :: i64) = int n"
  using sint_sbintrunc' [where 'a = 64, of "int n"] by (simp add: signed_take_bit_int_eq_self)

lemma sint_i64_bounds: "- (2 ^ 63) \<le> sint (w :: i64)" "sint (w :: i64) < 2 ^ 63"
  using sint_greater_eq [of w] sint_less [of w] by simp_all

lemma sint_add_in_range:
  "- (2 ^ 63) \<le> sint a + sint b \<Longrightarrow> sint a + sint b < 2 ^ 63 \<Longrightarrow> sint (a + b :: i64) = sint a + sint b"
  by (simp add: sint_word_add signed_take_bit_int_eq_self)

lemma unat_nonneg: "0 \<le> sint (w :: i64) \<Longrightarrow> unat w = nat (sint w)"
  using sint_i64_bounds [of w] uint_sint [of w]
  by (simp add: take_bit_int_eq_self flip: nat_uint_eq)

text \<open>The indices are those of the reference whenever \<open>stop + 1\<close> does not wrap.\<close>

lemma normalize_list_indices_eq:
  assumes len: "n < 2 ^ 63" and stop: "sint stop < 2 ^ 63 - 1"
  shows "normalize_list_indices n start stop =
    (nat (if sint start < 0 then max 0 (int n + sint start) else min (sint start) (int n)),
     nat (if sint stop < 0 then max 0 (int n + sint stop + 1) else min (sint stop + 1) (int n)))"
proof -
  let ?l = "of_nat n :: i64"
  have l: "sint ?l = int n" using len by (rule sint_small)
  have one: "sint (1 :: i64) = 1" using sint_small [of 1] by simp
  have start: "sint (?l + start) = int n + sint start" if "sint start < 0"
    using sint_add_in_range [of ?l start] that sint_i64_bounds [of start] len unfolding l by simp
  have stop1: "sint (stop + 1) = sint stop + 1"
    using sint_add_in_range [of stop 1] stop sint_i64_bounds [of stop] unfolding one by simp
  have stop2: "sint (?l + stop + 1) = int n + sint stop + 1" if "sint stop < 0"
    using sint_add_in_range [of ?l "stop + 1"] that sint_i64_bounds [of stop] len
    unfolding l stop1 by (simp add: add.assoc)
  have a: "unat (smax (?l + start) 0) = nat (max 0 (int n + sint start))" if "sint start < 0"
    using start [OF that] unat_nonneg [of "?l + start"] by (simp add: smax_def max_def)
  have b: "unat (smin start ?l) = nat (min (sint start) (int n))" if "\<not> sint start < 0"
    using that l unat_nonneg [of start] unat_nonneg [of ?l] by (simp add: smin_def min_def)
  have c: "unat (smax (?l + stop + 1) 0) = nat (max 0 (int n + sint stop + 1))" if "sint stop < 0"
    using stop2 [OF that] unat_nonneg [of "?l + stop + 1"] by (simp add: smax_def max_def)
  have d: "unat (smin (stop + 1) ?l) = nat (min (sint stop + 1) (int n))" if "\<not> sint stop < 0"
    using that l stop1 unat_nonneg [of "stop + 1"] unat_nonneg [of ?l] by (simp add: smin_def min_def)
  show ?thesis
    unfolding normalize_list_indices_def Let_def using a b c d by simp
qed

lemma range_of_indices:
  assumes len: "length xs < 2 ^ 63" and stop: "sint stop < 2 ^ 63 - 1"
    and ab: "normalize_list_indices (length xs) start stop = (a, b)"
  shows "b \<le> length xs \<and>
    lrange (sint start) (sint stop) xs = (if a < b then take (b - a) (drop a xs) else [])"
proof -
  let ?n = "int (length xs)"
  have a: "a = nat (if sint start < 0 then max 0 (?n + sint start) else min (sint start) ?n)"
    and b: "b = nat (if sint stop < 0 then max 0 (?n + sint stop + 1) else min (sint stop + 1) ?n)"
    using normalize_list_indices_eq [OF len stop, of start] ab by simp_all
  define A where A: "A = (if sint start < 0 then max 0 (?n + sint start) else sint start)"
  define B where B: "B = (if sint stop < 0 then ?n + sint stop else min (sint stop) (?n - 1))"
  have le: "b \<le> length xs" by (auto simp: b max_def min_def)
  have iff: "A > B \<longleftrightarrow> \<not> a < b" by (auto simp: a b A B max_def min_def)
  have eq: "nat (B - A + 1) = b - a \<and> nat A = a" if "a < b"
    using that by (auto simp: a b A B max_def min_def split: if_splits)
  have "lrange (sint start) (sint stop) xs = (if A > B then [] else take (nat (B - A + 1)) (drop (nat A) xs))"
    by (simp only: lrange_def Let_def A B)
  with le iff eq show ?thesis by (cases "a < b") simp_all
qed

text \<open>C27. \<open>list_range\<close> and \<open>list_trim\<close> of the in-memory backend agree with Redis: for every pair of
  signed bounds whose upper one is not \<open>isize::MAX\<close>, the range read, and the list a trim leaves, is
  the one \<open>LRANGE\<close> and \<open>LTRIM\<close> define, negative and out-of-range indices included, and nothing panics.
\<close>

theorem list_range_is_lrange:
  assumes "map_of (list_store db) key = Some xs"
    and "length xs * sz < 2 ^ 63" and "0 < sz"
    and "sint stop < 2 ^ 63 - 1"
  shows "mem_list_range sz key start stop db = Ret (lrange (sint start) (sint stop) xs) \<and>
    map_of (list_store (mem_list_trim key start stop db)) key = Some (lrange (sint start) (sint stop) xs)"
proof -
  obtain a b where ab: "normalize_list_indices (length xs) start stop = (a, b)"
    by (cases "normalize_list_indices (length xs) start stop")
  have "length xs * 1 \<le> length xs * sz"
    using assms(3) by (intro mult_le_mono2) simp
  then have "length xs < 2 ^ 63"
    using assms(2) by linarith
  note r = range_of_indices [OF this assms(4) ab]
  have "(b - a) * sz \<le> length xs * sz"
    using r by (intro mult_le_mono1) linarith
  then have "(b - a) * sz < 2 ^ 63"
    using assms(2) by linarith
  then have "with_capacity sz (b - a) = Ret ()"
    by (simp add: with_capacity_def)
  then show ?thesis
    using r assms(1) ab by (simp add: mem_list_range_def mem_list_trim_def update_conv')
qed

definition demo_lists :: memory_rtdb where
  "demo_lists = mem_list_rpush ''q'' ''c'' (mem_list_rpush ''q'' ''b'' (mem_list_rpush ''q'' ''a'' mem_new))"

theorem list_range_is_lrange_witness:
  "mem_list_range 32 ''q'' (- 2) (- 1) demo_lists = Ret [''b'', ''c''] \<and>
   map_of (list_store (mem_list_trim ''q'' (- 2) (- 1) demo_lists)) ''q'' = Some [''b'', ''c'']"
proof -
  have "map_of (list_store demo_lists) ''q'' = Some [''a'', ''b'', ''c'']"
    by code_simp
  moreover have "lrange (sint (- 2 :: i64)) (sint (- 1 :: i64)) [''a'', ''b'', ''c''] = [''b'', ''c'']"
    by code_simp
  ultimately show ?thesis
    using list_range_is_lrange [of demo_lists "''q''" "[''a'', ''b'', ''c'']" 32 "- 1" "- 2"] by simp
qed

section \<open>Well-formedness\<close>

text \<open>Every map has distinct keys, every hash distinct fields, every set distinct members.\<close>

definition mem_wf :: "memory_rtdb \<Rightarrow> bool" where
  "mem_wf db \<longleftrightarrow>
     distinct (map fst (kv_store db)) \<and>
     distinct (map fst (hash_store db)) \<and> (\<forall>h \<in> snd ` set (hash_store db). distinct (map fst h)) \<and>
     distinct (map fst (list_store db)) \<and>
     distinct (map fst (set_store db)) \<and> (\<forall>s \<in> snd ` set (set_store db). distinct s)"

text \<open>The operations that change the database.\<close>

datatype mem_op =
    Op_Set string string | Op_Del string | Op_Incrbyfloat string f64
  | Op_Hash_Set string string string | Op_Hash_Setnx string string string
  | Op_Hash_Mset string "(string \<times> string) list" | Op_Hash_Del string string
  | Op_Hash_Del_Many string "string list" | Op_Hincrby string string i64
  | Op_Pipeline hash_mset_ops
  | Op_Lpush string string | Op_Rpush string string | Op_Lpop string | Op_Rpop string
  | Op_Trim string i64 i64
  | Op_Sadd string string | Op_Srem string string | Op_Clear

fun mem_exec :: "num_format \<Rightarrow> mem_op \<Rightarrow> memory_rtdb \<Rightarrow> memory_rtdb" where
  "mem_exec fmt (Op_Set k v) db = mem_set k v db"
| "mem_exec fmt (Op_Del k) db = snd (mem_del k db)"
| "mem_exec fmt (Op_Incrbyfloat k x) db = snd (mem_incrbyfloat fmt k x db)"
| "mem_exec fmt (Op_Hash_Set k f v) db = mem_hash_set k f v db"
| "mem_exec fmt (Op_Hash_Setnx k f v) db = snd (mem_hash_setnx k f v db)"
| "mem_exec fmt (Op_Hash_Mset k fvs) db = mem_hash_mset k fvs db"
| "mem_exec fmt (Op_Hash_Del k f) db = snd (mem_hash_del k f db)"
| "mem_exec fmt (Op_Hash_Del_Many k fs) db = snd (mem_hash_del_many k fs db)"
| "mem_exec fmt (Op_Hincrby k f i) db = snd (mem_hincrby fmt k f i db)"
| "mem_exec fmt (Op_Pipeline ops) db = snd (mem_pipeline_hash_mset ops db)"
| "mem_exec fmt (Op_Lpush k v) db = mem_list_lpush k v db"
| "mem_exec fmt (Op_Rpush k v) db = mem_list_rpush k v db"
| "mem_exec fmt (Op_Lpop k) db = snd (mem_list_lpop k db)"
| "mem_exec fmt (Op_Rpop k) db = snd (mem_list_rpop k db)"
| "mem_exec fmt (Op_Trim k a b) db = mem_list_trim k a b db"
| "mem_exec fmt (Op_Sadd k m) db = snd (mem_sadd k m db)"
| "mem_exec fmt (Op_Srem k m) db = snd (mem_srem k m db)"
| "mem_exec fmt Op_Clear db = mem_clear db"

text \<open>Replacing one entry keeps what holds of all entries.\<close>

lemma update_entries:
  "\<forall>v \<in> snd ` set m. P v \<Longrightarrow> P v' \<Longrightarrow> \<forall>v \<in> snd ` set (AList.update k v' m). P v"
  by (induction m) auto

lemma entry_or_default_all:
  "\<forall>v \<in> snd ` set m. P v \<Longrightarrow> P [] \<Longrightarrow> P (entry_or_default k m)"
  by (auto simp: entry_or_default_def dest!: map_of_SomeD split: option.splits)

lemma insert_fields_distinct: "distinct (map fst h) \<Longrightarrow> distinct (map fst (insert_fields fvs h))"
  by (induction fvs arbitrary: h) (auto simp: insert_fields_def distinct_update)

lemma remove_fields_distinct:
  "distinct (map fst h) \<Longrightarrow> distinct (map fst (snd (remove_fields fs n h)))"
  by (induction fs n h rule: remove_fields.induct) (simp_all add: distinct_delete)

lemma map_of_all: "\<forall>v \<in> snd ` set m. P v \<Longrightarrow> map_of m k = Some v \<Longrightarrow> P v"
  by (force dest: map_of_SomeD)

lemma put_wf:
  assumes "mem_wf db"
  shows "mem_wf (db\<lparr>kv_store := AList.update k v (kv_store db)\<rparr>)"
    and "mem_wf (db\<lparr>kv_store := AList.delete k (kv_store db)\<rparr>)"
    and "distinct (map fst h) \<Longrightarrow> mem_wf (db\<lparr>hash_store := AList.update k h (hash_store db)\<rparr>)"
    and "mem_wf (db\<lparr>list_store := AList.update k l (list_store db)\<rparr>)"
    and "distinct s \<Longrightarrow> mem_wf (db\<lparr>set_store := AList.update k s (set_store db)\<rparr>)"
proof -
  have h: "\<forall>h \<in> snd ` set (hash_store db). distinct (map fst h)" and s: "\<forall>s \<in> snd ` set (set_store db). distinct s"
    using assms by (simp_all add: mem_wf_def)
  show "mem_wf (db\<lparr>kv_store := AList.update k v (kv_store db)\<rparr>)"
    "mem_wf (db\<lparr>kv_store := AList.delete k (kv_store db)\<rparr>)"
    "mem_wf (db\<lparr>list_store := AList.update k l (list_store db)\<rparr>)"
    using assms by (simp_all add: mem_wf_def distinct_update distinct_delete)
  show "mem_wf (db\<lparr>hash_store := AList.update k h (hash_store db)\<rparr>)" if "distinct (map fst h)"
    using assms update_entries [where P = "\<lambda>h. distinct (map fst h)", OF h that, of k] by (simp add: mem_wf_def distinct_update)
  show "mem_wf (db\<lparr>set_store := AList.update k s (set_store db)\<rparr>)" if "distinct s"
    using assms update_entries [where P = distinct, OF s that, of k] by (simp add: mem_wf_def distinct_update)
qed

lemma wf_entries:
  assumes "mem_wf db"
  shows "distinct (map fst (entry_or_default k (hash_store db)))" "distinct (entry_or_default k (set_store db))"
    "map_of (hash_store db) k = Some h \<Longrightarrow> distinct (map fst h)"
    "map_of (set_store db) k = Some s \<Longrightarrow> distinct s"
proof -
  have h: "\<forall>h \<in> snd ` set (hash_store db). distinct (map fst h)" and s: "\<forall>s \<in> snd ` set (set_store db). distinct s"
    using assms by (simp_all add: mem_wf_def)
  show "distinct (map fst (entry_or_default k (hash_store db)))"
    using entry_or_default_all [where P = "\<lambda>h. distinct (map fst h)", OF h] by simp
  show "distinct (entry_or_default k (set_store db))"
    using entry_or_default_all [where P = distinct, OF s] by simp
  show "map_of (hash_store db) k = Some h \<Longrightarrow> distinct (map fst h)"
    by (rule map_of_all [where P = "\<lambda>h. distinct (map fst h)", OF h])
  show "map_of (set_store db) k = Some s \<Longrightarrow> distinct s"
    by (rule map_of_all [where P = distinct, OF s])
qed

lemma hash_mset_wf: "mem_wf db \<Longrightarrow> mem_wf (mem_hash_mset k fvs db)"
  by (simp add: mem_hash_mset_def put_wf wf_entries(1) insert_fields_distinct)

lemma pipeline_wf: "mem_wf db \<Longrightarrow> mem_wf (fold mset_op ops db)"
  by (induction ops arbitrary: db) (simp_all add: mset_op_def hash_mset_wf)

lemma mem_exec_wf: "mem_wf db \<Longrightarrow> mem_wf (mem_exec fmt op db)"
proof (cases op)
  case (Op_Hash_Del_Many k fs)
  assume wf: "mem_wf db"
  show ?thesis
  proof (cases "map_of (hash_store db) k")
    case (Some h)
    then show ?thesis
      using wf remove_fields_distinct [OF wf_entries(3) [OF wf Some], of fs 0]
      by (cases "remove_fields fs 0 h") (simp add: Op_Hash_Del_Many mem_hash_del_many_def put_wf)
  qed (simp add: wf Op_Hash_Del_Many mem_hash_del_many_def)
next
  case Op_Clear
  then show ?thesis by (simp add: mem_clear_def mem_wf_def)
next
  case (Op_Hash_Setnx k f v)
  assume "mem_wf db"
  then show ?thesis
    by (simp add: Op_Hash_Setnx mem_hash_setnx_def Let_def put_wf wf_entries(1) distinct_update)
next
  case (Op_Hash_Del k f)
  assume wf: "mem_wf db"
  then show ?thesis
    using wf_entries(3) [OF wf, of k]
    by (cases "map_of (hash_store db) k") (simp_all add: Op_Hash_Del mem_hash_del_def put_wf distinct_delete)
next
  case (Op_Srem k m)
  assume wf: "mem_wf db"
  then show ?thesis
    using wf_entries(4) [OF wf, of k]
    by (cases "map_of (set_store db) k") (simp_all add: Op_Srem mem_srem_def put_wf)
qed (simp_all add: put_wf wf_entries(1,2) distinct_update pipeline_wf hash_mset_wf distinct_insert
       mem_set_def mem_del_def mem_incrbyfloat_def mem_hash_set_def
       mem_hincrby_def mem_pipeline_hash_mset_def mem_list_lpush_def mem_list_rpush_def mem_list_lpop_def
       mem_list_rpop_def mem_list_trim_def mem_sadd_def Let_def
     split: option.splits list.splits prod.splits)


end
