(* ===== verification/Cleanup.thy ===== *)
theory Cleanup
  imports Memory_Rtdb
begin

text \<open>
  The start-up cleanup of the real-time database: \<open>cleanup_invalid_keys\<close>
  (\<open>libs/voltage-rtdb/src/cleanup.rs\<close>) on the in-memory backend, with the providers of comsrv
  (\<open>services/comsrv/src/runtime/cleanup_provider.rs\<close>) and modsrv
  (\<open>services/modsrv/src/cleanup_provider.rs\<close>).  The rows the providers read from SQLite, and the
  built-in product library, are parameters; so is the \<open>regex\<close> crate.
\<close>

section \<open>Cleanup\<close>

record cleanup_provider =
  get_valid_ids :: "string + string list"
  key_pattern :: string
  extract_id :: "string \<Rightarrow> string option"
  is_system_key :: "string \<Rightarrow> bool"
  get_valid_point_ids_for_entity :: "string \<Rightarrow> string \<Rightarrow> string + string list option"

definition delete_field_unless_valid ::
  "string \<Rightarrow> string list \<Rightarrow> string \<Rightarrow> memory_rtdb \<Rightarrow> memory_rtdb"
where
  "delete_field_unless_valid key valid_points field db =
     (if field \<notin> set valid_points then snd (mem_hash_del key field db) else db)"

definition delete_invalid_fields :: "string \<Rightarrow> string list \<Rightarrow> memory_rtdb \<Rightarrow> memory_rtdb" where
  "delete_invalid_fields key valid_points db =
     fold (delete_field_unless_valid key valid_points) (map fst (mem_hash_get_all key db)) db"

text \<open>The loop over the scanned keys, with the number of keys deleted so far.\<close>

fun cleanup_keys ::
  "cleanup_provider \<Rightarrow> string list \<Rightarrow> string list \<Rightarrow> usize \<Rightarrow> memory_rtdb \<Rightarrow> (string + usize) \<times> memory_rtdb"
where
  "cleanup_keys p valid [] deleted db = (Inr deleted, db)"
| "cleanup_keys p valid (key # ks) deleted db =
     (if is_system_key p key then cleanup_keys p valid ks deleted db
      else
        (case extract_id p key of
           None \<Rightarrow> cleanup_keys p valid ks deleted db
         | Some eid \<Rightarrow>
             if eid \<in> set valid then
               (case get_valid_point_ids_for_entity p eid key of
                  Inl e \<Rightarrow> (Inl e, db)
                | Inr None \<Rightarrow> cleanup_keys p valid ks deleted db
                | Inr (Some points) \<Rightarrow> cleanup_keys p valid ks deleted (delete_invalid_fields key points db))
             else cleanup_keys p valid ks (deleted + 1) (snd (mem_del key db))))"

text \<open>\<open>skip\<close> is the value of \<open>SKIP_REDIS_CLEANUP\<close>, if it is set.\<close>

definition cleanup_invalid_keys ::
  "(string \<Rightarrow> string + (string \<Rightarrow> bool)) \<Rightarrow> string option \<Rightarrow> cleanup_provider \<Rightarrow> memory_rtdb \<Rightarrow>
     (string + usize) \<times> memory_rtdb"
where
  "cleanup_invalid_keys regex skip p db =
     (if skip = Some ''true'' \<or> skip = Some ''1'' then (Inr 0, db)
      else
        (case get_valid_ids p of
           Inl e \<Rightarrow> (Inl e, db)
         | Inr valid \<Rightarrow>
             (case mem_scan_match regex (key_pattern p) db of
                Inl e \<Rightarrow> (Inl e, db)
              | Inr ks \<Rightarrow> cleanup_keys p valid ks 0 db)))"

section \<open>The provider of comsrv\<close>

definition starts_with :: "string \<Rightarrow> string \<Rightarrow> bool" where
  "starts_with p s \<longleftrightarrow> take (length p) s = p"

definition ends_with :: "string \<Rightarrow> string \<Rightarrow> bool" where
  "ends_with p s \<longleftrightarrow> strip_suffix p s \<noteq> None"

text \<open>\<open>s.parse::<u16>()\<close> and \<open>n.to_string()\<close>.\<close>

definition parse_u16 :: "string \<Rightarrow> u16 option" where
  "parse_u16 str =
     (let ds = (case str of (c # s) \<Rightarrow> if c = CHR ''+'' then s else str | [] \<Rightarrow> [])
      in if ds = [] \<or> \<not> list_all is_digit ds \<or> digits_val ds \<ge> 2 ^ 16 then None
         else Some (of_nat (digits_val ds)))"

definition u16_to_string :: "u16 \<Rightarrow> string" where
  "u16_to_string n = nat_digits (unat n)"

definition comsrv_extract_id :: "string \<Rightarrow> string option" where
  "comsrv_extract_id key =
     (let parts = split_on CHR '':'' key in
      if length parts < 2 \<or> parts ! 0 \<noteq> ''comsrv'' then None
      else if parts ! 1 \<in> {''stats'', ''config'', ''meta'', ''system''} then None
      else map_option u16_to_string (parse_u16 (parts ! 1)))"

definition comsrv_is_system_key :: "string \<Rightarrow> bool" where
  "comsrv_is_system_key key \<longleftrightarrow>
     starts_with ''comsrv:stats:'' key \<or> starts_with ''comsrv:config:'' key \<or>
     starts_with ''comsrv:meta:'' key \<or> starts_with ''comsrv:system:'' key"

text \<open>\<open>points table channel\<close>: the numbers of the channel's points in the table.\<close>

definition comsrv_valid_point_ids ::
  "(string \<Rightarrow> u32 \<Rightarrow> string + u32 list) \<Rightarrow> string \<Rightarrow> string \<Rightarrow> string + string list option"
where
  "comsrv_valid_point_ids points entity_id key =
     (let table =
            (if str_contains '':T:'' key \<or> ends_with '':T'' key then Some ''telemetry_points''
             else if str_contains '':S:'' key \<or> ends_with '':S'' key then Some ''signal_points''
             else if str_contains '':C:'' key \<or> ends_with '':C'' key then Some ''control_points''
             else if str_contains '':A:'' key \<or> ends_with '':A'' key then Some ''adjustment_points''
             else None)
      in case table of
           None \<Rightarrow> Inr None
         | Some t \<Rightarrow>
             (case parse_u32 entity_id of
                None \<Rightarrow> Inl ''Invalid channel_id''
              | Some channel \<Rightarrow>
                  (case points t channel of
                     Inl e \<Rightarrow> Inl e
                   | Inr ids \<Rightarrow> Inr (Some (map u32_to_string ids)))))"

definition comsrv_provider ::
  "(string + u32 list) \<Rightarrow> (string \<Rightarrow> u32 \<Rightarrow> string + u32 list) \<Rightarrow> cleanup_provider"
where
  "comsrv_provider enabled points =
     \<lparr>get_valid_ids = (case enabled of Inl e \<Rightarrow> Inl e | Inr ids \<Rightarrow> Inr (map u32_to_string ids)),
      key_pattern = ''comsrv:*'', extract_id = comsrv_extract_id, is_system_key = comsrv_is_system_key,
      get_valid_point_ids_for_entity = comsrv_valid_point_ids points\<rparr>"

section \<open>The provider of modsrv\<close>

definition modsrv_extract_id :: "string \<Rightarrow> string option" where
  "modsrv_extract_id key =
     (let parts = split_on CHR '':'' key in
      if length parts < 2 \<or> parts ! 0 \<noteq> ''inst'' then None
      else map_option u32_to_string (parse_u32 (parts ! 1)))"

text \<open>
  \<open>product_name\<close>: the product of an instance; \<open>product_points\<close>: the measurement and the action
  points of a built-in product.
\<close>

definition modsrv_valid_point_ids ::
  "(u32 \<Rightarrow> string + string option) \<Rightarrow> (string \<Rightarrow> (u32 list \<times> u32 list) option) \<Rightarrow> string \<Rightarrow> string \<Rightarrow>
     string + string list option"
where
  "modsrv_valid_point_ids product_name product_points entity_id key =
     (let measurement = ends_with '':M'' key; action = ends_with '':A'' key in
      if \<not> measurement \<and> \<not> action then Inr None
      else
        (case parse_u32 entity_id of
           None \<Rightarrow> Inl ''Invalid instance_id''
         | Some i \<Rightarrow>
             (case product_name i of
                Inl e \<Rightarrow> Inl e
              | Inr None \<Rightarrow> Inr (Some [])
              | Inr (Some name) \<Rightarrow>
                  (case product_points name of
                     None \<Rightarrow> Inr (Some [])
                   | Some (ms, as) \<Rightarrow> Inr (Some (map u32_to_string (if measurement then ms else as)))))))"

definition modsrv_provider ::
  "(string + u32 list) \<Rightarrow> (u32 \<Rightarrow> string + string option) \<Rightarrow> (string \<Rightarrow> (u32 list \<times> u32 list) option) \<Rightarrow>
     cleanup_provider"
where
  "modsrv_provider instances product_name product_points =
     \<lparr>get_valid_ids = (case instances of Inl e \<Rightarrow> Inl e | Inr ids \<Rightarrow> Inr (map u32_to_string ids)),
      key_pattern = ''inst:*'', extract_id = modsrv_extract_id, is_system_key = (\<lambda>_. False),
      get_valid_point_ids_for_entity = modsrv_valid_point_ids product_name product_points\<rparr>"

section \<open>What a cleanup changes\<close>

text \<open>A key of an entity that is configured no more, and a field of a point that is.\<close>

definition orphan_key :: "cleanup_provider \<Rightarrow> string list \<Rightarrow> string \<Rightarrow> bool" where
  "orphan_key p valid key \<longleftrightarrow>
     \<not> is_system_key p key \<and> (case extract_id p key of None \<Rightarrow> False | Some eid \<Rightarrow> eid \<notin> set valid)"

definition orphan_field :: "cleanup_provider \<Rightarrow> string list \<Rightarrow> string \<Rightarrow> string \<Rightarrow> bool" where
  "orphan_field p valid key field \<longleftrightarrow>
     \<not> is_system_key p key \<and>
     (case extract_id p key of
        None \<Rightarrow> False
      | Some eid \<Rightarrow>
          eid \<in> set valid \<and>
          (case get_valid_point_ids_for_entity p eid key of
             Inr (Some points) \<Rightarrow> field \<notin> set points | _ \<Rightarrow> False))"

lemma mem_del_get [simp]: "mem_get k (snd (mem_del k' db)) = (if k = k' then None else mem_get k db)"
  by (simp add: mem_get_def mem_del_def delete_conv')

lemma mem_del_hash_get [simp]: "mem_hash_get k f (snd (mem_del k' db)) = mem_hash_get k f db"
  by (simp add: mem_hash_get_def mem_del_def)

lemma mem_hash_del_get [simp]: "mem_get k (snd (mem_hash_del k' f db)) = mem_get k db"
  by (simp add: mem_get_def mem_hash_del_def split: option.splits)

lemma hash_get_all_domain: "f \<in> set (map fst (mem_hash_get_all k db)) \<longleftrightarrow> mem_hash_get k f db \<noteq> None"
proof (cases "map_of (hash_store db) k")
  case (Some h)
  then show ?thesis
    using map_of_eq_None_iff [of h f] by (simp add: mem_hash_get_all_def mem_hash_get_def)
qed (simp add: mem_hash_get_all_def mem_hash_get_def)

lemma delete_fields_fold:
  "mem_get k (fold (delete_field_unless_valid key valid) fs db) = mem_get k db \<and>
   mem_hash_get k f (fold (delete_field_unless_valid key valid) fs db) =
     (if k = key \<and> f \<in> set fs \<and> f \<notin> set valid then None else mem_hash_get k f db)"
  by (induction fs arbitrary: db) (auto simp: delete_field_unless_valid_def)

lemma delete_invalid_fields_get [simp]:
  "mem_get k (delete_invalid_fields key valid db) = mem_get k db"
  "mem_hash_get k f (delete_invalid_fields key valid db) =
     (if k = key \<and> f \<notin> set valid then None else mem_hash_get k f db)"
  using delete_fields_fold [of k key valid "map fst (mem_hash_get_all key db)" db f]
    hash_get_all_domain [of f key db]
  unfolding delete_invalid_fields_def by auto

lemma cleanup_keys_effect:
  assumes "cleanup_keys p valid ks n db = (Inr m, db')"
  shows "mem_get k db' = (if k \<in> set ks \<and> orphan_key p valid k then None else mem_get k db) \<and>
    mem_hash_get k f db' = (if k \<in> set ks \<and> orphan_field p valid k f then None else mem_hash_get k f db) \<and>
    m = n + length (filter (orphan_key p valid) ks)"
  using assms
proof (induction ks arbitrary: n db)
  case (Cons key ks)
  show ?case
  proof (cases "is_system_key p key \<or> extract_id p key = None")
    case True
    then have "cleanup_keys p valid ks n db = (Inr m, db')"
      using Cons.prems by (auto split: if_splits)
    from Cons.IH [OF this] True show ?thesis
      by (auto simp: orphan_key_def orphan_field_def)
  next
    case False
    then obtain eid where eid: "extract_id p key = Some eid" "\<not> is_system_key p key" by auto
    show ?thesis
    proof (cases "eid \<in> set valid")
      case False
      then have "cleanup_keys p valid ks (n + 1) (snd (mem_del key db)) = (Inr m, db')"
        using Cons.prems eid by simp
      from Cons.IH [OF this] False eid show ?thesis
        by (auto simp: orphan_key_def orphan_field_def)
    next
      case True
      then obtain o1 where o1: "get_valid_point_ids_for_entity p eid key = Inr o1"
        using Cons.prems eid by (auto split: sum.splits)
      have "cleanup_keys p valid ks n
          (case o1 of None \<Rightarrow> db | Some points \<Rightarrow> delete_invalid_fields key points db) = (Inr m, db')"
        using Cons.prems eid True o1 by (simp split: option.splits)
      from Cons.IH [OF this] True eid o1 show ?thesis
        by (cases o1) (auto simp: orphan_key_def orphan_field_def)
    qed
  qed
qed simp

text \<open>
  A channel number above 65535 is not recognised, although channel numbers have 32 bits: no key of
  such a channel is ever an orphan.
\<close>

lemma digits_val_u32: "digits_val (u32_to_string n) = unat n" "list_all is_digit (u32_to_string n)"
  "u32_to_string n \<noteq> []"
  using nat_digits_props by (simp_all add: u32_to_string_def)

lemma parse_u16_u32: "parse_u16 (u32_to_string n) = (if unat n < 2 ^ 16 then Some (ucast n) else None)"
proof -
  obtain c s where cs: "u32_to_string n = c # s" by (meson digits_val_u32(3) list.exhaust)
  have "c \<noteq> CHR ''+''"
    using digits_val_u32(2) [of n] digit_not_plus by (simp add: cs)
  then show ?thesis
    using digits_val_u32 [of n]
    by (simp add: parse_u16_def cs Let_def not_le of_nat_unat)
qed

lemma comsrv_extract_channel:
  "comsrv_extract_id (channel_key production c pt) = (if unat c < 2 ^ 16 then Some (u32_to_string c) else None)"
proof -
  have "split_on CHR '':'' (channel_key production c pt) = [''comsrv'', u32_to_string c, as_str pt]"
    using split_key_production [of "Channel c pt"] by simp
  moreover have "u16_to_string (ucast c) = u32_to_string c" if "unat c < 2 ^ 16"
    using that by (simp add: u16_to_string_def u32_to_string_def unsigned_ucast_eq take_bit_word_eq_self unsigned_take_bit_eq take_bit_nat_eq_self)
  ultimately show ?thesis
    by (simp add: comsrv_extract_id_def parse_u16_u32 is_digit_def)
qed

lemma wide_channel_never_cleaned:
  assumes "2 ^ 16 \<le> unat c"
  shows "\<not> orphan_key (comsrv_provider enabled points) valid (channel_key production c pt)"
  using assms by (simp add: orphan_key_def comsrv_provider_def comsrv_extract_channel)

section \<open>Properties\<close>


text \<open>
  On the in-memory backend a cleanup does not remove the hashes of unconfigured entities, where
  all channel and instance data live: \<open>del\<close> drops plain values only, so every field stays readable
  while the key is counted as deleted, on every run.
\<close>

theorem cleanup_keeps_orphan_hashes:
  assumes "get_valid_ids p = Inr valid" and "mem_scan_match regex (key_pattern p) db = Inr ks"
    and "cleanup_invalid_keys regex None p db = (Inr n, db')"
    and "k \<in> set ks" and "orphan_key p valid k"
  shows "mem_hash_get k f db' = mem_hash_get k f db \<and> 0 < n"
proof -
  have run: "cleanup_keys p valid ks 0 db = (Inr n, db')"
    using assms(1-3) by (simp add: cleanup_invalid_keys_def)
  have "k \<in> set (filter (orphan_key p valid) ks)"
    using assms(4,5) by simp
  then have "0 < length (filter (orphan_key p valid) ks)"
    by (rule length_pos_if_in_set)
  moreover have "\<not> orphan_field p valid k f"
    using assms(5) by (auto simp: orphan_key_def orphan_field_def split: option.splits)
  ultimately show ?thesis
    using cleanup_keys_effect [OF run, of k f] by simp
qed

text \<open>A database with one enabled channel, one disabled channel and a counter.\<close>

definition demo_comsrv :: cleanup_provider where
  "demo_comsrv = comsrv_provider (Inr [1]) (\<lambda>t c. Inr (if t = ''telemetry_points'' \<and> c = 1 then [5] else []))"

definition demo_regex :: "string \<Rightarrow> string + (string \<Rightarrow> bool)" where
  "demo_regex pattern = Inr (starts_with ''comsrv:'')"

definition demo_stale :: memory_rtdb where
  "demo_stale =
     mem_set ''comsrv:2:status'' ''up'' (mem_set ''comsrv:stats:n'' ''3''
       (mem_hash_set ''comsrv:2:T'' ''1'' ''7.0'' (mem_hash_set ''comsrv:1:T'' ''6'' ''9.0''
         (mem_hash_set ''comsrv:1:T'' ''5'' ''8.0'' mem_new))))"

definition demo_scan :: "string list" where
  "demo_scan = [''comsrv:1:T'', ''comsrv:2:T'', ''comsrv:2:status'', ''comsrv:stats:n'']"

definition demo_cleaned :: memory_rtdb where
  "demo_cleaned = snd (cleanup_invalid_keys demo_regex None demo_comsrv demo_stale)"

lemma demo_ids: "get_valid_ids demo_comsrv = Inr [''1'']"
  by code_simp

lemma demo_scanned: "mem_scan_match demo_regex (key_pattern demo_comsrv) demo_stale = Inr demo_scan"
  by code_simp

lemma demo_parsed: "parse_u16 ''1'' = Some 1" "parse_u16 ''2'' = Some 2" "parse_u32 ''1'' = Some 1"
  by (simp_all add: parse_u16_def parse_u32_def is_digit_def digits_val_def digit_val_def)

lemma demo_printed: "u16_to_string 1 = ''1''" "u16_to_string 2 = ''2''" "u32_to_string 5 = ''5''"
  by code_simp+

lemmas demo_numbers = demo_parsed demo_printed

lemma demo_extract:
  "comsrv_extract_id ''comsrv:1:T'' = Some ''1''" "comsrv_extract_id ''comsrv:2:T'' = Some ''2''"
  "comsrv_extract_id ''comsrv:2:status'' = Some ''2''"
  by (simp_all add: comsrv_extract_id_def demo_numbers)

lemma demo_system:
  "\<not> comsrv_is_system_key ''comsrv:1:T''" "\<not> comsrv_is_system_key ''comsrv:2:T''"
  "\<not> comsrv_is_system_key ''comsrv:2:status''" "comsrv_is_system_key ''comsrv:stats:n''"
  by code_simp+

lemma demo_points: "get_valid_point_ids_for_entity demo_comsrv ''1'' ''comsrv:1:T'' = Inr (Some [''5''])"
proof -
  have "ends_with '':T'' ''comsrv:1:T''" by code_simp
  then show ?thesis
    by (simp add: demo_comsrv_def comsrv_provider_def comsrv_valid_point_ids_def demo_numbers)
qed

lemma demo_fields:
  "extract_id demo_comsrv = comsrv_extract_id" "is_system_key demo_comsrv = comsrv_is_system_key"
  by (simp_all add: demo_comsrv_def comsrv_provider_def)

lemmas demo_facts = demo_extract demo_system demo_points demo_fields

lemma demo_orphans:
  "orphan_key demo_comsrv [''1''] ''comsrv:2:status''" "orphan_key demo_comsrv [''1''] ''comsrv:2:T''"
  "\<not> orphan_key demo_comsrv [''1''] ''comsrv:stats:n''"
  "orphan_field demo_comsrv [''1''] ''comsrv:1:T'' ''6''"
  "\<not> orphan_field demo_comsrv [''1''] ''comsrv:1:T'' ''5''"
  by (simp_all add: orphan_key_def orphan_field_def demo_facts)

lemma demo_keys_result: "fst (cleanup_keys demo_comsrv [''1''] demo_scan 0 demo_stale) = Inr 2"
  by (simp add: demo_scan_def demo_facts)

lemma demo_run: "cleanup_invalid_keys demo_regex None demo_comsrv demo_stale = (Inr 2, demo_cleaned)"
proof -
  have "cleanup_invalid_keys demo_regex None demo_comsrv demo_stale =
      cleanup_keys demo_comsrv [''1''] demo_scan 0 demo_stale"
    by (simp add: cleanup_invalid_keys_def demo_ids demo_scanned)
  then have "fst (cleanup_invalid_keys demo_regex None demo_comsrv demo_stale) = Inr 2"
    by (simp only: demo_keys_result)
  then show ?thesis by (simp add: prod_eq_iff demo_cleaned_def)
qed


theorem cleanup_keeps_orphan_hashes_witness:
  "mem_hash_get ''comsrv:2:T'' ''1'' demo_cleaned = Some ''7.0''"
proof -
  have "''comsrv:2:T'' \<in> set demo_scan"
    "mem_hash_get ''comsrv:2:T'' ''1'' demo_stale = Some ''7.0''"
    by code_simp+
  then show ?thesis
    using cleanup_keeps_orphan_hashes [OF demo_ids demo_scanned demo_run _ demo_orphans(2), of "''1''"] by simp
qed

end
