(* ===== verification/Write_Buffer.thy ===== *)
theory Write_Buffer
  imports Memory_Rtdb
begin

text \<open>
  The write buffer, \<open>libs/voltage-rtdb/src/write_buffer.rs\<close>, and its use by the data store of comsrv
  (\<open>services/comsrv/src/store/redis_store.rs\<close>).  Writers put hash fields into the buffer; a flusher
  drains it, sends the fields to a backend as one pipeline and puts them back if that fails.  Writers
  and flushers run concurrently: the buffer is a concurrent map whose entries are locked one at a
  time, so the draining and the putting back are sequences of steps, one per key, that interleave with
  the writes and with other flushers.  The backend is a parameter; what is assumed of it is the locale
  \<open>hash_backend\<close>.
\<close>

section \<open>State\<close>

record buffer_overflow =
  ov_key :: string
  ov_dropped_fields :: usize
  ov_pending_keys :: usize
  ov_max_pending_keys :: usize

record write_buffer_config =
  flush_interval_ms :: u64
  max_fields_per_key :: usize
  max_pending_keys :: usize
  key_ttl_seconds :: "i64 option"

definition buffer_config_default :: write_buffer_config where
  "buffer_config_default =
     \<lparr>flush_interval_ms = 20, max_fields_per_key = 1000, max_pending_keys = 10000, key_ttl_seconds = None\<rparr>"

definition buffer_config_low_latency :: write_buffer_config where
  "buffer_config_low_latency =
     \<lparr>flush_interval_ms = 10, max_fields_per_key = 500, max_pending_keys = 10000, key_ttl_seconds = None\<rparr>"

definition buffer_config_high_throughput :: write_buffer_config where
  "buffer_config_high_throughput =
     \<lparr>flush_interval_ms = 50, max_fields_per_key = 2000, max_pending_keys = 20000, key_ttl_seconds = None\<rparr>"

record write_buffer_stats =
  buffered_writes :: u64
  flush_count :: u64
  fields_flushed :: u64
  forced_flushes :: u64
  flush_errors :: u64
  overflow_drops :: u64

definition stats_default :: write_buffer_stats where
  "stats_default =
     \<lparr>buffered_writes = 0, flush_count = 0, fields_flushed = 0, forced_flushes = 0, flush_errors = 0,
      overflow_drops = 0\<rparr>"

text \<open>\<open>flush_notify\<close> holds at most one permit.\<close>

record write_buffer =
  pending :: "string dash_map dash_map"
  flush_notify :: bool
  wb_config :: write_buffer_config
  wb_stats :: write_buffer_stats
  last_expire_secs :: u64

definition wb_new :: "write_buffer_config \<Rightarrow> write_buffer" where
  "wb_new cfg =
     \<lparr>pending = [], flush_notify = False, wb_config = cfg, wb_stats = stats_default, last_expire_secs = 0\<rparr>"

definition pending_keys :: "write_buffer \<Rightarrow> usize" where
  "pending_keys wb = length (pending wb)"

definition pending_fields :: "write_buffer \<Rightarrow> usize" where
  "pending_fields wb = sum_list (map (\<lambda>e. length (snd e)) (pending wb))"

section \<open>Writing\<close>

definition overflows :: "string \<Rightarrow> write_buffer \<Rightarrow> bool" where
  "overflows key wb \<longleftrightarrow>
     length (pending wb) \<ge> max_pending_keys (wb_config wb) \<and> map_of (pending wb) key = None"

definition reject_write :: "string \<Rightarrow> usize \<Rightarrow> write_buffer \<Rightarrow> (buffer_overflow + unit) \<times> write_buffer" where
  "reject_write key dropped wb =
     (Inl \<lparr>ov_key = key, ov_dropped_fields = dropped, ov_pending_keys = length (pending wb),
           ov_max_pending_keys = max_pending_keys (wb_config wb)\<rparr>,
      wb\<lparr>wb_stats := (wb_stats wb)\<lparr>overflow_drops := overflow_drops (wb_stats wb) + of_nat dropped\<rparr>,
         flush_notify := True\<rparr>)"

definition count_writes :: "usize \<Rightarrow> usize \<Rightarrow> write_buffer \<Rightarrow> write_buffer" where
  "count_writes n len wb =
     (let wb1 = wb\<lparr>wb_stats := (wb_stats wb)\<lparr>buffered_writes := buffered_writes (wb_stats wb) + of_nat n\<rparr>\<rparr>
      in if len \<ge> max_fields_per_key (wb_config wb)
         then wb1\<lparr>wb_stats := (wb_stats wb1)\<lparr>forced_flushes := forced_flushes (wb_stats wb1) + 1\<rparr>,
                  flush_notify := True\<rparr>
         else wb1)"

definition buffer_hash_set ::
  "string \<Rightarrow> string \<Rightarrow> string \<Rightarrow> write_buffer \<Rightarrow> (buffer_overflow + unit) \<times> write_buffer"
where
  "buffer_hash_set key field v wb =
     (if overflows key wb then reject_write key 1 wb
      else
        (let entry = AList.update field v (entry_or_default key (pending wb))
         in (Inr (), count_writes 1 (length entry) (wb\<lparr>pending := AList.update key entry (pending wb)\<rparr>))))"

definition buffer_hash_mset ::
  "string \<Rightarrow> (string \<times> string) list \<Rightarrow> write_buffer \<Rightarrow> (buffer_overflow + unit) \<times> write_buffer"
where
  "buffer_hash_mset key fvs wb =
     (if fvs = [] then (Inr (), wb)
      else if overflows key wb then reject_write key (length fvs) wb
      else
        (let entry = insert_fields fvs (entry_or_default key (pending wb))
         in (Inr (), count_writes (length fvs) (length entry) (wb\<lparr>pending := AList.update key entry (pending wb)\<rparr>))))"

section \<open>Flushing\<close>

text \<open>
  \<open>drain_pending\<close> visits the entries in the order of the map, which \<open>kp\<close> gives as a priority of the
  keys; the fields of an entry come in the order \<open>fp\<close>.  Each visit empties and removes one entry.
\<close>

definition retain_entry ::
  "(string \<Rightarrow> nat) \<Rightarrow> string \<Rightarrow> write_buffer \<times> hash_mset_ops \<Rightarrow> write_buffer \<times> hash_mset_ops"
where
  "retain_entry fp key = (\<lambda>(wb, ops).
     case map_of (pending wb) key of
       None \<Rightarrow> (wb, ops)
     | Some fvs \<Rightarrow>
         (wb\<lparr>pending := AList.delete key (pending wb)\<rparr>,
          if fvs \<noteq> [] then ops @ [(key, sort_key (\<lambda>fv. fp (fst fv)) fvs)] else ops))"

definition drain_pending ::
  "(string \<Rightarrow> nat) \<Rightarrow> (string \<Rightarrow> nat) \<Rightarrow> write_buffer \<Rightarrow> write_buffer \<times> hash_mset_ops"
where
  "drain_pending kp fp wb = fold (retain_entry fp) (sort_key kp (map fst (pending wb))) (wb, [])"

definition or_insert :: "string \<times> string \<Rightarrow> string dash_map \<Rightarrow> string dash_map" where
  "or_insert fv h = (case map_of h (fst fv) of Some _ \<Rightarrow> h | None \<Rightarrow> AList.update (fst fv) (snd fv) h)"

definition requeue_op :: "string \<times> (string \<times> string) list \<Rightarrow> write_buffer \<Rightarrow> write_buffer" where
  "requeue_op op wb =
     wb\<lparr>pending :=
          AList.update (fst op) (fold or_insert (snd op) (entry_or_default (fst op) (pending wb))) (pending wb)\<rparr>"

definition requeue_failed :: "hash_mset_ops \<Rightarrow> write_buffer \<Rightarrow> write_buffer" where
  "requeue_failed ops wb = fold requeue_op ops wb"

text \<open>After a pipeline that succeeded: refresh expiry times, at most every five minutes, and count.\<close>

definition saturating_sub :: "u64 \<Rightarrow> u64 \<Rightarrow> u64" where
  "saturating_sub a b = (if b \<le> a then a - b else 0)"

definition refresh_ttl ::
  "(string \<Rightarrow> i64 \<Rightarrow> 'db \<Rightarrow> 'db) \<Rightarrow> u64 \<Rightarrow> hash_mset_ops \<Rightarrow> write_buffer \<times> 'db \<Rightarrow> write_buffer \<times> 'db"
where
  "refresh_ttl expire now ops = (\<lambda>(wb, db).
     case key_ttl_seconds (wb_config wb) of
       None \<Rightarrow> (wb, db)
     | Some ttl \<Rightarrow>
         if saturating_sub now (last_expire_secs wb) \<ge> 300
         then (wb\<lparr>last_expire_secs := now\<rparr>, fold (\<lambda>k. expire k ttl) (map fst ops) db)
         else (wb, db))"

definition field_count :: "hash_mset_ops \<Rightarrow> usize" where
  "field_count ops = sum_list (map (\<lambda>op. length (snd op)) ops)"

definition flush_sent ::
  "(string \<Rightarrow> i64 \<Rightarrow> 'db \<Rightarrow> 'db) \<Rightarrow> u64 \<Rightarrow> hash_mset_ops \<Rightarrow> write_buffer \<times> 'db \<Rightarrow> write_buffer \<times> 'db"
where
  "flush_sent expire now ops s =
     (let (wb, db) = refresh_ttl expire now ops s
      in (wb\<lparr>wb_stats := (wb_stats wb)\<lparr>flush_count := flush_count (wb_stats wb) + 1,
             fields_flushed := fields_flushed (wb_stats wb) + of_nat (field_count ops)\<rparr>\<rparr>, db))"

definition flush ::
  "(hash_mset_ops \<Rightarrow> 'db \<Rightarrow> (string + unit) \<times> 'db) \<Rightarrow> (string \<Rightarrow> i64 \<Rightarrow> 'db \<Rightarrow> 'db) \<Rightarrow>
     (string \<Rightarrow> nat) \<Rightarrow> (string \<Rightarrow> nat) \<Rightarrow> u64 \<Rightarrow> write_buffer \<Rightarrow> 'db \<Rightarrow> (string + usize) \<times> write_buffer \<times> 'db"
where
  "flush pipe expire kp fp now wb db =
     (let (wb1, ops) = drain_pending kp fp wb in
      if ops = [] then (Inr 0, wb1, db)
      else
        (case pipe ops db of
           (Inl e, db1) \<Rightarrow> (Inl e, requeue_failed ops wb1, db1)
         | (Inr _, db1) \<Rightarrow> (Inr (field_count ops), flush_sent expire now ops (wb1, db1))))"

definition flush_now ::
  "(hash_mset_ops \<Rightarrow> 'db \<Rightarrow> (string + unit) \<times> 'db) \<Rightarrow> (string \<Rightarrow> i64 \<Rightarrow> 'db \<Rightarrow> 'db) \<Rightarrow>
     (string \<Rightarrow> nat) \<Rightarrow> (string \<Rightarrow> nat) \<Rightarrow> u64 \<Rightarrow> write_buffer \<Rightarrow> 'db \<Rightarrow> (string + usize) \<times> write_buffer \<times> 'db"
where
  "flush_now pipe expire kp fp now wb db = flush pipe expire kp fp now wb db"

section \<open>Writes\<close>

text \<open>One write of a producer, and the fields it carries, in order.\<close>

datatype buffered_write = Hash_Set string string string | Hash_Mset string "(string \<times> string) list"

fun buffer_write :: "buffered_write \<Rightarrow> write_buffer \<Rightarrow> (buffer_overflow + unit) \<times> write_buffer" where
  "buffer_write (Hash_Set k f v) wb = buffer_hash_set k f v wb"
| "buffer_write (Hash_Mset k fvs) wb = buffer_hash_mset k fvs wb"

fun write_fields :: "buffered_write \<Rightarrow> (string \<times> string \<times> string) list" where
  "write_fields (Hash_Set k f v) = [(k, f, v)]"
| "write_fields (Hash_Mset k fvs) = map (Pair k) fvs"

section \<open>Writers and flushers side by side\<close>

text \<open>
  Where a flusher stands: draining, waiting for the reply to its pipeline, or putting the fields of a
  failed pipeline back.
\<close>

datatype flight =
    Idle | Draining hash_mset_ops | Sending hash_mset_ops | Requeueing hash_mset_ops

fun flight_ops :: "flight \<Rightarrow> hash_mset_ops" where
  "flight_ops Idle = []"
| "flight_ops (Draining ops) = ops"
| "flight_ops (Sending ops) = ops"
| "flight_ops (Requeueing ops) = ops"

text \<open>
  The buffer, the flushers, the database, and, for the statements only, the fields of the accepted
  writes in the order of their acceptance.
\<close>

record 'db flow =
  fl_buffer :: write_buffer
  fl_flights :: "nat \<Rightarrow> flight"
  fl_db :: 'db
  fl_accepted :: "(string \<times> string \<times> string) list"

definition flow_start :: "write_buffer_config \<Rightarrow> 'db \<Rightarrow> 'db flow" where
  "flow_start cfg db =
     \<lparr>fl_buffer = wb_new cfg, fl_flights = (\<lambda>_. Idle), fl_db = db, fl_accepted = []\<rparr>"

text \<open>
  The atomic steps.  \<open>Visit\<close> drains one entry, \<open>Reply\<close> is the answer to the pipeline, \<open>Requeue\<close> puts
  one entry back, and \<open>Abort\<close> cancels a flusher at the only point where it waits.
\<close>

datatype flow_label =
    Write buffered_write | Begin nat | Visit nat string | Send nat | Reply nat u64 | Requeue nat | Abort nat

definition flow_write :: "buffered_write \<Rightarrow> 'db flow \<Rightarrow> 'db flow" where
  "flow_write w st =
     (let (r, wb) = buffer_write w (fl_buffer st)
      in st\<lparr>fl_buffer := wb,
            fl_accepted := fl_accepted st @ (case r of Inr _ \<Rightarrow> write_fields w | Inl _ \<Rightarrow> [])\<rparr>)"

fun flow_step ::
  "(hash_mset_ops \<Rightarrow> 'db \<Rightarrow> (string + unit) \<times> 'db) \<Rightarrow> (string \<Rightarrow> i64 \<Rightarrow> 'db \<Rightarrow> 'db) \<Rightarrow>
     (string \<Rightarrow> nat) \<Rightarrow> flow_label \<Rightarrow> 'db flow \<Rightarrow> 'db flow option"
where
  "flow_step pipe expire fp (Write w) st = Some (flow_write w st)"
| "flow_step pipe expire fp (Begin i) st =
     (case fl_flights st i of
        Idle \<Rightarrow> Some (st\<lparr>fl_flights := (fl_flights st)(i := Draining [])\<rparr>)
      | _ \<Rightarrow> None)"
| "flow_step pipe expire fp (Visit i key) st =
     (case fl_flights st i of
        Draining ops \<Rightarrow>
          if key \<in> fst ` set ops then None
          else
            (let (wb, ops') = retain_entry fp key (fl_buffer st, ops)
             in Some (st\<lparr>fl_buffer := wb, fl_flights := (fl_flights st)(i := Draining ops')\<rparr>))
      | _ \<Rightarrow> None)"
| "flow_step pipe expire fp (Send i) st =
     (case fl_flights st i of
        Draining ops \<Rightarrow>
          Some (st\<lparr>fl_flights := (fl_flights st)(i := (if ops = [] then Idle else Sending ops))\<rparr>)
      | _ \<Rightarrow> None)"
| "flow_step pipe expire fp (Reply i now) st =
     (case fl_flights st i of
        Sending ops \<Rightarrow>
          (case pipe ops (fl_db st) of
             (Inl e, db) \<Rightarrow>
               Some (st\<lparr>fl_db := db, fl_flights := (fl_flights st)(i := Requeueing ops)\<rparr>)
           | (Inr _, db) \<Rightarrow>
               (let (wb', db') = flush_sent expire now ops (fl_buffer st, db)
                in Some (st\<lparr>fl_buffer := wb', fl_db := db', fl_flights := (fl_flights st)(i := Idle)\<rparr>)))
      | _ \<Rightarrow> None)"
| "flow_step pipe expire fp (Requeue i) st =
     (case fl_flights st i of
        Requeueing ops \<Rightarrow>
          (case ops of
             [] \<Rightarrow> Some (st\<lparr>fl_flights := (fl_flights st)(i := Idle)\<rparr>)
           | op # ops' \<Rightarrow>
               Some (st\<lparr>fl_buffer := requeue_op op (fl_buffer st),
                        fl_flights := (fl_flights st)(i := Requeueing ops')\<rparr>))
      | _ \<Rightarrow> None)"
| "flow_step pipe expire fp (Abort i) st =
     (case fl_flights st i of
        Sending ops \<Rightarrow> Some (st\<lparr>fl_flights := (fl_flights st)(i := Idle)\<rparr>)
      | _ \<Rightarrow> None)"

fun flow_run ::
  "(hash_mset_ops \<Rightarrow> 'db \<Rightarrow> (string + unit) \<times> 'db) \<Rightarrow> (string \<Rightarrow> i64 \<Rightarrow> 'db \<Rightarrow> 'db) \<Rightarrow>
     (string \<Rightarrow> nat) \<Rightarrow> flow_label list \<Rightarrow> 'db flow \<Rightarrow> 'db flow option"
where
  "flow_run pipe expire fp [] st = Some st"
| "flow_run pipe expire fp (l # ls) st =
     (case flow_step pipe expire fp l st of
        None \<Rightarrow> None
      | Some st' \<Rightarrow> flow_run pipe expire fp ls st')"

text \<open>The steps of writers and of flusher 0, which is never cancelled.\<close>

fun one_flusher :: "flow_label \<Rightarrow> bool" where
  "one_flusher (Write w) = True"
| "one_flusher (Begin i) = (i = 0)"
| "one_flusher (Visit i k) = (i = 0)"
| "one_flusher (Send i) = (i = 0)"
| "one_flusher (Reply i now) = (i = 0)"
| "one_flusher (Requeue i) = (i = 0)"
| "one_flusher (Abort i) = False"

text \<open>
  The path of \<open>RedisDataStore::shutdown\<close> when the flush task (flusher 0) does not stop in time: flush
  what is pending, then cancel the task.
\<close>

definition shutdown_timed_out ::
  "(hash_mset_ops \<Rightarrow> 'db \<Rightarrow> (string + unit) \<times> 'db) \<Rightarrow> (string \<Rightarrow> i64 \<Rightarrow> 'db \<Rightarrow> 'db) \<Rightarrow>
     (string \<Rightarrow> nat) \<Rightarrow> (string \<Rightarrow> nat) \<Rightarrow> u64 \<Rightarrow> 'db flow \<Rightarrow> 'db flow"
where
  "shutdown_timed_out pipe expire kp fp now st =
     (let (r, wb, db) = flush_now pipe expire kp fp now (fl_buffer st) (fl_db st)
      in st\<lparr>fl_buffer := wb, fl_db := db, fl_flights := (fl_flights st)(0 := Idle)\<rparr>)"

section \<open>The background task\<close>

datatype wake = Timer | Notified | Shutdown

text \<open>A whole flush, and one whose failure is counted.\<close>

definition flow_flush ::
  "(hash_mset_ops \<Rightarrow> 'db \<Rightarrow> (string + unit) \<times> 'db) \<Rightarrow> (string \<Rightarrow> i64 \<Rightarrow> 'db \<Rightarrow> 'db) \<Rightarrow>
     (string \<Rightarrow> nat) \<Rightarrow> (string \<Rightarrow> nat) \<Rightarrow> u64 \<Rightarrow> 'db flow \<Rightarrow> (string + usize) \<times> 'db flow"
where
  "flow_flush pipe expire kp fp now st =
     (let (r, wb, db) = flush pipe expire kp fp now (fl_buffer st) (fl_db st)
      in (r, st\<lparr>fl_buffer := wb, fl_db := db\<rparr>))"

definition count_flush_error :: "(string + usize) \<times> 'db flow \<Rightarrow> 'db flow" where
  "count_flush_error = (\<lambda>(r, st).
     case r of
       Inr _ \<Rightarrow> st
     | Inl _ \<Rightarrow>
         st\<lparr>fl_buffer := (fl_buffer st)\<lparr>wb_stats :=
              (wb_stats (fl_buffer st))\<lparr>flush_errors := flush_errors (wb_stats (fl_buffer st)) + 1\<rparr>\<rparr>\<rparr>)"

text \<open>
  \<open>flush_loop_with_shutdown\<close>, over the writes that arrive before each wake-up, the wake-up and the
  clock.  A notification consumes the permit.  The result is that of the final flush, \<open>None\<close> while the
  loop still runs; \<open>flush_loop\<close> is the loop without \<open>Shutdown\<close>.
\<close>

fun flush_loop_with_shutdown ::
  "(hash_mset_ops \<Rightarrow> 'db \<Rightarrow> (string + unit) \<times> 'db) \<Rightarrow> (string \<Rightarrow> i64 \<Rightarrow> 'db \<Rightarrow> 'db) \<Rightarrow>
     (string \<Rightarrow> nat) \<Rightarrow> (string \<Rightarrow> nat) \<Rightarrow> (buffered_write list \<times> wake \<times> u64) list \<Rightarrow> 'db flow \<Rightarrow>
     (string + usize) option \<times> 'db flow"
where
  "flush_loop_with_shutdown pipe expire kp fp [] st = (None, st)"
| "flush_loop_with_shutdown pipe expire kp fp ((ws, wk, now) # evs) st =
     (let st1 = fold flow_write ws st in
      case wk of
        Shutdown \<Rightarrow> (let (r, st2) = flow_flush pipe expire kp fp now st1 in (Some r, st2))
      | Timer \<Rightarrow>
          flush_loop_with_shutdown pipe expire kp fp evs
            (count_flush_error (flow_flush pipe expire kp fp now st1))
      | Notified \<Rightarrow>
          flush_loop_with_shutdown pipe expire kp fp evs
            (count_flush_error (flow_flush pipe expire kp fp now
               (st1\<lparr>fl_buffer := (fl_buffer st1)\<lparr>flush_notify := False\<rparr>\<rparr>))))"

section \<open>What the buffer holds\<close>

text \<open>The newest value of a field: pending, else in flight, else stored.\<close>

definition newest_of :: "(string \<times> string \<times> string) list \<Rightarrow> string \<Rightarrow> string \<Rightarrow> string option" where
  "newest_of acc k f = map_of (rev (map (\<lambda>(k, f, v). ((k, f), v)) acc)) (k, f)"

definition first_some :: "'a option \<Rightarrow> 'a option \<Rightarrow> 'a option" where
  "first_some a b = (case a of Some v \<Rightarrow> Some v | None \<Rightarrow> b)"

definition current_value ::
  "(string \<Rightarrow> string \<Rightarrow> 'db \<Rightarrow> string option) \<Rightarrow> 'db flow \<Rightarrow> string \<Rightarrow> string \<Rightarrow> string option"
where
  "current_value hget st k f =
     first_some (written (pending (fl_buffer st)) k f)
       (first_some (written (flight_ops (fl_flights st 0)) k f) (hget k f (fl_db st)))"

lemma first_some_simps [simp]: "first_some None b = b" "first_some (Some v) b = Some v"
  "first_some a None = a"
  by (simp_all add: first_some_def split: option.splits)

lemma first_some_assoc: "first_some (first_some a b) c = first_some a (first_some b c)"
  by (simp add: first_some_def split: option.splits)

lemma written_simps [simp]: "written [] k f = None"
  "written (op # ops) k f = (if k = fst op then map_of (snd op) f else written ops k f)"
  by (cases op) (auto simp: written_def)

lemma written_update [simp]:
  "written (AList.update k h m) k' f = (if k' = k then map_of h f else written m k' f)"
  by (simp add: written_def update_conv')

lemma written_delete [simp]:
  "written (AList.delete k m) k' f = (if k' = k then None else written m k' f)"
  by (simp add: written_def delete_conv')

lemma written_default: "map_of (entry_or_default k m) f = written m k f"
  by (simp add: written_def entry_or_default_map_of)

lemma written_absent: "k \<notin> fst ` set ops \<Longrightarrow> written ops k f = None"
  by (induction ops) auto

lemma written_snoc:
  "k \<notin> fst ` set ops \<Longrightarrow> written (ops @ [(k, fvs)]) k' f = (if k' = k then map_of fvs f else written ops k' f)"
  by (induction ops) auto

lemma newest_of_Nil [simp]: "newest_of [] k f = None"
  by (simp add: newest_of_def)

lemma newest_of_append: "newest_of (acc @ ws) k f = first_some (newest_of ws k f) (newest_of acc k f)"
  by (simp add: newest_of_def first_some_def map_add_def)

lemma newest_of_fields:
  "newest_of (map (Pair k) fvs) k' f = (if k' = k then map_of (rev fvs) f else None)"
proof (induction fvs)
  case (Cons fv fvs)
  then show ?case
    using newest_of_append [of "[(k, fst fv, snd fv)]" "map (Pair k) fvs" k' f]
    by (cases fv) (auto simp: newest_of_def first_some_def map_add_def split: option.splits)
qed (simp add: newest_of_def)

lemma map_of_sort_key:
  assumes "distinct (map fst xs)"
  shows "map_of (sort_key p xs) = map_of xs"
proof
  fix k
  have "distinct (map fst (sort_key p xs))"
    using assms by (metis distinct_map distinct_sort set_sort)
  then show "map_of (sort_key p xs) k = map_of xs k"
    using assms by (metis map_of_eq_Some_iff not_Some_eq set_sort)
qed

section \<open>The invariant\<close>

lemma ops_wf_Nil [simp]: "ops_wf []"
  by (simp add: ops_wf_def)

lemma ops_wf_tl: "ops_wf (op # ops) \<Longrightarrow> ops_wf ops \<and> fst op \<notin> fst ` set ops"
  by (simp add: ops_wf_def)

lemma ops_wf_entry: "ops_wf m \<Longrightarrow> map_of m k = Some h \<Longrightarrow> distinct (map fst h)"
  by (force simp: ops_wf_def dest: map_of_SomeD)

lemma ops_wf_default: "ops_wf m \<Longrightarrow> distinct (map fst (entry_or_default k m))"
  by (auto simp: entry_or_default_def dest: ops_wf_entry split: option.splits)

lemma ops_wf_update:
  assumes "ops_wf m" "distinct (map fst h)"
  shows "ops_wf (AList.update k h m)"
proof -
  have "\<forall>h \<in> snd ` set m. distinct (map fst h)"
    using assms(1) by (auto simp: ops_wf_def)
  from update_entries [where P = "\<lambda>h. distinct (map fst h)", OF this assms(2), of k] show ?thesis
    using assms(1) by (simp add: ops_wf_def distinct_update)
qed

lemma ops_wf_delete: "ops_wf m \<Longrightarrow> ops_wf (AList.delete k m)"
proof -
  assume wf: "ops_wf m"
  have "set (AList.delete k m) \<subseteq> set m" by (auto simp: AList.delete_eq)
  with wf show ?thesis by (auto simp: ops_wf_def distinct_delete)
qed

lemma ops_wf_snoc:
  assumes "ops_wf ops" "k \<notin> fst ` set ops" "distinct (map fst fvs)"
  shows "ops_wf (ops @ [(k, sort_key p fvs)])"
proof -
  have "distinct (map fst (sort_key p fvs))"
    using assms(3) by (metis distinct_map distinct_sort set_sort)
  then show ?thesis using assms by (auto simp: ops_wf_def)
qed

lemma or_insert_get: "map_of (or_insert fv h) f = first_some (map_of h f) (map_of [fv] f)"
  by (cases fv) (auto simp: or_insert_def update_conv' split: option.splits)

lemma fold_or_insert_get: "map_of (fold or_insert fvs h) f = first_some (map_of h f) (map_of fvs f)"
  by (induction fvs arbitrary: h) (auto simp: or_insert_get first_some_def split: option.splits)

lemma fold_or_insert_distinct: "distinct (map fst h) \<Longrightarrow> distinct (map fst (fold or_insert fvs h))"
  by (induction fvs arbitrary: h) (auto simp: or_insert_def distinct_update split: option.splits)

lemma count_writes_pending [simp]:
  "pending (count_writes n len wb) = pending wb" "wb_config (count_writes n len wb) = wb_config wb"
  by (simp_all add: count_writes_def Let_def)

text \<open>A write, accepted or not.\<close>

lemma buffer_write_effect:
  assumes "buffer_write w wb = (r, wb')"
  shows "wb_config wb' = wb_config wb \<and> (ops_wf (pending wb) \<longrightarrow> ops_wf (pending wb')) \<and>
    written (pending wb') k f =
      first_some (newest_of (case r of Inr _ \<Rightarrow> write_fields w | Inl _ \<Rightarrow> []) k f) (written (pending wb) k f)"
proof (cases w)
  case (Hash_Set k' f' v)
  then show ?thesis
    using assms
    by (auto simp: buffer_hash_set_def reject_write_def Let_def newest_of_def update_conv' written_default
        ops_wf_update ops_wf_default distinct_update split: if_splits)
next
  case (Hash_Mset k' fvs)
  then show ?thesis
    using assms
    by (auto simp: buffer_hash_mset_def reject_write_def Let_def newest_of_fields written_default
        ops_wf_update ops_wf_default insert_fields_distinct map_add_def first_some_def
        split: if_splits option.splits)
qed

text \<open>A visit moves the fields of one entry from the buffer to the flight.\<close>

lemma retain_entry_effect:
  assumes "retain_entry fp key (wb, ops) = (wb', ops')"
    and "ops_wf (pending wb)" "ops_wf ops" "key \<notin> fst ` set ops"
  shows "wb_config wb' = wb_config wb \<and> ops_wf (pending wb') \<and> ops_wf ops' \<and>
    first_some (written (pending wb') k f) (written ops' k f) =
    first_some (written (pending wb) k f) (written ops k f)"
proof (cases "map_of (pending wb) key")
  case None
  then show ?thesis using assms by (simp add: retain_entry_def)
next
  case (Some fvs)
  then have d: "distinct (map fst fvs)" using assms(2) ops_wf_entry by blast
  have w: "written (pending wb) key f = map_of fvs f" by (simp add: written_def Some)
  show ?thesis
  proof (cases "fvs = []")
    case True
    with assms Some w show ?thesis
      by (auto simp: retain_entry_def ops_wf_delete written_absent)
  next
    case False
    with assms Some w show ?thesis
      by (auto simp: retain_entry_def ops_wf_delete ops_wf_snoc d written_snoc written_absent map_of_sort_key)
  qed
qed

lemma requeue_op_effect:
  "wb_config (requeue_op op wb) = wb_config wb"
  "ops_wf (pending wb) \<Longrightarrow> ops_wf (pending (requeue_op op wb))"
  "written (pending (requeue_op op wb)) k f =
     first_some (written (pending wb) k f) (written [op] k f)"
  by (auto simp: requeue_op_def ops_wf_update ops_wf_default fold_or_insert_distinct fold_or_insert_get
      written_default)

lemma flush_sent_no_ttl:
  assumes "key_ttl_seconds (wb_config wb) = None"
  shows "pending (fst (flush_sent expire now ops (wb, db))) = pending wb"
    "wb_config (fst (flush_sent expire now ops (wb, db))) = wb_config wb"
    "snd (flush_sent expire now ops (wb, db)) = db"
  using assms by (simp_all add: flush_sent_def refresh_ttl_def)

text \<open>
  No expiry time is configured, the maps are well formed, and the newest value of every field is the
  last one accepted, or the one stored at the start.
\<close>

definition flow_inv ::
  "(string \<Rightarrow> string \<Rightarrow> 'db \<Rightarrow> string option) \<Rightarrow> 'db \<Rightarrow> 'db flow \<Rightarrow> bool"
where
  "flow_inv hget base st \<longleftrightarrow>
     key_ttl_seconds (wb_config (fl_buffer st)) = None \<and>
     ops_wf (pending (fl_buffer st)) \<and> ops_wf (flight_ops (fl_flights st 0)) \<and>
     (\<forall>k f. current_value hget st k f = first_some (newest_of (fl_accepted st) k f) (hget k f base))"

lemma flow_inv_start: "key_ttl_seconds cfg = None \<Longrightarrow> flow_inv hget db (flow_start cfg db)"
  by (simp add: flow_inv_def flow_start_def wb_new_def current_value_def)

lemma flow_inv_write:
  assumes "flow_inv hget base st"
  shows "flow_inv hget base (flow_write w st)"
proof -
  obtain r wb where b: "buffer_write w (fl_buffer st) = (r, wb)" by (cases "buffer_write w (fl_buffer st)")
  show ?thesis
    using assms buffer_write_effect [OF b]
    by (simp add: flow_inv_def flow_write_def b current_value_def newest_of_append first_some_assoc)
qed

text \<open>A step that changes neither the accepted writes nor the newest values keeps the invariant.\<close>

lemma flow_inv_same:
  assumes "flow_inv hget base st" "fl_accepted st' = fl_accepted st"
    "wb_config (fl_buffer st') = wb_config (fl_buffer st)"
    "ops_wf (pending (fl_buffer st'))" "ops_wf (flight_ops (fl_flights st' 0))"
    "\<And>k f. current_value hget st' k f = current_value hget st k f"
  shows "flow_inv hget base st'"
  using assms by (simp add: flow_inv_def)

context hash_backend begin

lemma flow_inv_reply:
  assumes inv: "flow_inv hget base st" and fl: "fl_flights st 0 = Sending ops"
    and step: "flow_step pipe expire fp (Reply 0 now) st = Some st'"
  shows "flow_inv hget base st'"
proof -
  have wf: "ops_wf ops" "ops_wf (pending (fl_buffer st))"
    and ttl: "key_ttl_seconds (wb_config (fl_buffer st)) = None"
    using inv fl by (simp_all add: flow_inv_def)
  obtain r db where p: "pipe ops (fl_db st) = (r, db)" by (cases "pipe ops (fl_db st)")
  show ?thesis
  proof (cases r)
    case (Inl e)
    have "first_some (written ops k f) (hget k f db) = first_some (written ops k f) (hget k f (fl_db st))" for k f
      using pipe_failed [OF wf(1) p [unfolded Inl], of k f] by (auto simp: first_some_def split: option.splits)
    then show ?thesis
      using step wf by (intro flow_inv_same [OF inv]) (auto simp: fl p Inl current_value_def)
  next
    case (Inr u)
    have "hget k f db = first_some (written ops k f) (hget k f (fl_db st))" for k f
      using pipe_ok [OF wf(1) p [unfolded Inr], of k f] by (simp add: first_some_def)
    then show ?thesis
      using step wf flush_sent_no_ttl [OF ttl, of expire now ops db]
      by (intro flow_inv_same [OF inv]) (auto simp: fl p Inr current_value_def case_prod_beta)
  qed
qed

lemma flow_inv_step:
  assumes inv: "flow_inv hget base st" and "one_flusher l"
    and step: "flow_step pipe expire fp l st = Some st'"
  shows "flow_inv hget base st'"
proof -
  have wf: "ops_wf (pending (fl_buffer st))" "ops_wf (flight_ops (fl_flights st 0))"
    using inv by (simp_all add: flow_inv_def)
  show ?thesis
  proof (cases l)
    case (Write w)
    then show ?thesis using step flow_inv_write [OF inv] by auto
  next
    case (Begin i)
    then show ?thesis
      using step wf assms(2)
      by (intro flow_inv_same [OF inv]) (auto simp: current_value_def split: flight.splits)
  next
    case (Visit i key)
    then obtain ops where ops: "fl_flights st 0 = Draining ops" "key \<notin> fst ` set ops" "i = 0"
      using step assms(2) by (auto split: flight.splits if_splits)
    obtain wb ops' where r: "retain_entry fp key (fl_buffer st, ops) = (wb, ops')"
      by (cases "retain_entry fp key (fl_buffer st, ops)")
    show ?thesis
      using step wf retain_entry_effect [OF r] ops
      by (intro flow_inv_same [OF inv])
        (auto simp: Visit r current_value_def simp flip: first_some_assoc)
  next
    case (Send i)
    then show ?thesis
      using step wf assms(2)
      by (intro flow_inv_same [OF inv]) (auto simp: current_value_def split: flight.splits)
  next
    case (Reply i now)
    then show ?thesis
      using step assms(2) flow_inv_reply [OF inv] by (auto split: flight.splits)
  next
    case (Requeue i)
    then obtain ops where ops: "fl_flights st 0 = Requeueing ops" "i = 0"
      using step assms(2) by (auto split: flight.splits)
    show ?thesis
    proof (cases ops)
      case Nil
      then show ?thesis
        using step wf by (intro flow_inv_same [OF inv]) (auto simp: Requeue ops current_value_def)
    next
      case (Cons op ops')
      have "ops_wf ops'" "fst op \<notin> fst ` set ops'"
        using wf(2) ops_wf_tl [of op ops'] by (simp_all add: ops Cons)
      then show ?thesis
        using step wf requeue_op_effect [where op = op and wb = "fl_buffer st"]
        by (intro flow_inv_same [OF inv])
          (auto simp: Requeue ops Cons current_value_def first_some_assoc written_absent)
    qed
  next
    case (Abort i)
    then show ?thesis using assms(2) by simp
  qed
qed

lemma flow_inv_run:
  "flow_inv hget base st \<Longrightarrow> list_all one_flusher ls \<Longrightarrow> flow_run pipe expire fp ls st = Some st' \<Longrightarrow>
   flow_inv hget base st'"
  by (induction ls arbitrary: st) (auto split: option.splits dest: flow_inv_step)

end

section \<open>A whole flush is a run of steps\<close>

lemma flow_run_append:
  "flow_run pipe expire fp ls st = Some st1 \<Longrightarrow>
   flow_run pipe expire fp (ls @ ls') st = flow_run pipe expire fp ls' st1"
  by (induction ls arbitrary: st) (auto split: option.splits)

lemma retain_entry_keys:
  "retain_entry fp key (wb, ops) = (wb', ops') \<Longrightarrow> fst ` set ops' \<subseteq> insert key (fst ` set ops)"
  by (auto simp: retain_entry_def split: option.splits if_splits)

lemma visits_run:
  assumes "distinct ks" "set ks \<inter> fst ` set ops = {}" "fl_flights st 0 = Draining ops"
    and "fold (retain_entry fp) ks (fl_buffer st, ops) = (wb', ops')"
  shows "flow_run pipe expire fp (map (Visit 0) ks) st =
    Some (st\<lparr>fl_buffer := wb', fl_flights := (fl_flights st)(0 := Draining ops')\<rparr>)"
  using assms
proof (induction ks arbitrary: st ops)
  case Nil
  then have "(fl_flights st)(0 := Draining ops') = fl_flights st" "wb' = fl_buffer st"
    by (auto simp: fun_eq_iff)
  then show ?case by simp
next
  case (Cons k ks)
  obtain wb1 ops1 where r: "retain_entry fp k (fl_buffer st, ops) = (wb1, ops1)"
    by (cases "retain_entry fp k (fl_buffer st, ops)")
  let ?st = "st\<lparr>fl_buffer := wb1, fl_flights := (fl_flights st)(0 := Draining ops1)\<rparr>"
  have "flow_step pipe expire fp (Visit 0 k) st = Some ?st"
    using Cons.prems by (simp add: r)
  moreover have "set ks \<inter> fst ` set ops1 = {}"
    using retain_entry_keys [OF r] Cons.prems(1,2) by auto
  ultimately show ?case
    using Cons.IH [of ops1 ?st] Cons.prems(1,4) by (simp add: r cong: if_cong)
qed

lemma requeues_run:
  assumes "fl_flights st 0 = Requeueing ops"
  shows "flow_run pipe expire fp (replicate (Suc (length ops)) (Requeue 0)) st =
    Some (st\<lparr>fl_buffer := requeue_failed ops (fl_buffer st), fl_flights := (fl_flights st)(0 := Idle)\<rparr>)"
  using assms
proof (induction ops arbitrary: st)
  case Nil
  then show ?case by (simp add: requeue_failed_def fun_upd_def)
next
  case (Cons op ops)
  then show ?case
    using Cons.IH [of "st\<lparr>fl_buffer := requeue_op op (fl_buffer st),
        fl_flights := (fl_flights st)(0 := Requeueing ops)\<rparr>"]
    by (simp add: requeue_failed_def fun_upd_def cong: if_cong)
qed

lemma flush_is_run:
  assumes idle: "fl_flights st 0 = Idle" and wf: "ops_wf (pending (fl_buffer st))"
    and flush: "flow_flush pipe expire kp fp now st = (r, st')"
  shows "\<exists>ls. list_all one_flusher ls \<and> flow_run pipe expire fp ls st = Some st'"
proof -
  let ?ks = "sort_key kp (map fst (pending (fl_buffer st)))"
  obtain wb ops where d: "drain_pending kp fp (fl_buffer st) = (wb, ops)"
    by (cases "drain_pending kp fp (fl_buffer st)")
  let ?st1 = "st\<lparr>fl_buffer := wb, fl_flights := (fl_flights st)(0 := Draining ops)\<rparr>"
  have again: "(fl_flights st)(0 := Idle) = fl_flights st"
    using idle by auto
  have drain: "flow_run pipe expire fp (Begin 0 # map (Visit 0) ?ks) st = Some ?st1"
    using visits_run [of ?ks "[]" "st\<lparr>fl_flights := (fl_flights st)(0 := Draining [])\<rparr>" fp wb ops pipe expire]
      wf d idle by (simp add: drain_pending_def ops_wf_def)
  show ?thesis
  proof (cases "ops = []")
    case True
    have "flow_run pipe expire fp ((Begin 0 # map (Visit 0) ?ks) @ [Send 0]) st = Some st'"
      using flush d True again by (simp only: flow_run_append [OF drain]) (auto simp: flow_flush_def flush_def intro!: flow.equality)
    moreover have "list_all one_flusher ((Begin 0 # map (Visit 0) ?ks) @ [Send 0])"
      by (simp add: list_all_iff)
    ultimately show ?thesis by blast
  next
    case False
    obtain res db where p: "pipe ops (fl_db st) = (res, db)" by (cases "pipe ops (fl_db st)")
    let ?ls = "(Begin 0 # map (Visit 0) ?ks) @ Send 0 # Reply 0 now #
      (case res of Inl _ \<Rightarrow> replicate (Suc (length ops)) (Requeue 0) | Inr _ \<Rightarrow> [])"
    have "list_all one_flusher ?ls"
      by (auto simp: list_all_iff split: sum.splits)
    moreover have "flow_run pipe expire fp ?ls st = Some st'"
    proof (cases res)
      case (Inl e)
      let ?st2 = "st\<lparr>fl_buffer := wb, fl_db := db, fl_flights := (fl_flights st)(0 := Requeueing ops)\<rparr>"
      have "flow_run pipe expire fp ?ls st = flow_run pipe expire fp (replicate (Suc (length ops)) (Requeue 0)) ?st2"
        by (simp only: flow_run_append [OF drain]) (simp add: False p Inl del: replicate_Suc)
      also have "\<dots> = Some st'"
        using flush d False again p Inl by (subst requeues_run) (auto simp: flow_flush_def flush_def intro!: flow.equality)
      finally show ?thesis .
    next
      case (Inr u)
      then show ?thesis
        using flush d False again p
        by (simp only: flow_run_append [OF drain])
          (auto simp: flow_flush_def flush_def case_prod_beta intro!: flow.equality)
    qed
    ultimately show ?thesis by blast
  qed
qed

section \<open>A whole flush\<close>

lemma delete_fields_sum:
  assumes "distinct (map fst m)" "map_of m k = Some h"
  shows "sum_list (map (\<lambda>e. length (snd e)) m) =
    length h + sum_list (map (\<lambda>e. length (snd e)) (AList.delete k m))"
  using assms
proof (induction m)
  case (Cons e m)
  then show ?case
    by (cases e) (auto simp: split: if_splits)
qed simp

lemma drain_effect:
  assumes "fold (retain_entry fp) ks (wb, ops) = (wb', ops')" "ops_wf (pending wb)"
  shows "pending wb' = filter (\<lambda>e. fst e \<notin> set ks) (pending wb) \<and> wb_config wb' = wb_config wb \<and>
    field_count ops' + pending_fields wb' = field_count ops + pending_fields wb"
  using assms
proof (induction ks arbitrary: wb ops)
  case (Cons k ks)
  obtain wb1 ops1 where r: "retain_entry fp k (wb, ops) = (wb1, ops1)"
    by (cases "retain_entry fp k (wb, ops)")
  have d: "distinct (map fst (pending wb))"
    using Cons.prems(2) by (simp add: ops_wf_def)
  have one: "pending wb1 = filter (\<lambda>e. fst e \<noteq> k) (pending wb) \<and> wb_config wb1 = wb_config wb \<and>
      field_count ops1 + pending_fields wb1 = field_count ops + pending_fields wb"
  proof (cases "map_of (pending wb) k")
    case None
    then have "k \<notin> fst ` set (pending wb)" by (simp add: map_of_eq_None_iff)
    then have "filter (\<lambda>e. fst e \<noteq> k) (pending wb) = pending wb" by (auto simp: filter_id_conv)
    with r None show ?thesis by (simp add: retain_entry_def)
  next
    case (Some h)
    have "AList.delete k (pending wb) = filter (\<lambda>e. fst e \<noteq> k) (pending wb)"
      by (auto simp: AList.delete_eq intro: filter_cong)
    with r Some delete_fields_sum [OF d Some] show ?thesis
      by (auto simp: retain_entry_def field_count_def pending_fields_def)
  qed
  have "ops_wf (pending wb1)"
    using Cons.prems(2) one by (auto simp: ops_wf_def distinct_map_filter)
  with Cons.IH [of wb1 ops1] Cons.prems(1) one show ?case
    by (auto simp: r filter_filter conj_commute)
qed simp

lemma drain_pending_all:
  assumes "ops_wf (pending wb)" "drain_pending kp fp wb = (wb', ops)"
  shows "pending wb' = [] \<and> wb_config wb' = wb_config wb \<and> field_count ops = pending_fields wb"
proof -
  have "pending wb' = filter (\<lambda>e. fst e \<notin> set (sort_key kp (map fst (pending wb)))) (pending wb) \<and>
      wb_config wb' = wb_config wb \<and> field_count ops + pending_fields wb' = field_count [] + pending_fields wb"
    using assms(2) unfolding drain_pending_def by (rule drain_effect [OF _ assms(1)])
  moreover have "filter (\<lambda>e. fst e \<notin> set (sort_key kp (map fst (pending wb)))) (pending wb) = []"
    by (auto simp: filter_empty_conv)
  ultimately show ?thesis by (auto simp: field_count_def pending_fields_def)
qed

lemma flow_flush_success:
  assumes "ops_wf (pending (fl_buffer st))" "key_ttl_seconds (wb_config (fl_buffer st)) = None"
    and "flow_flush pipe expire kp fp now st = (Inr n, st')"
  shows "pending (fl_buffer st') = [] \<and> n = pending_fields (fl_buffer st)"
proof -
  obtain wb ops where d: "drain_pending kp fp (fl_buffer st) = (wb, ops)"
    by (cases "drain_pending kp fp (fl_buffer st)")
  note e = drain_pending_all [OF assms(1) d]
  show ?thesis
  proof (cases "ops = []")
    case True
    then show ?thesis
      using assms(3) d e by (auto simp: flow_flush_def flush_def field_count_def)
  next
    case False
    obtain r db where p: "pipe ops (fl_db st) = (r, db)" by (cases "pipe ops (fl_db st)")
    have "key_ttl_seconds (wb_config wb) = None" using e assms(2) by simp
    from flush_sent_no_ttl(1) [OF this, of expire now ops db] show ?thesis
      using assms(3) d e p False
      by (cases r) (auto simp: flow_flush_def flush_def case_prod_beta)
  qed
qed

lemma flow_flush_flights: "flow_flush pipe expire kp fp now st = (r, st') \<Longrightarrow> fl_flights st' = fl_flights st"
  by (auto simp: flow_flush_def case_prod_beta)

lemma flow_write_flights [simp]: "fl_flights (flow_write w st) = fl_flights st"
  by (simp add: flow_write_def case_prod_beta)

lemma fold_flow_write:
  "flow_inv hget base st \<Longrightarrow> flow_inv hget base (fold flow_write ws st) \<and>
     fl_flights (fold flow_write ws st) = fl_flights st"
  by (induction ws arbitrary: st) (simp_all add: flow_inv_write)

lemma count_flush_error_inv:
  "flow_inv hget base st \<Longrightarrow> flow_inv hget base (count_flush_error (r, st)) \<and>
     fl_flights (count_flush_error (r, st)) = fl_flights st"
  by (auto simp: count_flush_error_def flow_inv_def current_value_def split: sum.splits)

lemma notified_inv:
  "flow_inv hget base st \<Longrightarrow> flow_inv hget base (st\<lparr>fl_buffer := (fl_buffer st)\<lparr>flush_notify := b\<rparr>\<rparr>)"
  by (auto simp: flow_inv_def current_value_def)

context hash_backend begin

lemma flow_flush_inv:
  assumes "flow_inv hget base st" "fl_flights st 0 = Idle"
    and "flow_flush pipe expire kp fp now st = (r, st')"
  shows "flow_inv hget base st' \<and> fl_flights st' = fl_flights st \<and>
    (\<forall>n. r = Inr n \<longrightarrow> pending (fl_buffer st') = [])"
proof -
  have wf: "ops_wf (pending (fl_buffer st))" "key_ttl_seconds (wb_config (fl_buffer st)) = None"
    using assms(1) by (simp_all add: flow_inv_def)
  obtain ls where "list_all one_flusher ls" "flow_run pipe expire fp ls st = Some st'"
    using flush_is_run [OF assms(2) wf(1) assms(3)] by blast
  then have "flow_inv hget base st'"
    using flow_inv_run [OF assms(1)] by blast
  then show ?thesis
    using flow_flush_flights [OF assms(3)] flow_flush_success [OF wf] assms(3) by auto
qed

lemma flush_loop_inv:
  assumes "flow_inv hget base st" "fl_flights st 0 = Idle"
    and "flush_loop_with_shutdown pipe expire kp fp evs st = (res, st')"
  shows "flow_inv hget base st' \<and> fl_flights st' 0 = Idle \<and>
    (\<forall>n. res = Some (Inr n) \<longrightarrow> pending (fl_buffer st') = [])"
  using assms
proof (induction evs arbitrary: st)
  case (Cons ev evs)
  obtain ws wk now where ev: "ev = (ws, wk, now)" by (cases ev)
  let ?st1 = "fold flow_write ws st"
  let ?st2 = "if wk = Notified then ?st1\<lparr>fl_buffer := (fl_buffer ?st1)\<lparr>flush_notify := False\<rparr>\<rparr> else ?st1"
  have inv: "flow_inv hget base ?st2" "fl_flights ?st2 0 = Idle"
    using fold_flow_write [OF Cons.prems(1)] Cons.prems(2) by (auto simp: notified_inv)
  obtain r st3 where f: "flow_flush pipe expire kp fp now ?st2 = (r, st3)"
    by (cases "flow_flush pipe expire kp fp now ?st2")
  note fi = flow_flush_inv [OF inv f]
  have ce: "flow_inv hget base (count_flush_error (r, st3))" "fl_flights (count_flush_error (r, st3)) 0 = Idle"
    using fi inv(2) count_flush_error_inv [of hget base st3 r] by simp_all
  show ?case
  proof (cases wk)
    case Shutdown
    then show ?thesis using Cons.prems(3) f fi inv by (auto simp: ev)
  qed (use Cons.IH [OF ce] Cons.prems(3) f in \<open>auto simp: ev\<close>)
qed simp

end

section \<open>Growth while the backend is down\<close>

definition keys_of :: "write_buffer \<Rightarrow> string set" where
  "keys_of wb = fst ` set (pending wb)"

text \<open>An idle flusher, a well-formed buffer without empty entries.\<close>

definition calm :: "write_buffer_config \<Rightarrow> string set \<Rightarrow> 'db flow \<Rightarrow> bool" where
  "calm cfg ks st \<longleftrightarrow>
     fl_flights st 0 = Idle \<and> wb_config (fl_buffer st) = cfg \<and> ops_wf (pending (fl_buffer st)) \<and>
     (\<forall>h \<in> snd ` set (pending (fl_buffer st)). h \<noteq> []) \<and> keys_of (fl_buffer st) = ks"

lemma drain_keys:
  assumes "fold (retain_entry fp) ks (wb, ops) = (wb', ops')" "\<forall>h \<in> snd ` set (pending wb). h \<noteq> []"
  shows "fst ` set ops' = fst ` set ops \<union> set ks \<inter> keys_of wb \<and>
    ((\<forall>h \<in> snd ` set ops. h \<noteq> []) \<longrightarrow> (\<forall>h \<in> snd ` set ops'. h \<noteq> []))"
  using assms
proof (induction ks arbitrary: wb ops)
  case (Cons k ks)
  obtain wb1 ops1 where r: "retain_entry fp k (wb, ops) = (wb1, ops1)"
    by (cases "retain_entry fp k (wb, ops)")
  show ?case
  proof (cases "map_of (pending wb) k")
    case None
    then have "k \<notin> keys_of wb" by (simp add: keys_of_def map_of_eq_None_iff)
    with None r Cons.IH [of wb ops] Cons.prems show ?thesis
      by (auto simp: retain_entry_def)
  next
    case (Some h)
    then have kh: "(k, h) \<in> set (pending wb)" by (rule map_of_SomeD)
    then have h: "h \<noteq> []" using Cons.prems(2) by force
    have sub: "set (AList.delete k (pending wb)) = {e \<in> set (pending wb). fst e \<noteq> k}"
      by (auto simp: AList.delete_eq)
    have wb1: "wb1 = wb\<lparr>pending := AList.delete k (pending wb)\<rparr>"
      and ops1: "ops1 = ops @ [(k, sort_key (\<lambda>fv. fp (fst fv)) h)]"
      using r Some h by (simp_all add: retain_entry_def)
    have ne: "sort_key (\<lambda>fv. fp (fst fv)) h \<noteq> []"
      using h by (metis length_sort length_0_conv)
    have "fold (retain_entry fp) ks (wb1, ops1) = (wb', ops')" "\<forall>h \<in> snd ` set (pending wb1). h \<noteq> []"
      using Cons.prems r by (auto simp: wb1 sub)
    from Cons.IH [OF this] have ih: "fst ` set ops' = insert k (fst ` set ops) \<union> set ks \<inter> keys_of wb1"
      "(\<forall>h \<in> snd ` set ops1. h \<noteq> []) \<longrightarrow> (\<forall>h \<in> snd ` set ops'. h \<noteq> [])"
      by (auto simp: ops1)
    have "keys_of wb1 = keys_of wb - {k}" "k \<in> keys_of wb"
      using kh by (auto simp: keys_of_def wb1 sub image_iff) force
    then show ?thesis using ih ne by (auto simp: ops1)
  qed
qed simp

lemma requeue_keys:
  assumes "\<forall>h \<in> snd ` set (pending wb). h \<noteq> []" "\<forall>h \<in> snd ` set ops. h \<noteq> []" "ops_wf (pending wb)"
  shows "keys_of (requeue_failed ops wb) = keys_of wb \<union> fst ` set ops \<and>
    (\<forall>h \<in> snd ` set (pending (requeue_failed ops wb)). h \<noteq> []) \<and>
    ops_wf (pending (requeue_failed ops wb)) \<and> wb_config (requeue_failed ops wb) = wb_config wb"
  using assms
proof (induction ops arbitrary: wb)
  case Nil
  then show ?case by (simp add: requeue_failed_def)
next
  case (Cons op ops)
  have "snd op \<noteq> []" using Cons.prems(2) by simp
  then obtain fv fvs where "snd op = fv # fvs" by (meson list.exhaust)
  then have "map_of (fold or_insert (snd op) (entry_or_default (fst op) (pending wb))) (fst fv) \<noteq> None"
    by (cases fv) (simp add: fold_or_insert_get or_insert_get first_some_def split: option.splits)
  then have ne: "fold or_insert (snd op) (entry_or_default (fst op) (pending wb)) \<noteq> []" by auto
  have full: "\<forall>h \<in> snd ` set (pending (requeue_op op wb)). h \<noteq> []"
    using update_entries [where P = "\<lambda>h. h \<noteq> []", OF Cons.prems(1) ne] by (simp add: requeue_op_def)
  have rest: "\<forall>h \<in> snd ` set ops. h \<noteq> []"
    using Cons.prems(2) by simp
  have keys: "keys_of (requeue_op op wb) = insert (fst op) (keys_of wb)"
    by (simp add: requeue_op_def keys_of_def dom_update)
  have split: "requeue_failed (op # ops) wb = requeue_failed ops (requeue_op op wb)"
    by (simp add: requeue_failed_def)
  show ?case
    using Cons.IH [OF full rest requeue_op_effect(2) [OF Cons.prems(3)]] keys
    by (auto simp: split requeue_op_effect(1))
qed

lemma write_new_key:
  assumes "0 < max_pending_keys (wb_config wb)" "pending wb = []"
  shows "\<exists>wb'. buffer_hash_set k f v wb = (Inr (), wb') \<and> pending wb' = [(k, [(f, v)])] \<and> wb_config wb' = wb_config wb"
  using assms by (simp add: buffer_hash_set_def overflows_def entry_or_default_def)

lemma failing_flush_grows:
  assumes calm: "calm cfg ks st" and room: "0 < max_pending_keys cfg"
    and down: "\<forall>ops db. isl (fst (pipe ops db))"
  shows "\<exists>ls st'. list_all one_flusher ls \<and> flow_run pipe expire fp ls st = Some st' \<and> calm cfg (insert k ks) st'"
proof -
  let ?ks = "map fst (pending (fl_buffer st))"
  obtain wb ops where d: "fold (retain_entry fp) ?ks (fl_buffer st, []) = (wb, ops)"
    by (cases "fold (retain_entry fp) ?ks (fl_buffer st, [])")
  have c: "fl_flights st 0 = Idle" "wb_config (fl_buffer st) = cfg" "ops_wf (pending (fl_buffer st))"
      "\<forall>h \<in> snd ` set (pending (fl_buffer st)). h \<noteq> []" "keys_of (fl_buffer st) = ks"
    using calm by (simp_all add: calm_def)
  have keys: "fst ` set ops = ks" "\<forall>h \<in> snd ` set ops. h \<noteq> []"
    using drain_keys [OF d c(4)] c(5) by (auto simp: keys_of_def)
  have wb: "pending wb = []" "wb_config wb = cfg"
    using drain_effect [OF d c(3)] c(2) by (auto simp: filter_empty_conv)
  obtain wb1 where w: "buffer_hash_set k k k wb = (Inr (), wb1)" "pending wb1 = [(k, [(k, k)])]"
      "wb_config wb1 = cfg"
    using write_new_key [of wb k k k] wb room by auto
  define full where "full = requeue_failed ops wb1"
  have full: "keys_of full = insert k ks" "\<forall>h \<in> snd ` set (pending full). h \<noteq> []" "ops_wf (pending full)"
      "wb_config full = cfg"
    using requeue_keys [of wb1 ops] keys w(2,3) by (auto simp: full_def keys_of_def ops_wf_def)
  obtain e db where p: "pipe ops (fl_db st) = (Inl e, db)"
    using down by (cases "pipe ops (fl_db st)") (metis fst_conv isl_def)
  let ?pre = "Begin 0 # map (Visit 0) ?ks"
  let ?st1 = "st\<lparr>fl_buffer := wb, fl_flights := (fl_flights st)(0 := Draining ops)\<rparr>"
  have drain: "flow_run pipe expire fp ?pre st = Some ?st1"
    using visits_run [of ?ks "[]" "st\<lparr>fl_flights := (fl_flights st)(0 := Draining [])\<rparr>" fp wb ops pipe expire]
      c(1,3) d by (simp add: ops_wf_def)
  let ?acc = "fl_accepted st @ [(k, k, k)]"
  let ?post = "if ops = [] then [Send 0, Write (Hash_Set k k k)]
    else Send 0 # Write (Hash_Set k k k) # Reply 0 0 # replicate (Suc (length ops)) (Requeue 0)"
  have "\<exists>st'. flow_run pipe expire fp ?post ?st1 = Some st' \<and> fl_buffer st' = full \<and> fl_flights st' 0 = Idle"
  proof (cases "ops = []")
    case True
    then show ?thesis by (simp add: flow_write_def w(1) full_def requeue_failed_def)
  next
    case False
    let ?st2 = "?st1\<lparr>fl_buffer := wb1, fl_accepted := ?acc, fl_db := db,
      fl_flights := (fl_flights st)(0 := Requeueing ops)\<rparr>"
    have "flow_run pipe expire fp ?post ?st1 = flow_run pipe expire fp (replicate (Suc (length ops)) (Requeue 0)) ?st2"
      by (simp add: False flow_write_def w(1) p del: replicate_Suc)
    then show ?thesis
      using requeues_run [of ?st2 ops pipe expire fp] by (simp add: full_def del: replicate_Suc)
  qed
  then obtain st' where "flow_run pipe expire fp (?pre @ ?post) st = Some st'" "calm cfg (insert k ks) st'"
    using flow_run_append [OF drain] full by (auto simp: calm_def)
  moreover have "list_all one_flusher (?pre @ ?post)"
    by (simp add: list_all_iff)
  ultimately show ?thesis by blast
qed

lemma calm_keys: "calm cfg ks st \<Longrightarrow> pending_keys (fl_buffer st) = card ks"
  using distinct_card [of "map fst (pending (fl_buffer st))"]
  by (auto simp: calm_def pending_keys_def keys_of_def ops_wf_def)

section \<open>Values through a whole flush\<close>

lemma drain_values:
  assumes "fold (retain_entry fp) ks (wb, ops) = (wb', ops')" "ops_wf (pending wb)" "ops_wf ops"
    "distinct ks" "set ks \<inter> fst ` set ops = {}"
  shows "ops_wf ops' \<and> first_some (written (pending wb') k f) (written ops' k f) =
    first_some (written (pending wb) k f) (written ops k f)"
  using assms
proof (induction ks arbitrary: wb ops)
  case (Cons key ks)
  obtain wb1 ops1 where r: "retain_entry fp key (wb, ops) = (wb1, ops1)"
    by (cases "retain_entry fp key (wb, ops)")
  have "key \<notin> fst ` set ops" using Cons.prems(5) by auto
  note e = retain_entry_effect [OF r Cons.prems(2,3) this, of k f]
  have "set ks \<inter> fst ` set ops1 = {}"
    using retain_entry_keys [OF r] Cons.prems(4,5) by auto
  then show ?case
    using Cons.IH [of wb1 ops1] Cons.prems(1,4) e by (simp add: r)
qed simp

lemma requeue_values:
  assumes "ops_wf ops"
  shows "written (pending (requeue_failed ops wb)) k f = first_some (written (pending wb) k f) (written ops k f)"
  using assms
proof (induction ops arbitrary: wb)
  case (Cons op ops)
  have wf: "ops_wf ops" "fst op \<notin> fst ` set ops"
    using ops_wf_tl [OF Cons.prems] by simp_all
  have "requeue_failed (op # ops) wb = requeue_failed ops (requeue_op op wb)"
    by (simp add: requeue_failed_def)
  then show ?case
    using Cons.IH [OF wf(1), of "requeue_op op wb"] wf(2)
    by (auto simp: requeue_op_effect(3) first_some_assoc written_absent)
qed (simp add: requeue_failed_def)

context hash_backend begin

text \<open>A flush leaves alone a field that is not pending.\<close>

lemma flush_other_field:
  assumes "ops_wf (pending wb)" "key_ttl_seconds (wb_config wb) = None" "written (pending wb) k f = None"
    and "flush pipe expire kp fp now wb db = (r, wb', db')"
  shows "written (pending wb') k f = None \<and> hget k f db' = hget k f db"
proof -
  obtain wb1 ops where d: "drain_pending kp fp wb = (wb1, ops)" by (cases "drain_pending kp fp wb")
  have e: "pending wb1 = []" "wb_config wb1 = wb_config wb"
    using drain_pending_all [OF assms(1) d] by simp_all
  have v: "ops_wf ops" "written ops k f = None"
    using drain_values [OF d [unfolded drain_pending_def] assms(1), of k f] assms(1,3) e
    by (simp_all add: ops_wf_def)
  obtain res db1 where p: "pipe ops db = (res, db1)" by (cases "pipe ops db")
  show ?thesis
  proof (cases res)
    case (Inl x)
    have "hget k f db1 = hget k f db"
      using pipe_failed [OF v(1) p [unfolded Inl], of k f] v(2) by simp
    moreover have "written (pending (requeue_failed ops wb1)) k f = None"
      using requeue_values [OF v(1), of wb1 k f] v(2) e(1) by simp
    ultimately show ?thesis
      using assms(4) d p Inl e by (auto simp: flush_def split: if_splits)
  next
    case (Inr x)
    have "hget k f db1 = hget k f db"
      using pipe_ok [OF v(1) p [unfolded Inr], of k f] v(2) by simp
    moreover have "key_ttl_seconds (wb_config wb1) = None" using assms(2) e(2) by simp
    note flush_sent_no_ttl [OF this, of expire now ops db1]
    ultimately show ?thesis
      using assms(4) d p Inr e by (auto simp: flush_def case_prod_beta prod_eq_iff split: if_splits)
  qed
qed

end

section \<open>A backend that fails on demand\<close>

text \<open>
  The in-memory database behind a connection that breaks: for every pipeline, in turn, whether it
  fails, after the first of its writes.
\<close>

definition flaky_pipe :: "hash_mset_ops \<Rightarrow> memory_rtdb \<times> bool list \<Rightarrow> (string + unit) \<times> memory_rtdb \<times> bool list" where
  "flaky_pipe ops s =
     (case snd s of
        True # faults \<Rightarrow> (Inl ''connection lost'', fold mset_op (take 1 ops) (fst s), faults)
      | faults \<Rightarrow> (Inr (), fold mset_op ops (fst s), tl faults))"

definition flaky_get :: "string \<Rightarrow> string \<Rightarrow> memory_rtdb \<times> bool list \<Rightarrow> string option" where
  "flaky_get k f s = mem_hash_get k f (fst s)"

definition no_expire :: "string \<Rightarrow> i64 \<Rightarrow> 'db \<Rightarrow> 'db" where
  "no_expire k ttl db = db"

lemma written_take: "ops_wf ops \<Longrightarrow> written (take 1 ops) k f = None \<or> written (take 1 ops) k f = written ops k f"
  by (cases ops) auto

interpretation fk: hash_backend flaky_pipe flaky_get
proof
  fix ops db db' k f and u :: unit
  assume "ops_wf ops" "flaky_pipe ops db = (Inr u, db')"
  then show "flaky_get k f db' = (case written ops k f of Some v \<Rightarrow> Some v | None \<Rightarrow> flaky_get k f db)"
    unfolding flaky_get_def by (auto simp: flaky_pipe_def fold_mset_op split: list.splits bool.splits)
next
  fix ops db db' k f e
  assume wf: "ops_wf ops" and "flaky_pipe ops db = (Inl e, db')"
  then have "fst db' = fold mset_op (take 1 ops) (fst db)"
    by (auto simp: flaky_pipe_def split: list.splits bool.splits)
  moreover have "ops_wf (take 1 ops)"
    using wf by (cases ops) (auto simp: ops_wf_def)
  ultimately have "flaky_get k f db' =
      (case written (take 1 ops) k f of Some v \<Rightarrow> Some v | None \<Rightarrow> flaky_get k f db)"
    unfolding flaky_get_def by (simp add: fold_mset_op)
  then show "flaky_get k f db' = flaky_get k f db \<or> written ops k f \<noteq> None \<and> flaky_get k f db' = written ops k f"
    using written_take [OF wf, of k f] by (auto split: option.splits)
qed

section \<open>Properties\<close>

text \<open>C5. No accepted write is lost and none is overtaken.  Take any interleaving of writers with one
  flusher: single-field and multi-field writes may fall between any two steps of a flush, pipelines may
  fail after writing some of their fields, and failed fields are put back while new writes arrive.  At
  every moment, for every field of every key, the value found first among the pending fields, the
  fields in flight and the database is the value of the last accepted write, or the initial one if no
  write was accepted.  This holds for every backend that keeps the contract of a pipeline.
\<close>

theorem buffered_writes_never_lost:
  assumes "hash_backend pipe hget" and "key_ttl_seconds cfg = None"
    and "list_all one_flusher ls" and "flow_run pipe expire fp ls (flow_start cfg db) = Some st"
  shows "current_value hget st k f = first_some (newest_of (fl_accepted st) k f) (hget k f db)"
  using hash_backend.flow_inv_run [OF assms(1) flow_inv_start [OF assms(2)] assms(3,4)]
  by (simp add: flow_inv_def)


text \<open>C34. The shutdown path for a flush task that does not stop in time loses data.  It flushes what is
  pending and cancels the task, but the fields the task has already drained are neither pending nor, as
  long as its pipeline was not executed, stored: after the path such a field, whose write was accepted,
  is in no place, whether the extra flush succeeds or not.
\<close>

theorem shutdown_timeout_loses_in_flight:
  assumes "hash_backend pipe hget" and "ops_wf (pending (fl_buffer st))"
    and "key_ttl_seconds (wb_config (fl_buffer st)) = None"
    and "fl_flights st 0 = Sending ops" and "written ops k f = Some v"
    and "written (pending (fl_buffer st)) k f = None" and "hget k f (fl_db st) \<noteq> Some v"
  shows "current_value hget st k f = Some v \<and>
    current_value hget (shutdown_timed_out pipe expire kp fp now st) k f = hget k f (fl_db st) \<and>
    current_value hget (shutdown_timed_out pipe expire kp fp now st) k f \<noteq> Some v"
proof -
  obtain r wb db where f: "flush pipe expire kp fp now (fl_buffer st) (fl_db st) = (r, wb, db)"
    by (cases "flush pipe expire kp fp now (fl_buffer st) (fl_db st)")
  from hash_backend.flush_other_field [OF assms(1,2,3,6) f] show ?thesis
    using assms(4-7) f by (simp add: current_value_def shutdown_timed_out_def flush_now_def)
qed

text \<open>C33. \<open>max_pending_keys\<close> is no bound on the buffer.  While the backend refuses every pipeline, writers
  and one flusher can fill the buffer with any number of keys: the drained keys do not count as
  pending during a flush, new keys are accepted meanwhile, and the failed ones come back on top.
\<close>

theorem pending_keys_unbounded:
  assumes "0 < max_pending_keys cfg" and "\<forall>ops db. isl (fst (pipe ops db))"
  shows "\<exists>ls st. list_all one_flusher ls \<and> flow_run pipe expire fp ls (flow_start cfg db) = Some st \<and>
    fl_flights st 0 = Idle \<and> pending_keys (fl_buffer st) = n"
proof -
  have "\<exists>ls st. list_all one_flusher ls \<and> flow_run pipe expire fp ls (flow_start cfg db) = Some st \<and>
      calm cfg (nat_digits ` {..<n}) st"
  proof (induction n)
    case 0
    have "calm cfg {} (flow_start cfg db)"
      by (simp add: calm_def flow_start_def wb_new_def keys_of_def)
    then show ?case by (intro exI [of _ "[]"]) simp
  next
    case (Suc n)
    then obtain ls st where 1: "list_all one_flusher ls" "flow_run pipe expire fp ls (flow_start cfg db) = Some st"
      and calm: "calm cfg (nat_digits ` {..<n}) st" by blast
    from failing_flush_grows [OF calm assms, of expire fp "nat_digits n"]
    obtain ls' st' where 2: "list_all one_flusher ls'" "flow_run pipe expire fp ls' st = Some st'"
      "calm cfg (insert (nat_digits n) (nat_digits ` {..<n})) st'" by blast
    have "flow_run pipe expire fp (ls @ ls') (flow_start cfg db) = Some st'"
      using flow_run_append [OF 1(2)] 2(2) by simp
    moreover have "list_all one_flusher (ls @ ls')"
      using 1(1) 2(1) by simp
    moreover have "insert (nat_digits n) (nat_digits ` {..<n}) = nat_digits ` {..<Suc n}"
      by (simp add: lessThan_Suc)
    ultimately show ?case using 2(3) by metis
  qed
  then obtain ls st where "list_all one_flusher ls" "flow_run pipe expire fp ls (flow_start cfg db) = Some st"
    "calm cfg (nat_digits ` {..<n}) st" by blast
  moreover have "card (nat_digits ` {..<n}) = n"
    by (simp add: card_image inj_on_def)
  ultimately show ?thesis
    using calm_keys [of cfg "nat_digits ` {..<n}" st] by (intro exI [of _ ls] exI [of _ st]) (simp add: calm_def)
qed

subsection \<open>Witnesses\<close>

definition demo_buffer_config :: write_buffer_config where
  "demo_buffer_config = \<lparr>flush_interval_ms = 20, max_fields_per_key = 3, max_pending_keys = 2, key_ttl_seconds = None\<rparr>"

text \<open>A write overtakes a flush whose pipeline fails.\<close>

definition demo_labels :: "flow_label list" where
  "demo_labels =
     [Write (Hash_Set ''k'' ''f'' ''1''), Begin 0, Visit 0 ''k'', Send 0, Write (Hash_Set ''k'' ''f'' ''2''),
      Reply 0 0, Requeue 0, Requeue 0]"

definition demo_flow :: "(memory_rtdb \<times> bool list) flow" where
  "demo_flow = the (flow_run flaky_pipe no_expire (\<lambda>_. 0) demo_labels (flow_start demo_buffer_config (mem_new, [True])))"

lemma demo_flow_run:
  "flow_run flaky_pipe no_expire (\<lambda>_. 0) demo_labels (flow_start demo_buffer_config (mem_new, [True])) = Some demo_flow"
proof -
  have "flow_run flaky_pipe no_expire (\<lambda>_. 0) demo_labels (flow_start demo_buffer_config (mem_new, [True])) \<noteq> None"
    by code_simp
  then show ?thesis by (auto simp: demo_flow_def)
qed

theorem buffered_writes_never_lost_witness:
  "current_value flaky_get demo_flow ''k'' ''f'' = Some ''2'' \<and> flaky_get ''k'' ''f'' (fl_db demo_flow) = Some ''1''"
proof -
  have "list_all one_flusher demo_labels" "newest_of (fl_accepted demo_flow) ''k'' ''f'' = Some ''2''"
    "flaky_get ''k'' ''f'' (fl_db demo_flow) = Some ''1''"
    by code_simp+
  then show ?thesis
    using buffered_writes_never_lost [OF fk.hash_backend_axioms _ _ demo_flow_run, of "''k''" "''f''"]
    by (simp add: demo_buffer_config_def)
qed

text \<open>The first flush fails and the final one succeeds.\<close>

definition demo_events :: "(buffered_write list \<times> wake \<times> u64) list" where
  "demo_events =
     [([Hash_Set ''k'' ''f'' ''1'', Hash_Mset ''m'' [(''a'', ''x''), (''b'', ''y'')]], Timer, 0),
      ([Hash_Set ''k'' ''f'' ''2''], Shutdown, 1)]"

definition demo_stopped :: "(memory_rtdb \<times> bool list) flow" where
  "demo_stopped =
     snd (flush_loop_with_shutdown flaky_pipe no_expire (\<lambda>_. 0) (\<lambda>_. 0) demo_events
            (flow_start demo_buffer_config (mem_new, [True])))"

lemma demo_stopped_run:
  "flush_loop_with_shutdown flaky_pipe no_expire (\<lambda>_. 0) (\<lambda>_. 0) demo_events
     (flow_start demo_buffer_config (mem_new, [True])) = (Some (Inr 3), demo_stopped)"
proof -
  have "fst (flush_loop_with_shutdown flaky_pipe no_expire (\<lambda>_. 0) (\<lambda>_. 0) demo_events
      (flow_start demo_buffer_config (mem_new, [True]))) = Some (Inr 3)"
    by code_simp
  then show ?thesis by (simp add: prod_eq_iff demo_stopped_def)
qed


text \<open>A flush task stuck in its pipeline.\<close>

definition demo_stuck :: "memory_rtdb flow" where
  "demo_stuck =
     the (flow_run mem_pipeline_hash_mset no_expire (\<lambda>_. 0)
            [Write (Hash_Set ''k'' ''f'' ''1''), Begin 0, Visit 0 ''k'', Send 0] (flow_start demo_buffer_config mem_new))"

theorem shutdown_timeout_loses_in_flight_witness:
  "current_value mem_hash_get demo_stuck ''k'' ''f'' = Some ''1'' \<and>
   current_value mem_hash_get
     (shutdown_timed_out mem_pipeline_hash_mset no_expire (\<lambda>_. 0) (\<lambda>_. 0) 0 demo_stuck) ''k'' ''f'' = None"
proof -
  have facts: "pending (fl_buffer demo_stuck) = []"
    "key_ttl_seconds (wb_config (fl_buffer demo_stuck)) = None"
    "fl_flights demo_stuck 0 = Sending [(''k'', [(''f'', ''1'')])]"
    "mem_hash_get ''k'' ''f'' (fl_db demo_stuck) = None"
    by code_simp+
  then show ?thesis
    using shutdown_timeout_loses_in_flight [OF mb.hash_backend_axioms, of demo_stuck
        "[(''k'', [(''f'', ''1'')])]" "''k''" "''f''" "''1''" no_expire "\<lambda>_. 0" "\<lambda>_. 0" 0]
    by simp
qed

theorem pending_keys_unbounded_witness:
  "\<exists>ls st. flow_run (\<lambda>ops db. (Inl ''down'', db)) no_expire (\<lambda>_. 0) ls (flow_start demo_buffer_config mem_new) = Some st \<and>
     max_pending_keys demo_buffer_config = 2 \<and> pending_keys (fl_buffer st) = 100"
  using pending_keys_unbounded [of demo_buffer_config "\<lambda>ops db. (Inl ''down'', db)" no_expire "\<lambda>_. 0" mem_new 100]
  by (auto simp: demo_buffer_config_def)

text \<open>
  Two flushers on one buffer, which two concurrent calls of \<open>start_flush_task\<close> create (both find no
  task running before either stores its own): the first drains a value and its pipeline fails, the
  second meanwhile drains and stores a newer one, the first puts the older one back, and the next flush
  writes it over the newer one.
\<close>

lemma two_flushers_restore_stale_value:
  "map_option (\<lambda>st. (newest_of (fl_accepted st) ''k'' ''f'', flaky_get ''k'' ''f'' (fl_db st), pending (fl_buffer st)))
     (flow_run flaky_pipe no_expire (\<lambda>_. 0)
        [Write (Hash_Set ''k'' ''f'' ''1''), Begin 0, Visit 0 ''k'', Send 0, Reply 0 0,
         Write (Hash_Set ''k'' ''f'' ''2''), Begin 1, Visit 1 ''k'', Send 1, Reply 1 0,
         Requeue 0, Requeue 0, Begin 1, Visit 1 ''k'', Send 1, Reply 1 0]
        (flow_start demo_buffer_config (mem_new, [True])))
   = Some (Some ''2'', Some ''1'', [])"
  by code_simp

end
