(* ===== verification/Batch_Mirror.thy ===== *)
theory Batch_Mirror
  imports Batch_Rule Write_Buffer
begin

text \<open>
  Batches mirrored into hashes: the helpers of \<open>libs/voltage-rtdb/src/lib.rs\<close> and the two batch writers of
  \<open>libs/voltage-routing/src/batch.rs\<close>, \<open>write_channel_batch_buffered\<close> through the write buffer and
  \<open>write_channel_batch\<close> on the in-memory backend, which never fails.  Both write, for every update, its
  value, time stamp and raw value under the keys of its channel, and its value and time stamp under the
  keys of the instance point a C2M route leads to, and then follow the C2C routes.  The clock is read once
  for each batch, at or after the epoch (before it, \<open>write_channel_batch\<close> returns an error).
\<close>

section \<open>Helpers\<close>

type_synonym channel_sample = "u32 \<times> f64 \<times> f64"

text \<open>The three hashes of a channel.\<close>

definition channel_layers :: "num_format \<Rightarrow> string \<Rightarrow> channel_sample list \<Rightarrow> i64 \<Rightarrow> hash_mset_ops" where
  "channel_layers fmt key points ts =
     [(key, map (\<lambda>(p, v, raw). (get_point_id_str_or_alloc fmt p, f64_to_bytes fmt v)) points),
      (key @ '':ts'', map (\<lambda>(p, v, raw). (get_point_id_str_or_alloc fmt p, i64_to_bytes fmt ts)) points),
      (key @ '':raw'', map (\<lambda>(p, v, raw). (get_point_id_str_or_alloc fmt p, f64_to_bytes fmt raw)) points)]"

definition write_channel_points ::
  "(hash_mset_ops \<Rightarrow> 'db \<Rightarrow> (string + unit) \<times> 'db) \<Rightarrow> num_format \<Rightarrow> string \<Rightarrow> channel_sample list \<Rightarrow> i64 \<Rightarrow>
     'db \<Rightarrow> (string + usize) \<times> 'db"
where
  "write_channel_points pipe fmt key points ts db =
     (if points = [] then (Inr 0, db)
      else
        (case pipe (channel_layers fmt key points ts) db of
           (Inl e, db') \<Rightarrow> (Inl e, db')
         | (Inr _, db') \<Rightarrow> (Inr (length points), db')))"

definition write_channel_hash_only ::
  "(hash_mset_ops \<Rightarrow> 'db \<Rightarrow> (string + unit) \<times> 'db) \<Rightarrow> num_format \<Rightarrow> key_space_config \<Rightarrow> u32 \<Rightarrow> point_type \<Rightarrow>
     u32 \<Rightarrow> f64 \<Rightarrow> i64 \<Rightarrow> 'db \<Rightarrow> (string + unit) \<times> 'db"
where
  "write_channel_hash_only pipe fmt cfg channel pt p v ts db =
     (case write_channel_points pipe fmt (channel_key cfg channel pt) [(p, v, v)] ts db of
        (Inl e, db') \<Rightarrow> (Inl e, db')
      | (Inr _, db') \<Rightarrow> (Inr (), db'))"

text \<open>The writes of one list of hashes into the buffer, with the fields dropped.\<close>

fun buffer_ops :: "hash_mset_ops \<Rightarrow> write_buffer \<Rightarrow> usize \<times> write_buffer" where
  "buffer_ops [] wb = (0, wb)"
| "buffer_ops (op # ops) wb =
     (let (r, wb1) = buffer_hash_mset (fst op) (snd op) wb;
          (dropped, wb2) = buffer_ops ops wb1
      in ((case r of Inl e \<Rightarrow> ov_dropped_fields e | Inr _ \<Rightarrow> 0) + dropped, wb2))"

definition buffer_channel_points ::
  "num_format \<Rightarrow> string \<Rightarrow> channel_sample list \<Rightarrow> i64 \<Rightarrow> write_buffer \<Rightarrow> usize \<times> write_buffer"
where
  "buffer_channel_points fmt key points ts wb =
     (if points = [] then (0, wb)
      else
        (let (dropped, wb') = buffer_ops (channel_layers fmt key points ts) wb
         in ((length points * 3 - dropped) div 3, wb')))"

section \<open>Storing a group\<close>

text \<open>\<open>map.entry(key).or_default().push(x)\<close>.\<close>

fun push_grouped :: "'k \<Rightarrow> 'x \<Rightarrow> ('k \<times> 'x list) list \<Rightarrow> ('k \<times> 'x list) list" where
  "push_grouped k x [] = [(k, [x])]"
| "push_grouped k x ((k', xs) # m) = (if k' = k then (k', xs @ [x]) # m else (k', xs) # push_grouped k x m)"

definition c2m_of :: "routing_cache \<Rightarrow> group_key \<Rightarrow> channel_point_update \<Rightarrow> c2m_target option" where
  "c2m_of cache k u = lookup_c2m_by_parts cache (fst k) (snd k) (up_point_id u)"

text \<open>The fields for each instance, in the order of their first update: \<open>val u\<close> for every routed update.\<close>

definition instance_writes ::
  "num_format \<Rightarrow> routing_cache \<Rightarrow> group_key \<Rightarrow> (channel_point_update \<Rightarrow> string) \<Rightarrow> channel_point_update list \<Rightarrow>
     (u32 \<times> (string \<times> string) list) list"
where
  "instance_writes fmt cache k val us =
     fold (\<lambda>u m. case c2m_of cache k u of
             None \<Rightarrow> m
           | Some t \<Rightarrow>
               push_grouped (c2m_instance_id t) (get_point_id_str_or_alloc fmt (c2m_point_id t), val u) m)
       us []"

definition up_raw :: "channel_point_update \<Rightarrow> f64" where
  "up_raw u = (case up_raw_value u of Some r \<Rightarrow> r | None \<Rightarrow> up_value u)"

definition up_points :: "channel_point_update list \<Rightarrow> channel_sample list" where
  "up_points us = map (\<lambda>u. (up_point_id u, up_value u, up_raw u)) us"

text \<open>
  The hashes of the instances, values and time stamps, in the order \<open>iord\<close> the hash maps give.
\<close>

definition instance_values ::
  "num_format \<Rightarrow> routing_cache \<Rightarrow> (bool \<Rightarrow> group_key \<Rightarrow> u32 \<Rightarrow> nat) \<Rightarrow> group_key \<Rightarrow> channel_point_update list \<Rightarrow>
     hash_mset_ops"
where
  "instance_values fmt cache iord k us =
     map (\<lambda>(i, fvs). (instance_measurement_key production i, fvs))
       (sort_key (\<lambda>e. iord False k (fst e)) (instance_writes fmt cache k (\<lambda>u. f64_to_bytes fmt (up_value u)) us))"

definition instance_stamps ::
  "num_format \<Rightarrow> routing_cache \<Rightarrow> (bool \<Rightarrow> group_key \<Rightarrow> u32 \<Rightarrow> nat) \<Rightarrow> i64 \<Rightarrow> group_key \<Rightarrow>
     channel_point_update list \<Rightarrow> hash_mset_ops"
where
  "instance_stamps fmt cache iord ts k us =
     map (\<lambda>(i, fvs). (instance_measurement_ts_key production i, fvs))
       (sort_key (\<lambda>e. iord True k (fst e)) (instance_writes fmt cache k (\<lambda>_. i64_to_bytes fmt ts) us))"

definition store_buffered ::
  "num_format \<Rightarrow> routing_cache \<Rightarrow> (bool \<Rightarrow> group_key \<Rightarrow> u32 \<Rightarrow> nat) \<Rightarrow> i64 \<Rightarrow> group_key \<Rightarrow>
     channel_point_update list \<Rightarrow> write_buffer \<Rightarrow> write_buffer \<times> batch_result"
where
  "store_buffered fmt cache iord ts k us wb =
     (let (buffered, wb1) =
            buffer_channel_points fmt (channel_key production (fst k) (snd k)) (up_points us) ts wb;
          values = instance_values fmt cache iord k us;
          (dropped1, wb2) = buffer_ops values wb1;
          (dropped2, wb3) = buffer_ops (instance_stamps fmt cache iord ts k us) wb2
      in (wb3, batch_zero\<lparr>br_channel_writes := buffered, br_c2m_writes := length values,
            br_slot_misses := dropped1 + dropped2\<rparr>))"

definition write_channel_batch_buffered ::
  "batch_env \<Rightarrow> num_format \<Rightarrow> (bool \<Rightarrow> group_key \<Rightarrow> u32 \<Rightarrow> nat) \<Rightarrow> write_buffer \<Rightarrow> routing_cache \<Rightarrow>
     channel_point_update list \<Rightarrow> (write_buffer \<times> batch_result) outcome"
where
  "write_channel_batch_buffered env fmt iord wb cache ups =
     bind_outcome
       (run_batch env cache (\<lambda>_. True) (\<lambda>ts k us wb. Ret (store_buffered fmt cache iord ts k us wb)) ups {} 0 wb)
       (\<lambda>(wb', n, res). Ret (wb', res))"

definition store_rtdb ::
  "num_format \<Rightarrow> routing_cache \<Rightarrow> (bool \<Rightarrow> group_key \<Rightarrow> u32 \<Rightarrow> nat) \<Rightarrow> i64 \<Rightarrow> group_key \<Rightarrow>
     channel_point_update list \<Rightarrow> memory_rtdb \<Rightarrow> memory_rtdb \<times> batch_result"
where
  "store_rtdb fmt cache iord ts k us db =
     (let (r, db1) =
            write_channel_points mem_pipeline_hash_mset fmt (channel_key production (fst k) (snd k))
              (up_points us) ts db;
          values = instance_values fmt cache iord k us;
          db2 = fold (\<lambda>op. mem_hash_mset (fst op) (snd op)) values db1;
          db3 = fold (\<lambda>op. mem_hash_mset (fst op) (snd op)) (instance_stamps fmt cache iord ts k us) db2
      in (db3, batch_zero\<lparr>br_channel_writes := (case r of Inr n \<Rightarrow> n | Inl _ \<Rightarrow> 0),
            br_c2m_writes := length values\<rparr>))"

definition write_channel_batch ::
  "batch_env \<Rightarrow> num_format \<Rightarrow> (bool \<Rightarrow> group_key \<Rightarrow> u32 \<Rightarrow> nat) \<Rightarrow> memory_rtdb \<Rightarrow> routing_cache \<Rightarrow>
     channel_point_update list \<Rightarrow> (memory_rtdb \<times> batch_result) outcome"
where
  "write_channel_batch env fmt iord db cache ups =
     bind_outcome
       (run_batch env cache (\<lambda>_. True) (\<lambda>ts k us db. Ret (store_rtdb fmt cache iord ts k us db)) ups {} 0 db)
       (\<lambda>(db', n, res). Ret (db', res))"

section \<open>What one update writes\<close>

definition up_name :: "num_format \<Rightarrow> channel_point_update \<Rightarrow> string" where
  "up_name fmt u = get_point_id_str_or_alloc fmt (up_point_id u)"

definition mirror_fields ::
  "num_format \<Rightarrow> routing_cache \<Rightarrow> i64 \<Rightarrow> channel_point_update \<Rightarrow> (string \<times> string \<times> string) set"
where
  "mirror_fields fmt cache ts u =
     {(channel_key production (up_channel_id u) (up_point_type u), up_name fmt u, f64_to_bytes fmt (up_value u)),
      (channel_ts_key production (up_channel_id u) (up_point_type u), up_name fmt u, i64_to_bytes fmt ts),
      (channel_raw_key production (up_channel_id u) (up_point_type u), up_name fmt u, f64_to_bytes fmt (up_raw u))} \<union>
     (case c2m_of cache (up_group u) u of
        None \<Rightarrow> {}
      | Some t \<Rightarrow>
          {(instance_measurement_key production (c2m_instance_id t),
              get_point_id_str_or_alloc fmt (c2m_point_id t), f64_to_bytes fmt (up_value u)),
           (instance_measurement_ts_key production (c2m_instance_id t),
              get_point_id_str_or_alloc fmt (c2m_point_id t), i64_to_bytes fmt ts)})"

text \<open>All writes of a group, in order.\<close>

definition group_ops ::
  "num_format \<Rightarrow> routing_cache \<Rightarrow> (bool \<Rightarrow> group_key \<Rightarrow> u32 \<Rightarrow> nat) \<Rightarrow> i64 \<Rightarrow> group_key \<Rightarrow>
     channel_point_update list \<Rightarrow> hash_mset_ops"
where
  "group_ops fmt cache iord ts k us =
     channel_layers fmt (channel_key production (fst k) (snd k)) (up_points us) ts @
     instance_values fmt cache iord k us @ instance_stamps fmt cache iord ts k us"

lemma layer_keys:
  "channel_key c channel pt @ '':ts'' = channel_ts_key c channel pt"
  "channel_key c channel pt @ '':raw'' = channel_raw_key c channel pt"
  by (simp_all add: channel_key_def channel_ts_key_def channel_raw_key_def)

lemma in_push_grouped:
  "(k', ys) \<in> set (push_grouped k x m) \<Longrightarrow> y \<in> set ys \<Longrightarrow> k' = k \<and> y = x \<or> (\<exists>ys'. (k', ys') \<in> set m \<and> y \<in> set ys')"
  by (induction k x m rule: push_grouped.induct) (auto split: if_splits)

lemma in_instance_writes:
  assumes "(i, fvs) \<in> set (instance_writes fmt cache k val us)" "fv \<in> set fvs"
  shows "\<exists>u\<in>set us. \<exists>t. c2m_of cache k u = Some t \<and> i = c2m_instance_id t \<and>
    fv = (get_point_id_str_or_alloc fmt (c2m_point_id t), val u)"
proof -
  let ?step = "\<lambda>u m. case c2m_of cache k u of None \<Rightarrow> m
    | Some t \<Rightarrow> push_grouped (c2m_instance_id t) (get_point_id_str_or_alloc fmt (c2m_point_id t), val u) m"
  have "(i, fvs) \<in> set (fold ?step us m) \<Longrightarrow>
      (\<exists>u\<in>set us. \<exists>t. c2m_of cache k u = Some t \<and> i = c2m_instance_id t \<and>
        fv = (get_point_id_str_or_alloc fmt (c2m_point_id t), val u)) \<or>
      (\<exists>ys. (i, ys) \<in> set m \<and> fv \<in> set ys)" for m
  proof (induction us arbitrary: m)
    case (Cons u us)
    show ?case
    proof (cases "c2m_of cache k u")
      case None
      then show ?thesis using Cons by auto
    next
      case (Some t)
      let ?x = "(get_point_id_str_or_alloc fmt (c2m_point_id t), val u)"
      have "(i, fvs) \<in> set (fold ?step us (push_grouped (c2m_instance_id t) ?x m))"
        using Cons.prems Some by simp
      from Cons.IH [OF this] show ?thesis
        using in_push_grouped [of i _ "c2m_instance_id t" ?x m fv] Some by fastforce
    qed
  qed (use assms(2) in auto)
  from this [of "[]"] show ?thesis using assms(1) by (auto simp: instance_writes_def)
qed

lemma group_ops_fields:
  assumes "\<And>u. u \<in> set us \<Longrightarrow> up_group u = k"
    and "(key, fvs) \<in> set (group_ops fmt cache iord ts k us)" "(f, v) \<in> set fvs"
  shows "\<exists>u\<in>set us. (key, f, v) \<in> mirror_fields fmt cache ts u"
proof -
  have k: "fst k = up_channel_id u \<and> snd k = up_point_type u" if "u \<in> set us" for u
    using assms(1) [OF that] by (auto simp: up_group_def)
  consider "(key, fvs) \<in> set (channel_layers fmt (channel_key production (fst k) (snd k)) (up_points us) ts)"
    | i where "key = instance_measurement_key production i"
        "(i, fvs) \<in> set (instance_writes fmt cache k (\<lambda>u. f64_to_bytes fmt (up_value u)) us)"
    | i where "key = instance_measurement_ts_key production i"
        "(i, fvs) \<in> set (instance_writes fmt cache k (\<lambda>_. i64_to_bytes fmt ts) us)"
    using assms(2) by (auto simp: group_ops_def instance_values_def instance_stamps_def)
  then show ?thesis
  proof cases
    case 1
    then show ?thesis
      using assms(3) k by (fastforce simp: channel_layers_def up_points_def layer_keys mirror_fields_def up_name_def)
  next
    case 2
    then show ?thesis
      using in_instance_writes [OF 2(2) assms(3)] assms(1) by (force simp: mirror_fields_def)
  next
    case 3
    then show ?thesis
      using in_instance_writes [OF 3(2) assms(3)] assms(1) by (force simp: mirror_fields_def)
  qed
qed

section \<open>Where hashes are written to\<close>

lemma first_some_None: "first_some a b = None \<longleftrightarrow> a = None \<and> b = None"
  by (simp add: first_some_def split: option.splits)

text \<open>
  What the mirror relies on: a write shows in later lookups, unless the place is full, which it then
  stays; and it removes nothing.
\<close>

locale hash_sink =
  fixes put :: "string \<Rightarrow> (string \<times> string) list \<Rightarrow> 's \<Rightarrow> 's"
    and look :: "'s \<Rightarrow> string \<Rightarrow> string \<Rightarrow> string option"
    and full :: "'s \<Rightarrow> bool"
  assumes put_cases:
      "(\<forall>k' f. look (put k fvs s) k' f =
          first_some (if k' = k then map_of (rev fvs) f else None) (look s k' f)) \<or>
       full s \<and> (\<forall>k' f. look (put k fvs s) k' f = look s k' f)"
    and full_put: "full s \<Longrightarrow> full (put k fvs s)"
begin

definition put_ops :: "hash_mset_ops \<Rightarrow> 's \<Rightarrow> 's" where
  "put_ops ops s = fold (\<lambda>op. put (fst op) (snd op)) ops s"

lemma put_ops_Cons: "put_ops (op # ops) s = put_ops ops (put (fst op) (snd op) s)"
  by (simp add: put_ops_def)

lemma put_origin:
  assumes "look (put k fvs s) k' f = Some v"
  shows "look s k' f = Some v \<or> k' = k \<and> (f, v) \<in> set fvs"
  using put_cases [of k fvs s]
proof (elim disjE conjE)
  assume "\<forall>k' f. look (put k fvs s) k' f = first_some (if k' = k then map_of (rev fvs) f else None) (look s k' f)"
  then show ?thesis
    using assms by (auto simp: first_some_def dest: map_of_SomeD split: if_splits option.splits)
qed (use assms in simp)

lemma put_keeps: "look s k' f \<noteq> None \<Longrightarrow> look (put k fvs s) k' f \<noteq> None"
  using put_cases [of k fvs s] by (metis first_some_None)

lemma put_present: "f \<in> fst ` set fvs \<Longrightarrow> full (put k fvs s) \<or> look (put k fvs s) k f \<noteq> None"
  using put_cases [of k fvs s]
proof (elim disjE conjE)
  assume f: "f \<in> fst ` set fvs"
    and eq: "\<forall>k' f. look (put k fvs s) k' f = first_some (if k' = k then map_of (rev fvs) f else None) (look s k' f)"
  have "map_of (rev fvs) f \<noteq> None"
    using f map_of_eq_None_iff [of "rev fvs" f] by simp
  then show ?thesis using eq by (auto simp: first_some_def)
qed (simp add: full_put)

lemma put_ops_full: "full s \<Longrightarrow> full (put_ops ops s)"
  by (induction ops arbitrary: s) (simp_all add: put_ops_def full_put)

lemma put_ops_keeps: "look s k f \<noteq> None \<Longrightarrow> look (put_ops ops s) k f \<noteq> None"
proof (induction ops arbitrary: s)
  case (Cons op ops)
  show ?case
    unfolding put_ops_Cons by (rule Cons.IH, rule put_keeps, rule Cons.prems)
qed (simp add: put_ops_def)

lemma put_ops_origin:
  "look (put_ops ops s) k f = Some v \<Longrightarrow> look s k f = Some v \<or> (\<exists>fvs. (k, fvs) \<in> set ops \<and> (f, v) \<in> set fvs)"
proof (induction ops arbitrary: s)
  case (Cons op ops)
  then have "look (put (fst op) (snd op) s) k f = Some v \<or> (\<exists>fvs. (k, fvs) \<in> set ops \<and> (f, v) \<in> set fvs)"
    by (simp add: put_ops_Cons)
  then show ?case
    using put_origin [of "fst op" "snd op" s k f v] by (cases op) auto
qed (simp add: put_ops_def)

lemma put_ops_present:
  "(k, fvs) \<in> set ops \<Longrightarrow> f \<in> fst ` set fvs \<Longrightarrow> full (put_ops ops s) \<or> look (put_ops ops s) k f \<noteq> None"
proof (induction ops arbitrary: s)
  case (Cons op ops)
  show ?case
  proof (cases "op = (k, fvs)")
    case True
    then show ?thesis
      using put_present [OF Cons.prems(2), of k s] put_ops_full put_ops_keeps by (auto simp: put_ops_Cons)
  next
    case False
    then show ?thesis using Cons by (simp add: put_ops_Cons)
  qed
qed simp

end

text \<open>Everything found stems from the start or from an update, and the fields of an update are found.\<close>

definition mirrored ::
  "('s \<Rightarrow> string \<Rightarrow> string \<Rightarrow> string option) \<Rightarrow> num_format \<Rightarrow> routing_cache \<Rightarrow> (channel_point_update \<Rightarrow> bool) \<Rightarrow>
     's \<Rightarrow> 's \<Rightarrow> bool"
where
  "mirrored look fmt cache P s0 s \<longleftrightarrow>
     (\<forall>k f v. look s k f = Some v \<longrightarrow>
        look s0 k f = Some v \<or> (\<exists>u ts. P u \<and> (k, f, v) \<in> mirror_fields fmt cache ts u))"

definition present ::
  "('s \<Rightarrow> string \<Rightarrow> string \<Rightarrow> string option) \<Rightarrow> ('s \<Rightarrow> bool) \<Rightarrow> num_format \<Rightarrow> channel_point_update \<Rightarrow> 's \<Rightarrow> bool"
where
  "present look full fmt u s \<longleftrightarrow>
     full s \<or>
     (\<forall>key \<in> {channel_key, channel_ts_key, channel_raw_key}.
        look s (key production (up_channel_id u) (up_point_type u)) (up_name fmt u) \<noteq> None)"

lemma group_ops_layers:
  assumes "u \<in> set us" "up_group u = k" "key \<in> {channel_key, channel_ts_key, channel_raw_key}"
  shows "\<exists>fvs. (key production (up_channel_id u) (up_point_type u), fvs) \<in> set (group_ops fmt cache iord ts k us) \<and>
    up_name fmt u \<in> fst ` set fvs"
proof -
  have k: "k = (up_channel_id u, up_point_type u)" using assms(2) by (simp add: up_group_def)
  let ?l = "\<lambda>g. map (\<lambda>(p, v, raw). (get_point_id_str_or_alloc fmt p, g v raw)) (up_points us)"
  have "(up_point_id u, up_value u, up_raw u) \<in> set (up_points us)" using assms(1) by (auto simp: up_points_def)
  then have name: "up_name fmt u \<in> fst ` set (?l g)" for g
    by (force simp: up_name_def)
  have ops: "(channel_key production (fst k) (snd k), ?l (\<lambda>v raw. f64_to_bytes fmt v)) \<in> set (group_ops fmt cache iord ts k us)"
    "(channel_ts_key production (fst k) (snd k), ?l (\<lambda>v raw. i64_to_bytes fmt ts)) \<in> set (group_ops fmt cache iord ts k us)"
    "(channel_raw_key production (fst k) (snd k), ?l (\<lambda>v raw. f64_to_bytes fmt raw)) \<in> set (group_ops fmt cache iord ts k us)"
    by (simp_all add: group_ops_def channel_layers_def layer_keys)
  have k': "up_channel_id u = fst k" "up_point_type u = snd k" by (simp_all add: k)
  show ?thesis
    using assms(3)
  proof (elim insertE emptyE)
    show ?thesis if "key = channel_key" unfolding that k' by (intro exI conjI, rule ops(1), rule name)
    show ?thesis if "key = channel_ts_key" unfolding that k' by (intro exI conjI, rule ops(2), rule name)
    show ?thesis if "key = channel_raw_key" unfolding that k' by (intro exI conjI, rule ops(3), rule name)
  qed
qed

context hash_sink begin

lemma mirror_group:
  assumes "mirrored look fmt cache P s0 s" "\<And>u. u \<in> set us \<Longrightarrow> P u \<and> up_group u = k"
  shows "mirrored look fmt cache P s0 (put_ops (group_ops fmt cache iord ts k us) s) \<and>
    (\<forall>u. u \<in> set us \<or> present look full fmt u s \<longrightarrow>
       present look full fmt u (put_ops (group_ops fmt cache iord ts k us) s))"
proof (intro conjI allI impI)
  let ?ops = "group_ops fmt cache iord ts k us"
  show "mirrored look fmt cache P s0 (put_ops ?ops s)"
    unfolding mirrored_def
  proof (intro allI impI)
    fix key f v assume "look (put_ops ?ops s) key f = Some v"
    from put_ops_origin [OF this]
    show "look s0 key f = Some v \<or> (\<exists>u ts. P u \<and> (key, f, v) \<in> mirror_fields fmt cache ts u)"
    proof
      assume "look s key f = Some v"
      then show ?thesis using assms(1) by (simp add: mirrored_def)
    next
      assume "\<exists>fvs. (key, fvs) \<in> set ?ops \<and> (f, v) \<in> set fvs"
      then obtain fvs where "(key, fvs) \<in> set ?ops" "(f, v) \<in> set fvs" by blast
      then obtain u where "u \<in> set us" "(key, f, v) \<in> mirror_fields fmt cache ts u"
        using group_ops_fields [of us k key fvs fmt cache iord ts f v] assms(2) by blast
      then show ?thesis using assms(2) by blast
    qed
  qed
  fix u assume "u \<in> set us \<or> present look full fmt u s"
  then show "present look full fmt u (put_ops ?ops s)"
  proof
    assume u: "u \<in> set us"
    then have g: "up_group u = k" using assms(2) by simp
    have "full (put_ops ?ops s) \<or>
        look (put_ops ?ops s) (key production (up_channel_id u) (up_point_type u)) (up_name fmt u) \<noteq> None"
      if "key \<in> {channel_key, channel_ts_key, channel_raw_key}" for key
      using group_ops_layers [OF u g that, of fmt cache iord ts] put_ops_present by blast
    then show ?thesis unfolding present_def by blast
  next
    assume "present look full fmt u s"
    then show ?thesis
      unfolding present_def using put_ops_full [of s ?ops] put_ops_keeps [of s _ _ ?ops] by blast
  qed
qed

end

section \<open>The two places\<close>

definition wb_full :: "write_buffer \<Rightarrow> bool" where
  "wb_full wb \<longleftrightarrow> max_pending_keys (wb_config wb) \<le> pending_keys wb"

lemma length_update_ge: "length m \<le> length (AList.update k v m)"
  by (induction m) auto

interpretation hb: hash_sink "\<lambda>k fvs wb. snd (buffer_hash_mset k fvs wb)" "\<lambda>wb. written (pending wb)" wb_full
proof
  fix k fvs wb
  obtain r wb' where b: "buffer_hash_mset k fvs wb = (r, wb')" by (cases "buffer_hash_mset k fvs wb")
  have e: "written (pending wb') k' f =
      first_some (newest_of (case r of Inr _ \<Rightarrow> write_fields (Hash_Mset k fvs) | Inl _ \<Rightarrow> []) k' f)
        (written (pending wb) k' f)" for k' f
    using buffer_write_effect [of "Hash_Mset k fvs" wb r wb' k' f] b by simp
  show "(\<forall>k' f. written (pending (snd (buffer_hash_mset k fvs wb))) k' f =
          first_some (if k' = k then map_of (rev fvs) f else None) (written (pending wb) k' f)) \<or>
       wb_full wb \<and> (\<forall>k' f. written (pending (snd (buffer_hash_mset k fvs wb))) k' f = written (pending wb) k' f)"
  proof (cases r)
    case (Inr u)
    then show ?thesis using e b by (simp add: newest_of_fields)
  next
    case (Inl x)
    then have "overflows k wb" using b by (auto simp: buffer_hash_mset_def Let_def split: if_splits)
    then show ?thesis using e b Inl by (simp add: wb_full_def overflows_def pending_keys_def)
  qed
  show "wb_full (snd (buffer_hash_mset k fvs wb))" if "wb_full wb"
    using that length_update_ge [of "pending wb" k "insert_fields fvs (entry_or_default k (pending wb))"]
    by (auto simp: wb_full_def pending_keys_def buffer_hash_mset_def reject_write_def Let_def)
qed

interpretation hm: hash_sink "\<lambda>k fvs db. mset_op (k, fvs) db" "\<lambda>db k f. mem_hash_get k f db" "\<lambda>_. False"
  by unfold_locales (simp_all add: mset_op_def hash_get_mset first_some_def)

section \<open>Storing a group is a sequence of writes\<close>

definition ops_size :: "hash_mset_ops \<Rightarrow> nat" where
  "ops_size ops = sum_list (map (\<lambda>op. length (snd op)) ops)"

lemma buffer_ops_put: "snd (buffer_ops ops wb) = hb.put_ops ops wb"
  by (induction ops arbitrary: wb) (simp_all add: hb.put_ops_def case_prod_beta Let_def)

lemma buffer_ops_dropped: "fst (buffer_ops ops wb) \<le> ops_size ops"
proof (induction ops arbitrary: wb)
  case (Cons op ops)
  obtain r wb1 where b: "buffer_hash_mset (fst op) (snd op) wb = (r, wb1)"
    by (cases "buffer_hash_mset (fst op) (snd op) wb")
  then have "(case r of Inl e \<Rightarrow> ov_dropped_fields e | Inr _ \<Rightarrow> 0) \<le> length (snd op)"
    by (auto simp: buffer_hash_mset_def reject_write_def Let_def split: if_splits)
  then show ?case
    using Cons.IH [of wb1] by (simp add: b ops_size_def case_prod_beta)
qed (simp add: ops_size_def)

lemma push_grouped_size: "sum_list (map (\<lambda>e. length (snd e)) (push_grouped k x m)) = Suc (sum_list (map (\<lambda>e. length (snd e)) m))"
  by (induction k x m rule: push_grouped.induct) auto

lemma instance_writes_size:
  "sum_list (map (\<lambda>e. length (snd e)) (instance_writes fmt cache k val us)) \<le> length us"
proof -
  let ?step = "\<lambda>u m. case c2m_of cache k u of None \<Rightarrow> m
    | Some t \<Rightarrow> push_grouped (c2m_instance_id t) (get_point_id_str_or_alloc fmt (c2m_point_id t), val u) m"
  let ?size = "\<lambda>m. sum_list (map (\<lambda>e. length (snd e)) m)"
  have "?size (fold ?step us m) \<le> ?size m + length us" for m
  proof (induction us arbitrary: m)
    case (Cons u us)
    have "?size (?step u m) \<le> Suc (?size m)"
      by (auto simp: push_grouped_size split: option.splits)
    then show ?case using Cons.IH [of "?step u m"] by simp
  qed simp
  from this [of "[]"] show ?thesis by (simp add: instance_writes_def)
qed

lemma sum_list_sort_key: "sum_list (map g (sort_key f xs)) = (sum_list (map g xs) :: nat)"
  by (metis mset_map mset_sort sum_mset_sum_list)

lemma instance_sizes:
  "ops_size (instance_values fmt cache iord k us) \<le> length us"
  "ops_size (instance_stamps fmt cache iord ts k us) \<le> length us"
  by (simp_all add: ops_size_def instance_values_def instance_stamps_def comp_def case_prod_beta
      sum_list_sort_key instance_writes_size)

lemma buffer_hash_mset_Nil: "buffer_hash_mset k [] wb = (Inr (), wb)"
  by (simp add: buffer_hash_mset_def)

lemma buffer_channel_points_put:
  "snd (buffer_channel_points fmt key points ts wb) = hb.put_ops (channel_layers fmt key points ts) wb"
  by (simp add: buffer_channel_points_def case_prod_beta buffer_ops_put)
    (simp add: channel_layers_def hb.put_ops_def buffer_hash_mset_Nil)

lemma buffer_channel_points_count: "fst (buffer_channel_points fmt key points ts wb) \<le> length points"
proof -
  have "(n * 3 - d) div 3 \<le> n" for n d :: nat
    by (metis diff_le_self div_le_mono nonzero_mult_div_cancel_right zero_neq_numeral)
  then show ?thesis by (simp add: buffer_channel_points_def case_prod_beta)
qed

lemma store_buffered_effect:
  obtains r where "store_buffered fmt cache iord ts k us wb = (hb.put_ops (group_ops fmt cache iord ts k us) wb, r)"
    "br_channel_writes r + br_slot_misses r \<le> 3 * length us" "br_c2c_forwards r = 0"
proof -
  obtain n wb1 where 1: "buffer_channel_points fmt (channel_key production (fst k) (snd k)) (up_points us) ts wb = (n, wb1)"
    by (cases "buffer_channel_points fmt (channel_key production (fst k) (snd k)) (up_points us) ts wb")
  obtain d1 wb2 where 2: "buffer_ops (instance_values fmt cache iord k us) wb1 = (d1, wb2)"
    by (cases "buffer_ops (instance_values fmt cache iord k us) wb1")
  obtain d2 wb3 where 3: "buffer_ops (instance_stamps fmt cache iord ts k us) wb2 = (d2, wb3)"
    by (cases "buffer_ops (instance_stamps fmt cache iord ts k us) wb2")
  have "n \<le> length us" "d1 \<le> length us" "d2 \<le> length us"
    using buffer_channel_points_count [of fmt "channel_key production (fst k) (snd k)" "up_points us" ts wb]
      buffer_ops_dropped [of "instance_values fmt cache iord k us" wb1]
      buffer_ops_dropped [of "instance_stamps fmt cache iord ts k us" wb2] 1 2 3
      instance_sizes(1) [of fmt cache iord k us] instance_sizes(2) [of fmt cache iord ts k us]
    by (auto simp: up_points_def)
  moreover have "wb3 = hb.put_ops (group_ops fmt cache iord ts k us) wb"
    using buffer_channel_points_put [of fmt "channel_key production (fst k) (snd k)" "up_points us" ts wb]
      buffer_ops_put [of "instance_values fmt cache iord k us" wb1]
      buffer_ops_put [of "instance_stamps fmt cache iord ts k us" wb2] 1 2 3
    by (simp add: group_ops_def hb.put_ops_def)
  moreover have "store_buffered fmt cache iord ts k us wb =
      (wb3, batch_zero\<lparr>br_channel_writes := n, br_c2m_writes := length (instance_values fmt cache iord k us),
        br_slot_misses := d1 + d2\<rparr>)"
    by (simp add: store_buffered_def 1 2 3)
  ultimately show ?thesis by (intro that) (auto simp: batch_zero_def)
qed

lemma instance_writes_nonempty:
  "\<forall>e\<in>set (instance_writes fmt cache k val us). snd e \<noteq> []"
proof -
  have push: "\<forall>e\<in>set m. snd e \<noteq> [] \<Longrightarrow> \<forall>e\<in>set (push_grouped k x m). snd e \<noteq> []"
    for k :: u32 and x :: "string \<times> string" and m
    by (induction k x m rule: push_grouped.induct) auto
  let ?step = "\<lambda>u m. case c2m_of cache k u of None \<Rightarrow> m
    | Some t \<Rightarrow> push_grouped (c2m_instance_id t) (get_point_id_str_or_alloc fmt (c2m_point_id t), val u) m"
  have "\<forall>e\<in>set m. snd e \<noteq> [] \<Longrightarrow> \<forall>e\<in>set (fold ?step us m). snd e \<noteq> []" for m
  proof (induction us arbitrary: m)
    case (Cons u us)
    have "\<forall>e\<in>set (?step u m). snd e \<noteq> []"
      using Cons.prems push by (auto split: option.splits)
    then show ?case using Cons.IH [of "?step u m"] by simp
  qed simp
  from this [of "[]"] show ?thesis by (simp add: instance_writes_def)
qed

lemma fold_mem_mset:
  "\<forall>op\<in>set ops. snd op \<noteq> [] \<Longrightarrow> fold (\<lambda>op. mem_hash_mset (fst op) (snd op)) ops db = hm.put_ops ops db"
  by (induction ops arbitrary: db) (simp_all add: hm.put_ops_def mset_op_def)

lemma instance_ops_nonempty:
  "\<forall>op\<in>set (instance_values fmt cache iord k us). snd op \<noteq> []"
  "\<forall>op\<in>set (instance_stamps fmt cache iord ts k us). snd op \<noteq> []"
  using instance_writes_nonempty by (fastforce simp: instance_values_def instance_stamps_def)+

lemma write_channel_points_mem:
  "write_channel_points mem_pipeline_hash_mset fmt key points ts db =
     (Inr (length points), hm.put_ops (channel_layers fmt key points ts) db)"
  by (simp add: write_channel_points_def mem_pipeline_hash_mset_def hm.put_ops_def)
    (simp add: channel_layers_def mset_op_def)

lemma store_rtdb_effect:
  obtains r where "store_rtdb fmt cache iord ts k us db = (hm.put_ops (group_ops fmt cache iord ts k us) db, r)"
    "br_channel_writes r + br_slot_misses r \<le> 3 * length us" "br_c2c_forwards r = 0"
proof -
  have "store_rtdb fmt cache iord ts k us db = (hm.put_ops (group_ops fmt cache iord ts k us) db,
      batch_zero\<lparr>br_channel_writes := length us, br_c2m_writes := length (instance_values fmt cache iord k us)\<rparr>)"
    by (simp add: store_rtdb_def write_channel_points_mem fold_mem_mset instance_ops_nonempty group_ops_def)
      (simp add: hm.put_ops_def up_points_def Let_def)
  then show ?thesis by (rule that) (simp_all add: batch_zero_def)
qed

interpretation bb: batch_store "\<lambda>ts k us wb. Ret (store_buffered fmt cache iord ts k us wb)" "\<lambda>_. True" cache
    "routed cache ups" "mirrored (\<lambda>wb. written (pending wb)) fmt cache (routed cache ups) wb0"
    "present (\<lambda>wb. written (pending wb)) wb_full fmt" 3 for fmt cache iord ups wb0
proof unfold_locales
  fix wb us k ts
  assume i: "mirrored (\<lambda>wb. written (pending wb)) fmt cache (routed cache ups) wb0 wb"
    and u: "\<And>u. u \<in> set us \<Longrightarrow> routed cache ups u \<and> True \<and> up_group u = k"
  obtain r where r: "store_buffered fmt cache iord ts k us wb = (hb.put_ops (group_ops fmt cache iord ts k us) wb, r)"
    "br_channel_writes r + br_slot_misses r \<le> 3 * length us" "br_c2c_forwards r = 0"
    by (rule store_buffered_effect)
  show "\<exists>wb' r. Ret (store_buffered fmt cache iord ts k us wb) = Ret (wb', r) \<and>
      mirrored (\<lambda>wb. written (pending wb)) fmt cache (routed cache ups) wb0 wb' \<and>
      (\<forall>u. u \<in> set us \<or> present (\<lambda>wb. written (pending wb)) wb_full fmt u wb \<longrightarrow>
         present (\<lambda>wb. written (pending wb)) wb_full fmt u wb') \<and>
      br_channel_writes r + br_slot_misses r \<le> 3 * length us \<and> br_c2c_forwards r = 0"
    using hb.mirror_group [OF i, of us k iord ts] u r by auto
next
  fix u t assume "routed cache ups u" "c2c_next cache (up_group u) u = Some t"
  then show "routed cache ups (forward_update t u)" by (rule forwarded)
qed

interpretation br: batch_store "\<lambda>ts k us db. Ret (store_rtdb fmt cache iord ts k us db)" "\<lambda>_. True" cache
    "routed cache ups" "mirrored (\<lambda>db k f. mem_hash_get k f db) fmt cache (routed cache ups) db0"
    "present (\<lambda>db k f. mem_hash_get k f db) (\<lambda>_. False) fmt" 3 for fmt cache iord ups db0
proof unfold_locales
  fix db us k ts
  assume i: "mirrored (\<lambda>db k f. mem_hash_get k f db) fmt cache (routed cache ups) db0 db"
    and u: "\<And>u. u \<in> set us \<Longrightarrow> routed cache ups u \<and> True \<and> up_group u = k"
  obtain r where r: "store_rtdb fmt cache iord ts k us db = (hm.put_ops (group_ops fmt cache iord ts k us) db, r)"
    "br_channel_writes r + br_slot_misses r \<le> 3 * length us" "br_c2c_forwards r = 0"
    by (rule store_rtdb_effect)
  show "\<exists>db' r. Ret (store_rtdb fmt cache iord ts k us db) = Ret (db', r) \<and>
      mirrored (\<lambda>db k f. mem_hash_get k f db) fmt cache (routed cache ups) db0 db' \<and>
      (\<forall>u. u \<in> set us \<or> present (\<lambda>db k f. mem_hash_get k f db) (\<lambda>_. False) fmt u db \<longrightarrow>
         present (\<lambda>db k f. mem_hash_get k f db) (\<lambda>_. False) fmt u db') \<and>
      br_channel_writes r + br_slot_misses r \<le> 3 * length us \<and> br_c2c_forwards r = 0"
    using hm.mirror_group [OF i, of us k iord ts] u r by auto
next
  fix u t assume "routed cache ups u" "c2c_next cache (up_group u) u = Some t"
  then show "routed cache ups (forward_update t u)" by (rule forwarded)
qed

section \<open>Property\<close>

lemma mirror_at_channel:
  assumes "decimal_ids fmt" "(channel_key production c pt, u32_to_string p, v) \<in> mirror_fields fmt cache ts u"
  shows "up_key u = (c, pt, p) \<and> v = f64_to_bytes fmt (up_value u)"
  using assms by (auto simp: mirror_fields_def up_name_def up_key_def split: option.splits)

lemma mirror_at_instance:
  assumes "decimal_ids fmt" "(instance_measurement_key production i, u32_to_string p, v) \<in> mirror_fields fmt cache ts u"
  shows "c2m_of cache (up_group u) u = Some \<lparr>c2m_instance_id = i, c2m_point_id = p\<rparr> \<and>
    v = f64_to_bytes fmt (up_value u)"
  using assms by (auto simp: mirror_fields_def split: option.splits)

lemma mirrored_values:
  assumes "decimal_ids fmt" "mirrored look fmt cache P s0 s"
  shows "look s (channel_key production c pt) (u32_to_string p) = Some v \<Longrightarrow>
      look s0 (channel_key production c pt) (u32_to_string p) = Some v \<or>
      (\<exists>u. P u \<and> up_key u = (c, pt, p) \<and> v = f64_to_bytes fmt (up_value u))"
    and "look s (instance_measurement_key production i) (u32_to_string p) = Some v \<Longrightarrow>
      look s0 (instance_measurement_key production i) (u32_to_string p) = Some v \<or>
      (\<exists>u. P u \<and> c2m_of cache (up_group u) u = Some \<lparr>c2m_instance_id = i, c2m_point_id = p\<rparr> \<and>
         v = f64_to_bytes fmt (up_value u))"
  using assms(2) mirror_at_channel [OF assms(1)] mirror_at_instance [OF assms(1)] unfolding mirrored_def by blast+


text \<open>The writer without a buffer, on the in-memory backend, mirrors in the same way and drops nothing.\<close>

lemma rtdb_batch_mirrored:
  assumes "decimal_ids fmt"
  shows "\<exists>db' res. write_channel_batch env fmt iord db cache ups = Ret (db', res) \<and>
    mirrored (\<lambda>db k f. mem_hash_get k f db) fmt cache (routed cache ups) db db' \<and>
    (\<forall>u\<in>set ups. mem_hash_get (channel_key production (up_channel_id u) (up_point_type u))
       (u32_to_string (up_point_id u)) db' \<noteq> None)"
proof -
  let ?look = "\<lambda>db k f. mem_hash_get k f db"
  have "mirrored ?look fmt cache (routed cache ups) db db" by (simp add: mirrored_def)
  from br.run_batch_ok [OF this given, of ups env iord "{}" 0]
  obtain db' n res where r: "run_batch env cache (\<lambda>_. True) (\<lambda>ts k us db. Ret (store_rtdb fmt cache iord ts k us db))
        ups {} 0 db = Ret (db', n, res)"
      "mirrored ?look fmt cache (routed cache ups) db db'" "\<forall>u\<in>set ups. present ?look (\<lambda>_. False) fmt u db'"
    by auto
  then show ?thesis
    using assms by (auto simp: write_channel_batch_def present_def up_name_def)
qed

definition demo_format :: num_format where
  "demo_format = \<lparr>fmt_u32 = u32_to_string, fmt_usize = nat_digits, fmt_i64 = i64_to_string,
     fmt_f64 = (\<lambda>x. u32_to_string (ucast x))\<rparr>"


end
