(* ===== verification/Action_Route.thy ===== *)
theory Action_Route
  imports Batch_Mirror Command_Path
begin

text \<open>
  Action routing, \<open>libs/voltage-routing/src/lib.rs\<close>: how a set point of a model instance is committed to the
  database, on the in-memory backend: the instance's action hash and its time stamps, and, when an M2C
  route exists, the three hashes of the channel point it leads to.  \<open>disp\<close> is the text \<open>to_string\<close> gives for
  a float; no statement depends on it.
\<close>

section \<open>Definitions\<close>

record action_route_outcome =
  aro_status :: string
  aro_instance_id :: u32
  aro_point_id :: string
  aro_value :: string
  aro_routed :: bool
  aro_route_result :: "string option"
  aro_route_context :: "route_context option"

definition STATUS_SUCCESS :: string where
  "STATUS_SUCCESS = ''success''"

text \<open>\<open>eq_ignore_ascii_case\<close>.\<close>

definition is_success :: "action_route_outcome \<Rightarrow> bool" where
  "is_success o1 \<longleftrightarrow> map to_lower (aro_status o1) = map to_lower ''success''"

definition validate_action_value :: "f64 \<Rightarrow> value_validation_error + f64" where
  "validate_action_value v = validate_value v validation_default"

definition route_context_from_target :: "m2c_target \<Rightarrow> i64 \<Rightarrow> route_context" where
  "route_context_from_target t ts =
     \<lparr>ctx_channel_id = u32_to_string (m2c_channel_id t), ctx_point_type = as_str (m2c_point_type t),
      ctx_comsrv_point_id = u32_to_string (m2c_point_id t), ctx_target_channel_id = m2c_channel_id t,
      ctx_target_point_type = to_u8 (m2c_point_type t), ctx_target_point_id = m2c_point_id t,
      ctx_timestamp_ms = ts\<rparr>"

text \<open>The default \<open>hash_set_f64\<close> of the trait.\<close>

definition mem_hash_set_f64 :: "(f64 \<Rightarrow> string) \<Rightarrow> string \<Rightarrow> string \<Rightarrow> f64 \<Rightarrow> memory_rtdb \<Rightarrow> memory_rtdb" where
  "mem_hash_set_f64 disp key field v db = mem_hash_set key field (disp v) db"

text \<open>The state both branches store.\<close>

definition store_action ::
  "(f64 \<Rightarrow> string) \<Rightarrow> num_format \<Rightarrow> u32 \<Rightarrow> string \<Rightarrow> f64 \<Rightarrow> i64 \<Rightarrow> memory_rtdb \<Rightarrow> memory_rtdb"
where
  "store_action disp fmt i p v ts db =
     mem_hash_set (instance_action_ts_key production i) p (i64_to_bytes fmt ts)
       (mem_hash_set_f64 disp (instance_action_key production i) p v db)"

definition set_action_point_with_target_at ::
  "(f64 \<Rightarrow> string) \<Rightarrow> num_format \<Rightarrow> u32 \<Rightarrow> string \<Rightarrow> f64 \<Rightarrow> m2c_target option \<Rightarrow> i64 \<Rightarrow> memory_rtdb \<Rightarrow>
     (value_validation_error + action_route_outcome) \<times> memory_rtdb"
where
  "set_action_point_with_target_at disp fmt i p v target ts db =
     (case validate_action_value v of
        Inl e \<Rightarrow> (Inl e, db)
      | Inr v \<Rightarrow>
          (let db1 = store_action disp fmt i p v ts db in
           case target of
             Some t \<Rightarrow>
               (Inr \<lparr>aro_status = STATUS_SUCCESS, aro_instance_id = i, aro_point_id = p, aro_value = disp v,
                     aro_routed = True, aro_route_result = Some (u32_to_string (m2c_channel_id t)),
                     aro_route_context = Some (route_context_from_target t ts)\<rparr>,
                snd (write_channel_hash_only mem_pipeline_hash_mset fmt production (m2c_channel_id t)
                       (m2c_point_type t) (m2c_point_id t) v ts db1))
           | None \<Rightarrow>
               (Inr \<lparr>aro_status = STATUS_SUCCESS, aro_instance_id = i, aro_point_id = p, aro_value = disp v,
                     aro_routed = False, aro_route_result = Some ''no_route'', aro_route_context = None\<rparr>,
                db1)))"

text \<open>The clock, which reads 0 before the epoch, is an argument.\<close>

definition set_action_point_with_target ::
  "(f64 \<Rightarrow> string) \<Rightarrow> num_format \<Rightarrow> i64 \<Rightarrow> u32 \<Rightarrow> string \<Rightarrow> f64 \<Rightarrow> m2c_target option \<Rightarrow> memory_rtdb \<Rightarrow>
     (value_validation_error + action_route_outcome) \<times> memory_rtdb"
where
  "set_action_point_with_target disp fmt now i p v target db =
     set_action_point_with_target_at disp fmt i p v target now db"

definition action_target :: "routing_cache \<Rightarrow> u32 \<Rightarrow> string \<Rightarrow> m2c_target option" where
  "action_target cache i p =
     (case parse_u32 p of
        Some n \<Rightarrow> lookup_m2c_by_parts cache i Adjustment n
      | None \<Rightarrow> lookup_m2c cache (u32_to_string i @ '':A:'' @ p))"

definition set_action_point ::
  "(f64 \<Rightarrow> string) \<Rightarrow> num_format \<Rightarrow> i64 \<Rightarrow> routing_cache \<Rightarrow> u32 \<Rightarrow> string \<Rightarrow> f64 \<Rightarrow> memory_rtdb \<Rightarrow>
     (value_validation_error + action_route_outcome) \<times> memory_rtdb"
where
  "set_action_point disp fmt now cache i p v db =
     set_action_point_with_target disp fmt now i p v (action_target cache i p) db"

section \<open>What is stored\<close>

lemma split_on_single: "split_on c s = [q] \<Longrightarrow> q = s"
  by (induction s arbitrary: q) (auto split: if_splits list.splits)

text \<open>A point that is no number has no route: the route key of the fallback never parses.\<close>

lemma named_point_unrouted:
  assumes "parse_u32 p = None"
  shows "lookup_m2c cache (u32_to_string i @ '':A:'' @ p) = None"
proof -
  have s: "split_on CHR '':'' (u32_to_string i @ '':A:'' @ p) = u32_to_string i # ''A'' # split_on CHR '':'' p"
    by (simp add: split_on_append)
  obtain q qs where q: "split_on CHR '':'' p = q # qs"
    by (meson split_on_nonempty(1) list.exhaust)
  show ?thesis
  proof (cases "qs = []")
    case True
    then have "q = p" using q split_on_single by auto
    then show ?thesis using s q assms True by (simp add: lookup_m2c_def parse_route_key_def parse_point_type_def)
  next
    case False
    then show ?thesis using s q by (simp add: lookup_m2c_def parse_route_key_def)
  qed
qed

text \<open>The three hashes of the channel point a route leads to.\<close>

definition routed_field :: "num_format \<Rightarrow> m2c_target option \<Rightarrow> f64 \<Rightarrow> i64 \<Rightarrow> string \<Rightarrow> string \<Rightarrow> string option" where
  "routed_field fmt target v ts k f =
     (case target of
        None \<Rightarrow> None
      | Some t \<Rightarrow>
          if f \<noteq> u32_to_string (m2c_point_id t) then None
          else if k = channel_key production (m2c_channel_id t) (m2c_point_type t) then Some (f64_to_bytes fmt v)
          else if k = channel_ts_key production (m2c_channel_id t) (m2c_point_type t) then Some (i64_to_bytes fmt ts)
          else if k = channel_raw_key production (m2c_channel_id t) (m2c_point_type t) then Some (f64_to_bytes fmt v)
          else None)"

lemma layer_keys_distinct:
  "channel_key production c p \<noteq> channel_ts_key production c p"
  "channel_key production c p \<noteq> channel_raw_key production c p"
  "channel_ts_key production c p \<noteq> channel_raw_key production c p"
  using key_of_production_inject [of "Channel_Ts c p" "Channel_Raw c p"] by simp_all

lemma write_channel_hash_only_effect:
  assumes "decimal_ids fmt"
  shows "mem_hash_get k f (snd (write_channel_hash_only mem_pipeline_hash_mset fmt production
      (m2c_channel_id t) (m2c_point_type t) (m2c_point_id t) v ts db)) =
    first_some (routed_field fmt (Some t) v ts k f) (mem_hash_get k f db)"
proof -
  let ?ops = "channel_layers fmt (channel_key production (m2c_channel_id t) (m2c_point_type t)) [(m2c_point_id t, v, v)] ts"
  have wf: "ops_wf ?ops"
    using layer_keys_distinct by (auto simp: ops_wf_def channel_layers_def layer_keys)
  have "written ?ops k f = routed_field fmt (Some t) v ts k f"
    using assms layer_keys_distinct
    by (auto simp: channel_layers_def layer_keys routed_field_def)
  then show ?thesis
    using fold_mset_op [OF wf, of k f db]
    by (simp add: write_channel_hash_only_def write_channel_points_def mem_pipeline_hash_mset_def first_some_def)
qed

text \<open>
  The commit with a given target.  A value that is not finite is refused and changes nothing.  Otherwise the outcome is a success, tells
  whether there was a route, and carries the time stamp of the commit for the dispatch over shared memory;
  exactly the action value, its time stamp and the three hashes of the routed point change.
\<close>

lemma commit_effect:
  assumes "decimal_ids fmt"
    and "set_action_point_with_target_at disp fmt i p v target ts db = (r, db')"
  shows "(\<not> f64_is_finite v \<longrightarrow> isl r \<and> db' = db) \<and>
    (f64_is_finite v \<longrightarrow>
       (\<exists>out. r = Inr out \<and> is_success out \<and> aro_routed out = (target \<noteq> None) \<and>
          aro_route_context out = map_option (\<lambda>t. route_context_from_target t ts) target) \<and>
       (\<forall>k f. mem_hash_get k f db' =
          first_some (routed_field fmt target v ts k f)
            (if k = instance_action_ts_key production i \<and> f = p then Some (i64_to_bytes fmt ts)
             else if k = instance_action_key production i \<and> f = p then Some (disp v)
             else mem_hash_get k f db)))"
proof (cases "f64_is_finite v")
  case False
  then obtain e where "validate_action_value v = Inl e"
    using validate_default [of v] by (cases "validate_action_value v") (auto simp: validate_action_value_def)
  then show ?thesis using assms(2) False by (auto simp: set_action_point_with_target_at_def)
next
  case True
  then have ok: "validate_action_value v = Inr v"
    using validate_default [of v v] by (simp add: validate_action_value_def)
  show ?thesis
  proof (cases target)
    case None
    then show ?thesis
      using assms(2) ok True
      by (auto simp: set_action_point_with_target_at_def is_success_def STATUS_SUCCESS_def routed_field_def
          store_action_def mem_hash_set_f64_def)
  next
    case (Some t)
    have "db' = snd (write_channel_hash_only mem_pipeline_hash_mset fmt production (m2c_channel_id t)
        (m2c_point_type t) (m2c_point_id t) v ts (store_action disp fmt i p v ts db))"
      using assms(2) ok Some by (auto simp: set_action_point_with_target_at_def)
    then have "mem_hash_get k f db' = first_some (routed_field fmt target v ts k f)
        (mem_hash_get k f (store_action disp fmt i p v ts db))" for k f
      using write_channel_hash_only_effect [OF assms(1)] Some by simp
    then show ?thesis
      using assms(2) ok True Some
      by (auto simp: set_action_point_with_target_at_def is_success_def STATUS_SUCCESS_def
          store_action_def mem_hash_set_f64_def)
  qed
qed

section \<open>Property\<close>


definition demo_m2c :: routing_cache where
  "demo_m2c = \<lparr>rc_c2m = Map.empty, rc_c2c = Map.empty,
     rc_m2c = Map.empty((1, Adjustment, 2) \<mapsto> \<lparr>m2c_channel_id = 9, m2c_point_type = Control, m2c_point_id = 4\<rparr>),
     rc_c2m_reverse = Map.empty\<rparr>"


end
