(* ===== verification/Calc.thy ===== *)
theory Calc
  imports Float_Ops Memory_Rtdb "HOL-Library.Multiset"
begin

text \<open>
  The calculation library, \<open>libs/voltage-calc\<close>: the state stores and state records of \<open>state.rs\<close>, the
  functions of \<open>builtin_functions.rs\<close> and the evaluation of formulas of \<open>evaluator.rs\<close>.  The JSON encoding
  of states (\<open>serde_json\<close>), the matches of regular expressions (\<open>regex\<close>), the expression engine (\<open>evalexpr\<close>),
  the calendar (\<open>chrono\<close>) and \<open>powi\<close> are parameters; clock readings are arguments.
\<close>

section \<open>Errors and state stores\<close>

datatype calc_error =
    Expression_Error string
  | State_Error string
  | Function_Error string
  | Variable_Not_Found string

record 's state_store =
  ss_get :: "string \<Rightarrow> 's \<Rightarrow> calc_error + string option"
  ss_set :: "string \<Rightarrow> string \<Rightarrow> 's \<Rightarrow> (calc_error + unit) \<times> 's"
  ss_delete :: "string \<Rightarrow> 's \<Rightarrow> (calc_error + unit) \<times> 's"

definition memory_state_store :: "(string \<rightharpoonup> string) state_store" where
  "memory_state_store =
     \<lparr>ss_get = (\<lambda>key data. Inr (data key)),
      ss_set = (\<lambda>key value data. (Inr (), data(key \<mapsto> value))),
      ss_delete = (\<lambda>key data. (Inr (), data(key := None)))\<rparr>"

text \<open>The store over a database, here the in-memory backend, whose operations do not fail.\<close>

definition rtdb_state_store :: "memory_rtdb state_store" where
  "rtdb_state_store =
     \<lparr>ss_get = (\<lambda>key db. Inr (mem_get key db)),
      ss_set = (\<lambda>key value db. (Inr (), mem_set key value db)),
      ss_delete = (\<lambda>key db. (Inr (), snd (mem_del key db)))\<rparr>"

section \<open>States\<close>

record integrate_state =
  is_last_ts :: f64
  is_accumulated :: f64

record moving_avg_state =
  ma_values :: "f64 list"
  ma_position :: usize
  ma_count :: usize

record rate_of_change_state =
  roc_last_ts :: f64
  roc_last_value :: f64

record period_delta_state =
  pd_snapshot :: f64
  pd_period_start_ts :: i64

definition moving_avg_new :: "usize \<Rightarrow> moving_avg_state" where
  "moving_avg_new window_size =
     \<lparr>ma_values = replicate (max window_size 1) f64_zero, ma_position = 0, ma_count = 0\<rparr>"

definition ma_average :: "moving_avg_state \<Rightarrow> f64" where
  "ma_average st =
     (if ma_count st = 0 \<or> ma_values st = [] then f64_zero
      else let n = min (ma_count st) (length (ma_values st))
           in f64_div (f64_sum (take n (ma_values st))) (f64_of_nat n))"

definition ma_add :: "f64 \<Rightarrow> moving_avg_state \<Rightarrow> f64 \<times> moving_avg_state" where
  "ma_add v st =
     (let st = (if ma_values st = [] then \<lparr>ma_values = [f64_zero], ma_position = 0, ma_count = 0\<rparr> else st);
          n = length (ma_values st);
          pos = ma_position st mod n;
          st = \<lparr>ma_values = (ma_values st)[pos := v], ma_position = (pos + 1) mod n,
                ma_count = (if ma_count st < n then ma_count st + 1 else ma_count st)\<rparr>
      in (ma_average st, st))"

definition state_key :: "string \<Rightarrow> string \<Rightarrow> string \<Rightarrow> string" where
  "state_key context fn var = ''calc:state:'' @ context @ '':'' @ fn @ '':'' @ var"

section \<open>Built-in functions\<close>

text \<open>The JSON encoding of one type of state.\<close>

record 'a serde =
  to_vec :: "'a \<Rightarrow> string option"
  from_slice :: "string \<Rightarrow> 'a option"

record calc_serde =
  sd_integrate :: "integrate_state serde"
  sd_moving_avg :: "moving_avg_state serde"
  sd_rate :: "rate_of_change_state serde"
  sd_period :: "period_delta_state serde"

definition load_state :: "'s state_store \<Rightarrow> 'a serde \<Rightarrow> string \<Rightarrow> 's \<Rightarrow> calc_error + 'a option" where
  "load_state st sd key s =
     (case ss_get st key s of
        Inl e \<Rightarrow> Inl e
      | Inr None \<Rightarrow> Inr None
      | Inr (Some data) \<Rightarrow>
          (case from_slice sd data of
             None \<Rightarrow> Inl (State_Error ''Failed to deserialize state'')
           | Some x \<Rightarrow> Inr (Some x)))"

definition save_state :: "'s state_store \<Rightarrow> 'a serde \<Rightarrow> string \<Rightarrow> 'a \<Rightarrow> f64 \<Rightarrow> 's \<Rightarrow> (calc_error + f64) \<times> 's" where
  "save_state st sd key x result s =
     (case to_vec sd x of
        None \<Rightarrow> (Inl (State_Error ''Failed to serialize state''), s)
      | Some data \<Rightarrow>
          (case ss_set st key data s of
             (Inl e, s') \<Rightarrow> (Inl e, s')
           | (Inr _, s') \<Rightarrow> (Inr result, s')))"

definition integrate ::
  "'s state_store \<Rightarrow> integrate_state serde \<Rightarrow> string \<Rightarrow> i64 \<Rightarrow> string \<Rightarrow> f64 \<Rightarrow> f64 \<Rightarrow> 's \<Rightarrow> (calc_error + f64) \<times> 's"
where
  "integrate st sd context now var value factor s =
     (let key = state_key context ''integrate'' var; now = i64_as_f64 now in
      case load_state st sd key s of
        Inl e \<Rightarrow> (Inl e, s)
      | Inr None \<Rightarrow> save_state st sd key \<lparr>is_last_ts = now, is_accumulated = f64_zero\<rparr> f64_zero s
      | Inr (Some x) \<Rightarrow>
          (let dt = f64_sub now (is_last_ts x) in
           if f64_le dt f64_zero then (Inr (is_accumulated x), s)
           else
             let acc = f64_add (is_accumulated x) (f64_mul (f64_mul value dt) factor)
             in save_state st sd key \<lparr>is_last_ts = now, is_accumulated = acc\<rparr> acc s))"

definition moving_avg ::
  "'s state_store \<Rightarrow> moving_avg_state serde \<Rightarrow> string \<Rightarrow> string \<Rightarrow> f64 \<Rightarrow> usize \<Rightarrow> 's \<Rightarrow> (calc_error + f64) \<times> 's"
where
  "moving_avg st sd context var value window s =
     (if window = 0 then (Inl (Function_Error ''moving_avg: window must be >= 1 (got 0)''), s)
      else
        let key = state_key context ''moving_avg'' var in
        case load_state st sd key s of
          Inl e \<Rightarrow> (Inl e, s)
        | Inr old \<Rightarrow>
            (let x = (case old of
                        Some x \<Rightarrow> if length (ma_values x) \<noteq> window then moving_avg_new window else x
                      | None \<Rightarrow> moving_avg_new window);
                 (avg, x') = ma_add value x
             in save_state st sd key x' avg s))"

definition rate_of_change ::
  "'s state_store \<Rightarrow> rate_of_change_state serde \<Rightarrow> string \<Rightarrow> i64 \<Rightarrow> string \<Rightarrow> f64 \<Rightarrow> 's \<Rightarrow> (calc_error + f64) \<times> 's"
where
  "rate_of_change st sd context now var value s =
     (let key = state_key context ''rate'' var; now = i64_as_f64 now;
          new = \<lparr>roc_last_ts = now, roc_last_value = value\<rparr> in
      case load_state st sd key s of
        Inl e \<Rightarrow> (Inl e, s)
      | Inr None \<Rightarrow> save_state st sd key new f64_nan s
      | Inr (Some x) \<Rightarrow>
          (let dt = f64_sub now (roc_last_ts x);
               rate = (if f64_less f64_zero dt then f64_div (f64_sub value (roc_last_value x)) dt else f64_nan)
           in save_state st sd key new rate s))"

text \<open>\<open>period_start now period\<close> is the start of the calendar period that holds \<open>now\<close>, in seconds.\<close>

definition period_delta ::
  "'s state_store \<Rightarrow> period_delta_state serde \<Rightarrow> (i64 \<Rightarrow> string \<Rightarrow> i64) \<Rightarrow> string \<Rightarrow> i64 \<Rightarrow> string \<Rightarrow> f64 \<Rightarrow> string \<Rightarrow>
     's \<Rightarrow> (calc_error + f64) \<times> 's"
where
  "period_delta st sd period_start context now var value period s =
     (let key = state_key context ''period_delta'' (var @ ''_'' @ period) in
      case load_state st sd key s of
        Inl e \<Rightarrow> (Inl e, s)
      | Inr None \<Rightarrow>
          save_state st sd key \<lparr>pd_snapshot = value, pd_period_start_ts = period_start now period\<rparr> f64_nan s
      | Inr (Some x) \<Rightarrow>
          (let start = period_start now period;
               x = (if sint (pd_period_start_ts x) < sint start
                    then \<lparr>pd_snapshot = value, pd_period_start_ts = start\<rparr> else x);
               x = (if f64_less value (pd_snapshot x) then x\<lparr>pd_snapshot := value\<rparr> else x)
           in save_state st sd key x (f64_sub value (pd_snapshot x)) s))"

definition calc_scale :: "f64 \<Rightarrow> f64 \<Rightarrow> f64" where
  "calc_scale value factor = f64_mul value factor"

definition calc_clamp :: "f64 \<Rightarrow> f64 \<Rightarrow> f64 \<Rightarrow> f64" where
  "calc_clamp value mn mx =
     (if f64_is_nan mn \<or> f64_is_nan mx then value
      else let (lo, hi) = (if f64_le mn mx then (mn, mx) else (mx, mn))
           in if f64_less value lo then lo else if f64_less hi value then hi else value)"

definition calc_round :: "(int \<Rightarrow> f64) \<Rightarrow> f64 \<Rightarrow> int \<Rightarrow> f64" where
  "calc_round powi10 value decimals =
     (let factor = powi10 decimals in f64_div (f64_round_int (f64_mul value factor)) factor)"

definition calc_sign :: "f64 \<Rightarrow> f64" where
  "calc_sign value =
     (if f64_less f64_zero value then f64_one else if f64_less value f64_zero then f64_neg f64_one else f64_zero)"

section \<open>Evaluation of formulas\<close>

datatype ee_value = VString string | VFloat f64 | VInt i64 | VBoolean bool | VTuple "ee_value list" | VEmpty

datatype ee_error = Expected_Number ee_value | Wrong_Argument_Amount usize usize | Custom_Message string
  | Expected_Int ee_value | Engine_Error string

definition ee_to_f64 :: "ee_value \<Rightarrow> ee_error + f64" where
  "ee_to_f64 v = (case v of VFloat f \<Rightarrow> Inr f | VInt i \<Rightarrow> Inr (i64_as_f64 i) | _ \<Rightarrow> Inl (Expected_Number v))"

definition arg_count :: "ee_value \<Rightarrow> usize" where
  "arg_count args = (case args of VTuple t \<Rightarrow> length t | VEmpty \<Rightarrow> 0 | _ \<Rightarrow> 1)"

definition args2 :: "ee_value \<Rightarrow> ee_error + ee_value \<times> ee_value" where
  "args2 args =
     (case args of
        VTuple [a, b] \<Rightarrow> Inr (a, b)
      | _ \<Rightarrow> Inl (Wrong_Argument_Amount (arg_count args) 2))"

definition args3 :: "ee_value \<Rightarrow> ee_error + ee_value \<times> ee_value \<times> ee_value" where
  "args3 args =
     (case args of
        VTuple [a, b, c] \<Rightarrow> Inr (a, b, c)
      | _ \<Rightarrow> Inl (Wrong_Argument_Amount (arg_count args) 3))"

fun bind_result :: "'e + 'a \<Rightarrow> ('a \<Rightarrow> 'e + 'b) \<Rightarrow> 'e + 'b" where
  "bind_result (Inl e) f = Inl e"
| "bind_result (Inr x) f = f x"

definition ee_fun1 :: "(f64 \<Rightarrow> f64) \<Rightarrow> ee_value \<Rightarrow> ee_error + ee_value" where
  "ee_fun1 f args = bind_result (ee_to_f64 args) (\<lambda>v. Inr (VFloat (f v)))"

definition ee_fun2 :: "(f64 \<Rightarrow> f64 \<Rightarrow> f64) \<Rightarrow> ee_value \<Rightarrow> ee_error + ee_value" where
  "ee_fun2 f args =
     bind_result (args2 args) (\<lambda>(a, b).
       bind_result (ee_to_f64 a) (\<lambda>x. bind_result (ee_to_f64 b) (\<lambda>y. Inr (VFloat (f x y)))))"

definition ee_clamp :: "ee_value \<Rightarrow> ee_error + ee_value" where
  "ee_clamp args =
     bind_result (args3 args) (\<lambda>(a, b, c).
       bind_result (ee_to_f64 a) (\<lambda>value. bind_result (ee_to_f64 b) (\<lambda>mn. bind_result (ee_to_f64 c) (\<lambda>mx.
         if f64_is_nan mn \<or> f64_is_nan mx \<or> f64_less mx mn then Inl (Custom_Message ''clamp: invalid range'')
         else Inr (VFloat (calc_clamp value mn mx))))))"

definition ee_round :: "(int \<Rightarrow> f64) \<Rightarrow> ee_value \<Rightarrow> ee_error + ee_value" where
  "ee_round powi10 args =
     bind_result (args2 args) (\<lambda>(a, b).
       bind_result (ee_to_f64 a) (\<lambda>value.
         case b of
           VInt i \<Rightarrow> Inr (VFloat (calc_round powi10 value (max (- (2 ^ 31)) (min (2 ^ 31 - 1) (sint i)))))
         | _ \<Rightarrow> Inl (Expected_Int b)))"

text \<open>The functions a formula may call.\<close>

definition stateless_functions :: "(int \<Rightarrow> f64) \<Rightarrow> string \<rightharpoonup> (ee_value \<Rightarrow> ee_error + ee_value)" where
  "stateless_functions powi10 =
     [''scale'' \<mapsto> ee_fun2 calc_scale, ''clamp'' \<mapsto> ee_clamp, ''abs'' \<mapsto> ee_fun1 f64_abs,
      ''min'' \<mapsto> ee_fun2 f64_min, ''max'' \<mapsto> ee_fun2 f64_max, ''round'' \<mapsto> ee_round powi10,
      ''sign'' \<mapsto> ee_fun1 calc_sign]"

definition value_to_f64 :: "ee_value \<Rightarrow> string \<Rightarrow> calc_error + f64" where
  "value_to_f64 v formula =
     (case v of
        VFloat f \<Rightarrow> Inr f
      | VInt i \<Rightarrow> Inr (i64_as_f64 i)
      | VBoolean b \<Rightarrow> Inr (if b then f64_one else f64_zero)
      | _ \<Rightarrow> Inl (Expression_Error (''Expression did not evaluate to a number: '' @ formula)))"

text \<open>
  What the library takes from other packages: \<open>ce_eval\<close> evaluates an expression with given variables and
  functions; \<open>ce_integrate\<close>, \<open>ce_moving_avg\<close> and \<open>ce_rate\<close> list the matches of the three patterns, from the
  left, with their range and captures, or are \<open>None\<close> when the pattern does not compile; \<open>ce_display\<close> prints a
  float.
\<close>

record calc_env =
  ce_eval :: "string \<Rightarrow> (string \<rightharpoonup> f64) \<Rightarrow> (string \<rightharpoonup> (ee_value \<Rightarrow> ee_error + ee_value)) \<Rightarrow> ee_error + ee_value"
  ce_powi10 :: "int \<Rightarrow> f64"
  ce_integrate :: "(string \<Rightarrow> (usize \<times> usize \<times> string \<times> string option) list) option"
  ce_moving_avg :: "(string \<Rightarrow> (usize \<times> usize \<times> string \<times> string) list) option"
  ce_rate :: "(string \<Rightarrow> (usize \<times> usize \<times> string) list) option"
  ce_display :: "f64 \<Rightarrow> string"
  ce_serde :: calc_serde
  ce_period_start :: "i64 \<Rightarrow> string \<Rightarrow> i64"

definition evaluate_simple :: "calc_env \<Rightarrow> string \<Rightarrow> (string \<rightharpoonup> f64) \<Rightarrow> calc_error + f64" where
  "evaluate_simple env formula vars =
     (case ce_eval env formula vars (stateless_functions (ce_powi10 env)) of
        Inl e \<Rightarrow> Inl (Expression_Error (''Failed to evaluate '' @ formula))
      | Inr v \<Rightarrow> value_to_f64 v formula)"

text \<open>\<open>result.replace_range(range, text)\<close>.\<close>

definition replace_range :: "string \<Rightarrow> usize \<Rightarrow> usize \<Rightarrow> string \<Rightarrow> string outcome" where
  "replace_range s i j new = (if i \<le> j \<and> j \<le> length s then Ret (take i s @ new @ drop j s) else Panic)"

text \<open>
  The calls found, in reverse order: look up the variable, compute, put the printed result in place.  The
  clock is read once for each call: \<open>clock fn i\<close> for the call of \<open>fn\<close> at position \<open>i\<close>.
\<close>

fun replace_calls ::
  "(f64 \<Rightarrow> string) \<Rightarrow> string \<Rightarrow> (string \<rightharpoonup> f64) \<Rightarrow> (usize \<Rightarrow> string \<Rightarrow> f64 \<Rightarrow> 'a \<Rightarrow> 's \<Rightarrow> (calc_error + f64) \<times> 's) \<Rightarrow>
     (usize \<times> usize \<times> string \<times> 'a) list \<Rightarrow> string \<Rightarrow> 's \<Rightarrow> ((calc_error + string) \<times> 's) outcome"
where
  "replace_calls disp fn vars call [] formula s = Ret (Inr formula, s)"
| "replace_calls disp fn vars call ((i, j, var, a) # ms) formula s =
     (case vars var of
        None \<Rightarrow> Ret (Inl (Variable_Not_Found (fn @ '': '' @ var)), s)
      | Some v \<Rightarrow>
          (case call i var v a s of
             (Inl e, s') \<Rightarrow> Ret (Inl e, s')
           | (Inr x, s') \<Rightarrow>
               bind_outcome (replace_range formula i j (disp x))
                 (\<lambda>formula'. replace_calls disp fn vars call ms formula' s')))"

definition stateful_regex :: "string \<Rightarrow> 'm option \<Rightarrow> calc_error + 'm" where
  "stateful_regex name re =
     (case re of Some m \<Rightarrow> Inr m | None \<Rightarrow> Inl (Function_Error (name @ '' regex failed to compile'')))"

definition process_integrate ::
  "calc_env \<Rightarrow> 's state_store \<Rightarrow> string \<Rightarrow> (string \<Rightarrow> usize \<Rightarrow> i64) \<Rightarrow> string \<Rightarrow> (string \<rightharpoonup> f64) \<Rightarrow> 's \<Rightarrow> ((calc_error + string) \<times> 's) outcome"
where
  "process_integrate env st context clock formula vars s =
     (case stateful_regex ''integrate'' (ce_integrate env) of
        Inl e \<Rightarrow> Ret (Inl e, s)
      | Inr matches \<Rightarrow>
          replace_calls (ce_display env) ''integrate'' vars
            (\<lambda>i var v factor. integrate st (sd_integrate (ce_serde env)) context (clock ''integrate'' i) var v factor)
            (rev (map (\<lambda>(i, j, var, arg).
               (i, j, var, (case arg of None \<Rightarrow> f64_one
                            | Some a \<Rightarrow> (case parse_f64 a of Some f \<Rightarrow> f | None \<Rightarrow> f64_one)))) (matches formula)))
            formula s)"

text \<open>\<open>s.parse::<usize>()\<close> on a string of digits.\<close>

definition parse_usize :: "string \<Rightarrow> usize option" where
  "parse_usize s =
     (if s = [] \<or> \<not> list_all is_digit s \<or> digits_val s \<ge> 2 ^ 64 then None else Some (digits_val s))"

definition process_moving_avg ::
  "calc_env \<Rightarrow> 's state_store \<Rightarrow> string \<Rightarrow> string \<Rightarrow> (string \<rightharpoonup> f64) \<Rightarrow> 's \<Rightarrow> ((calc_error + string) \<times> 's) outcome"
where
  "process_moving_avg env st context formula vars s =
     (case stateful_regex ''moving_avg'' (ce_moving_avg env) of
        Inl e \<Rightarrow> Ret (Inl e, s)
      | Inr matches \<Rightarrow>
          replace_calls (ce_display env) ''moving_avg'' vars
            (\<lambda>_ var v window. moving_avg st (sd_moving_avg (ce_serde env)) context var v window)
            (rev (List.map_filter (\<lambda>(i, j, var, w).
               map_option (\<lambda>window. (i, j, var, window)) (parse_usize w)) (matches formula)))
            formula s)"

definition process_rate_of_change ::
  "calc_env \<Rightarrow> 's state_store \<Rightarrow> string \<Rightarrow> (string \<Rightarrow> usize \<Rightarrow> i64) \<Rightarrow> string \<Rightarrow> (string \<rightharpoonup> f64) \<Rightarrow> 's \<Rightarrow> ((calc_error + string) \<times> 's) outcome"
where
  "process_rate_of_change env st context clock formula vars s =
     (case stateful_regex ''rate_of_change'' (ce_rate env) of
        Inl e \<Rightarrow> Ret (Inl e, s)
      | Inr matches \<Rightarrow>
          replace_calls (ce_display env) ''rate_of_change'' vars
            (\<lambda>i var v _. rate_of_change st (sd_rate (ce_serde env)) context (clock ''rate'' i) var v)
            (rev (map (\<lambda>(i, j, var). (i, j, var, ())) (matches formula)))
            formula s)"

definition process_stateful_functions ::
  "calc_env \<Rightarrow> 's state_store \<Rightarrow> string \<Rightarrow> (string \<Rightarrow> usize \<Rightarrow> i64) \<Rightarrow> string \<Rightarrow> (string \<rightharpoonup> f64) \<Rightarrow> 's \<Rightarrow> ((calc_error + string) \<times> 's) outcome"
where
  "process_stateful_functions env st context clock formula vars s =
     bind_outcome (process_integrate env st context clock formula vars s) (\<lambda>(r1, s1).
       case r1 of Inl e \<Rightarrow> Ret (Inl e, s1) | Inr f1 \<Rightarrow>
         bind_outcome (process_moving_avg env st context f1 vars s1) (\<lambda>(r2, s2).
           case r2 of Inl e \<Rightarrow> Ret (Inl e, s2) | Inr f2 \<Rightarrow>
             process_rate_of_change env st context clock f2 vars s2))"

definition evaluate ::
  "calc_env \<Rightarrow> 's state_store \<Rightarrow> string \<Rightarrow> (string \<Rightarrow> usize \<Rightarrow> i64) \<Rightarrow> string \<Rightarrow> (string \<rightharpoonup> f64) \<Rightarrow> 's \<Rightarrow> ((calc_error + f64) \<times> 's) outcome"
where
  "evaluate env st context clock formula vars s =
     bind_outcome (process_stateful_functions env st context clock formula vars s) (\<lambda>(r, s').
       case r of Inl e \<Rightarrow> Ret (Inl e, s') | Inr f \<Rightarrow> Ret (evaluate_simple env f vars, s'))"

section \<open>State stores keep what was saved\<close>

locale lawful_store =
  fixes st :: "'s state_store"
  assumes set_ok: "\<exists>s'. ss_set st k v s = (Inr (), s')"
    and get_set: "ss_set st k v s = (Inr (), s') \<Longrightarrow> ss_get st k' s' = (if k' = k then Inr (Some v) else ss_get st k' s)"
begin

lemma save_then_load:
  assumes "save_state st sd key x r s = (Inr r', s')"
  shows "r' = r \<and> (\<exists>data. to_vec sd x = Some data \<and>
    load_state st sd key s' =
      (case from_slice sd data of None \<Rightarrow> Inl (State_Error ''Failed to deserialize state'') | Some y \<Rightarrow> Inr (Some y)))"
proof -
  obtain data where d: "to_vec sd x = Some data"
    using assms by (auto simp: save_state_def split: option.splits)
  obtain s1 where s1: "ss_set st key data s = (Inr (), s1)"
    using set_ok by blast
  have "r' = r" "s' = s1"
    using assms d s1 by (simp_all add: save_state_def)
  then show ?thesis
    using d get_set [OF s1, of key] by (simp add: load_state_def)
qed

lemma save_frame:
  assumes "save_state st sd key x r s = (res, s')" "key' \<noteq> key"
  shows "load_state st sd' key' s' = load_state st sd' key' s"
proof (cases "to_vec sd x")
  case None
  then show ?thesis using assms by (simp add: save_state_def)
next
  case (Some data)
  obtain s1 where s1: "ss_set st key data s = (Inr (), s1)"
    using set_ok by blast
  then show ?thesis
    using assms Some get_set [OF s1, of key'] by (simp add: load_state_def save_state_def)
qed

text \<open>
  A state that does not decode makes every later call fail, and the failing call keeps it.
\<close>

lemma integrate_stuck:
  assumes "load_state st sd (state_key context ''integrate'' var) s = Inl e"
  shows "integrate st sd context now var v f s = (Inl e, s)"
  using assms by (simp add: integrate_def)

lemma integrate_saves:
  assumes "integrate st sd context now var v f s = (Inr r, s')" "r \<noteq> f64_zero"
  shows "(\<exists>x. load_state st sd (state_key context ''integrate'' var) s = Inr (Some x) \<and> r = is_accumulated x) \<or>
    (\<exists>x data. is_accumulated x = r \<and> to_vec sd x = Some data \<and>
       load_state st sd (state_key context ''integrate'' var) s' =
        (case from_slice sd data of None \<Rightarrow> Inl (State_Error ''Failed to deserialize state'') | Some y \<Rightarrow> Inr (Some y)))"
proof (cases "load_state st sd (state_key context ''integrate'' var) s")
  case (Inl e)
  then show ?thesis using assms by (simp add: integrate_def)
next
  case (Inr old)
  show ?thesis
  proof (cases old)
    case None
    then show ?thesis using assms Inr save_then_load by (fastforce simp: integrate_def Let_def)
  next
    case (Some x)
    show ?thesis
    proof (cases "f64_le (f64_sub (i64_as_f64 now) (is_last_ts x)) f64_zero")
      case True
      then show ?thesis using assms Inr Some by (simp add: integrate_def Let_def)
    next
      case False
      let ?acc = "f64_add (is_accumulated x)
        (f64_mul (f64_mul v (f64_sub (i64_as_f64 now) (is_last_ts x))) f)"
      let ?x = "\<lparr>is_last_ts = i64_as_f64 now, is_accumulated = ?acc\<rparr>"
      have "save_state st sd (state_key context ''integrate'' var) ?x ?acc s = (Inr r, s')"
        using assms(1) Inr Some False by (simp add: integrate_def Let_def)
      from save_then_load [OF this] show ?thesis
        by (intro disjI2 exI [of _ ?x]) auto
    qed
  qed
qed

end

interpretation ms: lawful_store memory_state_store
  by unfold_locales (auto simp: memory_state_store_def)

interpretation rs: lawful_store rtdb_state_store
  by unfold_locales (auto simp: rtdb_state_store_def mem_get_def mem_set_def update_conv')

section \<open>The moving average\<close>

definition ma_feed :: "usize \<Rightarrow> f64 list \<Rightarrow> moving_avg_state" where
  "ma_feed w xs = fold (\<lambda>v st. snd (ma_add v st)) xs (moving_avg_new w)"

definition ma_holds :: "usize \<Rightarrow> f64 list \<Rightarrow> moving_avg_state \<Rightarrow> bool" where
  "ma_holds w xs st \<longleftrightarrow>
     length (ma_values st) = w \<and> ma_position st = length xs mod w \<and> ma_count st = min (length xs) w \<and>
     (\<forall>j < length xs. length xs \<le> j + w \<longrightarrow> ma_values st ! (j mod w) = xs ! j)"

lemma mod_window_eq:
  assumes "i mod w = j mod w" "i \<le> j" "j < i + w"
  shows "i = (j::nat)"
proof -
  have "(j - i) mod w = 0" using assms by (metis mod_eq_dvd_iff_nat dvd_imp_mod_0)
  then show ?thesis using assms by auto
qed

lemma ma_holds_add:
  assumes "ma_holds w xs st" "w > 0"
  shows "ma_holds w (xs @ [v]) (snd (ma_add v st))"
proof -
  have ne: "ma_values st \<noteq> []" using assms by (auto simp: ma_holds_def)
  have vals: "ma_values (snd (ma_add v st)) = (ma_values st)[length xs mod w := v]"
    using assms ne by (simp add: ma_add_def Let_def ma_holds_def)
  have "(ma_values st)[length xs mod w := v] ! (j mod w) = (xs @ [v]) ! j"
    if "j < Suc (length xs)" "Suc (length xs) \<le> j + w" for j
  proof (cases "j = length xs")
    case True
    then show ?thesis using assms by (simp add: ma_holds_def)
  next
    case False
    then have "j mod w \<noteq> length xs mod w"
      using mod_window_eq [of j w "length xs"] that by auto
    then show ?thesis using assms that False by (simp add: ma_holds_def nth_append)
  qed
  then show ?thesis
    using assms ne vals by (auto simp: ma_holds_def ma_add_def Let_def mod_Suc_eq)
qed

lemma ma_feed_holds: "w > 0 \<Longrightarrow> ma_holds w xs (ma_feed w xs)"
proof (induction xs rule: rev_induct)
  case Nil
  then show ?case by (simp add: ma_feed_def ma_holds_def moving_avg_new_def)
next
  case (snoc v xs)
  then show ?case using ma_holds_add [of w xs "ma_feed w xs" v] by (simp add: ma_feed_def)
qed

text \<open>The cells in use are a permutation of the newest values.\<close>

lemma ma_holds_newest:
  assumes "ma_holds w xs st" "w > 0"
  shows "mset (take (ma_count st) (ma_values st)) = mset (drop (length xs - w) xs)"
proof -
  let ?n = "length xs" let ?lo = "?n - w"
  have bij: "bij_betw (\<lambda>j. j mod w) {?lo..<?n} {0..<min ?n w}"
  proof (rule bij_betw_imageI)
    show inj: "inj_on (\<lambda>j. j mod w) {?lo..<?n}"
    proof (rule inj_onI)
      fix i j assume ij: "i \<in> {?lo..<?n}" "j \<in> {?lo..<?n}" "i mod w = j mod w"
      then have "j < i + w" "i < j + w" by simp_all linarith+
      then show "i = j"
        using ij(3) mod_window_eq [of i w j] mod_window_eq [of j w i] by (metis nat_le_linear)
    qed
    have sub: "(\<lambda>j. j mod w) ` {?lo..<?n} \<subseteq> {0..<min ?n w}"
      using assms(2) by (auto intro: le_less_trans [OF mod_less_eq_dividend])
    have "card ((\<lambda>j. j mod w) ` {?lo..<?n}) = card {0..<min ?n w}"
      using inj by (simp add: card_image)
    then show "(\<lambda>j. j mod w) ` {?lo..<?n} = {0..<min ?n w}"
      using sub by (simp add: card_subset_eq)
  qed
  have t: "take (ma_count st) (ma_values st) = map (\<lambda>i. ma_values st ! i) [0..<min ?n w]"
    using assms by (intro nth_equalityI) (auto simp: ma_holds_def)
  have d: "drop ?lo xs = map (\<lambda>j. xs ! j) [?lo..<?n]"
    by (intro nth_equalityI) simp_all
  have "mset (map (\<lambda>i. ma_values st ! i) [0..<min ?n w]) =
      image_mset (\<lambda>i. ma_values st ! i) (mset_set {0..<min ?n w})"
    by (simp add: mset_upt)
  also have "mset_set {0..<min ?n w} = image_mset (\<lambda>j. j mod w) (mset_set {?lo..<?n})"
    using bij by (simp add: bij_betw_def image_mset_mset_set)
  also have "image_mset (\<lambda>i. ma_values st ! i) \<dots> = image_mset (\<lambda>j. xs ! j) (mset_set {?lo..<?n})"
    using assms by (auto simp: ma_holds_def multiset.map_comp intro!: image_mset_cong)
  also have "\<dots> = mset (map (\<lambda>j. xs ! j) [?lo..<?n])"
    by (simp add: mset_upt)
  finally show ?thesis by (simp only: t d)
qed

section \<open>Replacing calls never runs out of the formula\<close>

text \<open>Ranges that follow each other, from \<open>lo\<close> to at most \<open>n\<close>.\<close>

fun spans_chained :: "usize \<Rightarrow> (usize \<times> usize) list \<Rightarrow> usize \<Rightarrow> bool" where
  "spans_chained lo [] n \<longleftrightarrow> lo \<le> n"
| "spans_chained lo ((i, j) # rs) n \<longleftrightarrow> lo \<le> i \<and> i \<le> j \<and> spans_chained j rs n"

text \<open>What \<open>captures_iter\<close> documents: matches do not overlap and come from the left.\<close>

definition regex_ranges :: "calc_env \<Rightarrow> bool" where
  "regex_ranges env \<longleftrightarrow>
     (\<forall>f m. ce_integrate env = Some m \<longrightarrow> spans_chained 0 (map (\<lambda>(i, j, _). (i, j)) (m f)) (length f)) \<and>
     (\<forall>f m. ce_moving_avg env = Some m \<longrightarrow> spans_chained 0 (map (\<lambda>(i, j, _). (i, j)) (m f)) (length f)) \<and>
     (\<forall>f m. ce_rate env = Some m \<longrightarrow> spans_chained 0 (map (\<lambda>(i, j, _). (i, j)) (m f)) (length f))"

lemma spans_chained_snoc: "spans_chained lo (rs @ [(i, j)]) n \<longleftrightarrow> spans_chained lo rs i \<and> i \<le> j \<and> j \<le> n"
  by (induction rs arbitrary: lo) auto

lemma spans_chained_mono: "spans_chained lo rs n \<Longrightarrow> lo' \<le> lo \<Longrightarrow> n \<le> n' \<Longrightarrow> spans_chained lo' rs n'"
proof (induction rs arbitrary: lo lo')
  case (Cons r rs)
  then show ?case by (cases r) (auto dest: Cons.IH [where lo' = "snd r"])
qed simp

lemma spans_chained_filter:
  assumes "\<And>x y. f x = Some y \<Longrightarrow> rng' y = rng x"
  shows "spans_chained lo (map rng xs) n \<Longrightarrow> spans_chained lo (map rng' (List.map_filter f xs)) n"
proof (induction xs arbitrary: lo)
  case (Cons x xs)
  obtain i j where r: "rng x = (i, j)" by fastforce
  then have "spans_chained j (map rng' (List.map_filter f xs)) n" "lo \<le> i" "i \<le> j" using Cons by auto
  then show ?case
    using assms [of x] r by (cases "f x") (auto simp: List.map_filter_simps intro: spans_chained_mono)
qed (simp add: List.map_filter_simps)

lemma replace_calls_returns:
  "spans_chained lo (map (\<lambda>(i, j, _). (i, j)) ms) (length formula) \<Longrightarrow>
   replace_calls disp fn vars call (rev ms) formula s \<noteq> Panic"
proof (induction ms arbitrary: formula s rule: rev_induct)
  case (snoc m ms)
  obtain i j var a where m: "m = (i, j, var, a)" by (metis prod_cases4)
  have c: "spans_chained lo (map (\<lambda>(i, j, _). (i, j)) ms) i" "i \<le> j" "j \<le> length formula"
    using snoc.prems m by (simp_all add: spans_chained_snoc)
  have "replace_calls disp fn vars call (rev ms) (take i formula @ t @ drop j formula) s' \<noteq> Panic" for t s'
    using c by (intro snoc.IH spans_chained_mono [OF c(1)]) auto
  then show ?case
    using c by (auto simp: m replace_range_def split: option.split prod.split sum.split)
qed simp

lemma evaluate_returns:
  assumes "regex_ranges env"
  shows "evaluate env st context clock formula vars s \<noteq> Panic"
proof -
  have p1: "process_integrate env st context clock f vars s \<noteq> Panic" for f s
  proof (cases "ce_integrate env")
    case (Some m)
    have "spans_chained 0 (map (\<lambda>(i, j, _). (i, j)) (m f)) (length f)"
      using assms Some by (simp add: regex_ranges_def)
    then show ?thesis
      unfolding process_integrate_def stateful_regex_def Some option.case sum.case
      by (intro replace_calls_returns [where lo = 0]) (simp add: comp_def case_prod_unfold)
  qed (simp add: process_integrate_def stateful_regex_def)
  have p2: "process_moving_avg env st context f vars s \<noteq> Panic" for f s
  proof (cases "ce_moving_avg env")
    case (Some m)
    have "spans_chained 0 (map (\<lambda>(i, j, _). (i, j)) (m f)) (length f)"
      using assms Some by (simp add: regex_ranges_def)
    then show ?thesis
      unfolding process_moving_avg_def stateful_regex_def Some option.case sum.case
      by (intro replace_calls_returns [where lo = 0] spans_chained_filter) auto
  qed (simp add: process_moving_avg_def stateful_regex_def)
  have p3: "process_rate_of_change env st context clock f vars s \<noteq> Panic" for f s
  proof (cases "ce_rate env")
    case (Some m)
    have "spans_chained 0 (map (\<lambda>(i, j, _). (i, j)) (m f)) (length f)"
      using assms Some by (simp add: regex_ranges_def)
    then show ?thesis
      unfolding process_rate_of_change_def stateful_regex_def Some option.case sum.case
      by (intro replace_calls_returns [where lo = 0]) (simp add: comp_def case_prod_unfold)
  qed (simp add: process_rate_of_change_def stateful_regex_def)
  show ?thesis
    using p1 p2 p3
    by (auto simp: evaluate_def process_stateful_functions_def outcome_simps split: sum.splits)
qed

section \<open>Differences within a period\<close>

text \<open>
  A reading that fits never gives a negative difference: a counter that went back becomes the new base.
\<close>

lemma period_delta_not_negative:
  assumes "period_delta st sd ps context now var v period s = (Inr r, s')"
    and "f64_is_finite v"
    and "\<And>x. load_state st sd (state_key context ''period_delta'' (var @ ''_'' @ period)) s = Inr (Some x) \<Longrightarrow>
      f64_is_finite (pd_snapshot x)"
  shows "f64_is_nan r \<or> \<not> f64_negative r \<or> f64_mag r = 0"
proof (cases "load_state st sd (state_key context ''period_delta'' (var @ ''_'' @ period)) s")
  case (Inl e)
  then show ?thesis using assms(1) by (simp add: period_delta_def Let_def)
next
  case (Inr old)
  have res: "r' = r" if "save_state st sd key x r' s = (Inr r, s')" for key x r'
    using that by (auto simp: save_state_def split: option.splits prod.splits sum.splits)
  show ?thesis
  proof (cases old)
    case None
    have "f64_is_nan f64_nan" by (simp add: f64_nan_def f64_class_defs)
    moreover have "r = f64_nan"
      using assms(1) Inr None res by (force simp: period_delta_def Let_def)
    ultimately show ?thesis by simp
  next
    case (Some x)
    then have fin: "f64_is_finite (pd_snapshot x)" using assms(3) Inr by simp
    let ?x1 = "if sint (pd_period_start_ts x) < sint (ps now period)
       then \<lparr>pd_snapshot = v, pd_period_start_ts = ps now period\<rparr> else x"
    let ?x2 = "if f64_less v (pd_snapshot ?x1) then ?x1\<lparr>pd_snapshot := v\<rparr> else ?x1"
    have "save_state st sd (state_key context ''period_delta'' (var @ ''_'' @ period)) ?x2
        (f64_sub v (pd_snapshot ?x2)) s = (Inr r, s')"
      using assms(1) Inr Some by (simp add: period_delta_def Let_def)
    then have r: "r = f64_sub v (pd_snapshot ?x2)" using res by metis
    have "f64_is_finite (pd_snapshot ?x2)" using fin assms(2) by simp
    moreover have "\<not> f64_less v (pd_snapshot ?x2)" by (simp add: f64_less_def)
    ultimately show ?thesis unfolding r by (intro disjI2 f64_sub_not_negative [OF assms(2)])
  qed
qed

section \<open>Properties\<close>

text \<open>The moving average over a window of \<open>w\<close> samples is, after every sample, the mean of exactly the newest
  \<open>w\<close> samples (of all of them while there are fewer), whatever the order in which the ring buffer holds them.\<close>

lemma moving_avg_of_newest:
  assumes "w > 0" "xs \<noteq> []"
  shows "\<exists>ys. mset ys = mset (drop (length xs - w) xs) \<and>
    fst (ma_add (last xs) (ma_feed w (butlast xs))) = f64_div (f64_sum ys) (f64_of_nat (min (length xs) w))"
proof -
  let ?st = "ma_feed w xs"
  have h: "ma_holds w xs ?st" using assms(1) by (rule ma_feed_holds)
  have "ma_feed w (butlast xs @ [last xs]) = snd (ma_add (last xs) (ma_feed w (butlast xs)))"
    by (simp add: ma_feed_def)
  then have "?st = snd (ma_add (last xs) (ma_feed w (butlast xs)))"
    using assms(2) by simp
  then have avg: "fst (ma_add (last xs) (ma_feed w (butlast xs))) = ma_average ?st"
    by (simp add: ma_add_def Let_def)
  have "ma_average ?st = f64_div (f64_sum (take (ma_count ?st) (ma_values ?st))) (f64_of_nat (min (length xs) w))"
    using h assms by (cases "length xs") (auto simp: ma_average_def ma_holds_def Let_def)
  then show ?thesis
    using ma_holds_newest [OF h assms(1)] avg by auto
qed

text \<open>
  What \<open>serde_json\<close> documents of floats: a number of JSON is finite, and a float that is not is written as
  \<open>null\<close>, which does not read as a number.
\<close>

definition json_floats :: "integrate_state serde \<Rightarrow> bool" where
  "json_floats sd \<longleftrightarrow>
     (\<forall>data x. from_slice sd data = Some x \<longrightarrow> f64_is_finite (is_accumulated x)) \<and>
     (\<forall>x data. to_vec sd x = Some data \<and> \<not> f64_is_finite (is_accumulated x) \<longrightarrow> from_slice sd data = None)"

text \<open>C35. A total of \<open>integrate\<close> that leaves the range of finite numbers is returned once and poisons its state: every
  later call for the variable, whatever its time, value and factor, fails and leaves the store as it is.\<close>

theorem infinite_total_poisons:
  assumes "json_floats sd"
    and "integrate memory_state_store sd context now var v f s = (Inr r, s')" "\<not> f64_is_finite r"
  shows "integrate memory_state_store sd context now' var v' f' s' =
    (Inl (State_Error ''Failed to deserialize state''), s')"
proof -
  have nz: "r \<noteq> f64_zero" using assms(3) f64_zero_facts(1) by auto
  have "load_state memory_state_store sd (state_key context ''integrate'' var) s \<noteq> Inr (Some x)"
    if "r = is_accumulated x" for x
    using assms(1,3) that by (auto simp: load_state_def json_floats_def split: sum.splits option.splits)
  then obtain x data where "is_accumulated x = r" "to_vec sd x = Some data"
      "load_state memory_state_store sd (state_key context ''integrate'' var) s' =
        (case from_slice sd data of None \<Rightarrow> Inl (State_Error ''Failed to deserialize state'') | Some y \<Rightarrow> Inr (Some y))"
    using ms.integrate_saves [OF assms(2) nz] by blast
  then show ?thesis
    using assms(1,3) by (intro ms.integrate_stuck) (auto simp: json_floats_def)
qed

definition demo_serde :: "integrate_state serde" where
  "demo_serde =
     \<lparr>to_vec = (\<lambda>x. Some (if f64_is_finite (is_accumulated x)
        then map (\<lambda>b. char_of (unat b)) (to_le 8 (is_last_ts x) @ to_le 8 (is_accumulated x)) else ''null'')),
      from_slice = (\<lambda>d. let acc = from_le (map (\<lambda>c. of_nat (of_char c)) (drop 8 d)) in
        if length d = 16 \<and> f64_is_finite acc
        then Some \<lparr>is_last_ts = from_le (map (\<lambda>c. of_nat (of_char c)) (take 8 d)), is_accumulated = acc\<rparr> else None)\<rparr>"

definition demo_calc_store :: "string \<rightharpoonup> string" where
  "demo_calc_store =
     [state_key ''rule_1'' ''integrate'' ''P'' \<mapsto>
        the (to_vec demo_serde \<lparr>is_last_ts = f64_neg f64_zero, is_accumulated = f64_zero\<rparr>)]"

lemma demo_serde_roundtrip:
  assumes "f64_is_finite (is_accumulated x)"
  shows "from_slice demo_serde (the (to_vec demo_serde x)) = Some x"
proof -
  have "map ((\<lambda>c. of_nat (of_char c)) \<circ> (\<lambda>b :: u8. char_of (unat b))) xs = xs" for xs :: "u8 list"
  proof (rule map_idI)
    fix b :: u8
    have "unat b < 256" using unsigned_less [of b] by simp
    then show "((\<lambda>c. of_nat (of_char c)) \<circ> (\<lambda>b :: u8. char_of (unat b))) b = b" by simp
  qed
  then show ?thesis
    using assms by (cases x) (simp add: demo_serde_def Let_def drop_map take_map del: to_le.simps)
qed

theorem infinite_total_poisons_witness:
  "\<exists>s'. integrate memory_state_store demo_serde ''rule_1'' 1 ''P'' (f64_infinity False) f64_one demo_calc_store =
      (Inr (f64_infinity False), s') \<and>
    integrate memory_state_store demo_serde ''rule_1'' 2 ''P'' f64_one f64_one s' =
      (Inl (State_Error ''Failed to deserialize state''), s')"
proof -
  let ?x = "\<lparr>is_last_ts = f64_neg f64_zero, is_accumulated = f64_zero\<rparr>"
  have js: "json_floats demo_serde"
    by (auto simp: json_floats_def demo_serde_def Let_def split: if_splits)
  have one: "i64_as_f64 1 = f64_one"
    by (simp add: i64_as_f64_def f64_of_int_def f64_of_nat_def bit_width.simps f64_one_def)
  have load: "load_state memory_state_store demo_serde (state_key ''rule_1'' ''integrate'' ''P'') demo_calc_store = Inr (Some ?x)"
    using demo_serde_roundtrip [of ?x] f64_zero_facts(1)
    by (simp add: load_state_def memory_state_store_def demo_calc_store_def)
  have dt: "f64_sub f64_one (f64_neg f64_zero) = f64_one"
    by (simp add: f64_sub_def f64_add_zero f64_one_facts)
  have pos: "\<not> f64_le f64_one f64_zero"
    by (simp add: f64_le_finite f64_one_facts f64_zero_facts f64_value_def)
  have mul: "f64_mul (f64_infinity False) f64_one = f64_infinity False"
    using f64_infinity_mul [of f64_one False] by (simp add: f64_one_facts)
  have add: "f64_add f64_zero (f64_infinity False) = f64_infinity False"
    using nan_not_finite [of f64_zero] by (auto simp: f64_add_def f64_infinity_facts f64_zero_facts)
  have run: "fst (integrate memory_state_store demo_serde ''rule_1'' 1 ''P'' (f64_infinity False) f64_one demo_calc_store) =
      Inr (f64_infinity False)"
    by (simp add: integrate_def Let_def one load dt pos mul add)
      (simp add: save_state_def demo_serde_def memory_state_store_def)
  obtain s' where "integrate memory_state_store demo_serde ''rule_1'' 1 ''P'' (f64_infinity False) f64_one demo_calc_store =
      (Inr (f64_infinity False), s')"
    using run by (metis prod.collapse)
  with infinite_total_poisons [OF js this] f64_infinity_facts(2) show ?thesis by blast
qed

end
