(* ===== verification/Rule_Engine.thy ===== *)
theory Rule_Engine
  imports Action_Route Calc
begin

text \<open>
  The rule engine, \<open>libs/voltage-rules\<close>: the flow graphs of \<open>types.rs\<close>, the conditions and their printed form
  (\<open>executor.rs\<close>, \<open>logger.rs\<close>, \<open>formula.rs\<close>), reading of variables, actions, and the work-queue execution of a
  flow of \<open>executor.rs\<close>.  JSON values are the documented data of \<open>serde_json\<close>, their printed form a parameter,
  as are the expression engine, the shared-memory reader, the results of database reads, the action dispatch
  and the clock.  Writes go to the in-memory database.
\<close>

section \<open>Flows\<close>

datatype json_number = PosInt u64 | NegInt i64 | JFloat f64

datatype json =
    JNull | JBool bool | JNumber json_number | JString string | JArray "json list" | JObject "(string \<times> json) list"

definition json_as_f64 :: "json \<Rightarrow> f64 option" where
  "json_as_f64 v =
     (case v of
        JNumber (PosInt n) \<Rightarrow> Some (f64_of_nat (unat n))
      | JNumber (NegInt i) \<Rightarrow> Some (i64_as_f64 i)
      | JNumber (JFloat f) \<Rightarrow> Some f
      | _ \<Rightarrow> None)"

definition json_as_i64 :: "json \<Rightarrow> i64 option" where
  "json_as_i64 v =
     (case v of
        JNumber (PosInt n) \<Rightarrow> if unat n < 2 ^ 63 then Some n else None
      | JNumber (NegInt i) \<Rightarrow> Some i
      | _ \<Rightarrow> None)"

definition json_as_str :: "json \<Rightarrow> string option" where
  "json_as_str v = (case v of JString s \<Rightarrow> Some s | _ \<Rightarrow> None)"

record rule_variable =
  rv_name :: string
  rv_instance :: "u32 option"
  rv_point_type :: "string option"
  rv_point :: "u32 option"
  rv_formula :: "json list"

record flow_condition =
  fc_cond_type :: string
  fc_variables :: "string option"
  fc_operator :: "string option"
  fc_value :: "json option"

record rule_switch_branch =
  sb_name :: string
  sb_rule_type :: string
  sb_rule :: "flow_condition list"

record rule_value_assignment =
  va_variables :: string
  va_value :: json

record calculation_rule =
  cr_output :: string
  cr_formula :: string

text \<open>The wires of all nodes but a switch are one list; a switch has a list for each output port.\<close>

type_synonym rule_wires = "string list"

datatype rule_node =
    Start rule_wires
  | End
  | Switch "rule_variable list" "rule_switch_branch list" "(string \<times> string list) list"
  | ChangeValue "rule_variable list" "rule_value_assignment list" rule_wires
  | Calculation "rule_variable list" "calculation_rule list" rule_wires
  | PeriodDelta rule_variable rule_variable string rule_wires

record rule_flow =
  rf_start_node :: string
  rf_nodes :: "(string \<times> rule_node) list"

record rule =
  rule_id :: i64
  rule_name :: string
  rule_enabled :: bool
  rule_priority :: u32
  rule_cooldown_ms :: u64
  rule_trigger_config :: "string option"
  rule_body :: rule_flow

section \<open>Results\<close>

record action_result =
  ar_target_type :: string
  ar_target_id :: u32
  ar_point_type :: string
  ar_point_id :: u32
  ar_value :: f64
  ar_success :: bool

datatype execution_node_status = Executed | Skipped | Failed

record execution_graph_node =
  gn_id :: string
  gn_node_type :: string
  gn_label :: string
  gn_status :: execution_node_status
  gn_terminal :: bool
  gn_terminal_kind :: "string option"
  gn_terminal_reason :: "string option"

record execution_graph_edge =
  ge_source :: string
  ge_target :: string
  ge_port :: "string option"
  ge_label :: "string option"

record execution_graph =
  eg_nodes :: "execution_graph_node list"
  eg_edges :: "execution_graph_edge list"

definition push_node :: "string \<Rightarrow> string \<Rightarrow> string \<Rightarrow> execution_graph \<Rightarrow> execution_graph" where
  "push_node node_id node_type label g =
     g\<lparr>eg_nodes := eg_nodes g @
         [\<lparr>gn_id = node_id, gn_node_type = node_type, gn_label = label, gn_status = Executed, gn_terminal = False,
           gn_terminal_kind = None, gn_terminal_reason = None\<rparr>]\<rparr>"

text \<open>The last element that satisfies a test.\<close>

fun update_first :: "('a \<Rightarrow> bool) \<Rightarrow> ('a \<Rightarrow> 'a) \<Rightarrow> 'a list \<Rightarrow> 'a list" where
  "update_first P f [] = []"
| "update_first P f (x # xs) = (if P x then f x # xs else x # update_first P f xs)"

definition finish_node ::
  "string \<Rightarrow> execution_node_status \<Rightarrow> string option \<Rightarrow> string option \<Rightarrow> execution_graph \<Rightarrow> execution_graph"
where
  "finish_node node_id status kind reason g =
     g\<lparr>eg_nodes := rev (update_first (\<lambda>n. gn_id n = node_id)
         (\<lambda>n. n\<lparr>gn_status := status, gn_terminal := kind \<noteq> None, gn_terminal_kind := kind,
                gn_terminal_reason := reason\<rparr>) (rev (eg_nodes g)))\<rparr>"

definition activate_edges ::
  "string \<Rightarrow> string option \<Rightarrow> string list \<Rightarrow> execution_graph \<Rightarrow> string list \<times> execution_graph"
where
  "activate_edges source port targets g =
     (targets, g\<lparr>eg_edges := eg_edges g @
        map (\<lambda>t. \<lparr>ge_source = source, ge_target = t, ge_port = port, ge_label = port\<rparr>) targets\<rparr>)"

record condition_result =
  cd_expression :: string
  cd_result :: bool
  cd_port :: string

record node_execution_detail =
  nd_node_type :: string
  nd_input_values :: "string \<rightharpoonup> f64"
  nd_condition_results :: "condition_result list option"
  nd_matched_port :: "string option"
  nd_actions :: "action_result list option"
  nd_terminal :: bool

record rule_execution_result =
  er_rule_id :: i64
  er_success :: bool
  er_actions_executed :: "action_result list"
  er_error :: "string option"
  er_execution_path :: "string list"
  er_execution_graph :: execution_graph
  er_matched_condition :: "string option"
  er_variable_values :: "string \<rightharpoonup> f64"
  er_point_values :: "string \<rightharpoonup> f64"
  er_node_details :: "string \<rightharpoonup> node_execution_detail"

section \<open>Environment\<close>

text \<open>
  \<open>re_json\<close> prints a JSON value, \<open>re_eval_number\<close> evaluates an expression; the readings of the shared memory, of
  the database, of the clocks and of the dispatch depend on a counter of steps, so they may change between any
  two of them.  \<open>re_order\<close> is the order in which the hash map of pending reads is walked.
\<close>

record ('d, 's) rule_env =
  re_fmt :: num_format
  re_display :: "f64 \<Rightarrow> string"
  re_json :: "json \<Rightarrow> string"
  re_eval_number :: "string \<Rightarrow> (string \<rightharpoonup> f64) \<Rightarrow> string + f64"
  re_calc :: calc_env
  re_store :: "'s state_store"
  re_clock :: "nat \<Rightarrow> i64"
  re_calc_clock :: "nat \<Rightarrow> string \<Rightarrow> usize \<Rightarrow> i64"
  re_shm :: "(nat \<Rightarrow> u32 \<Rightarrow> u8 \<Rightarrow> u32 \<Rightarrow> (f64 \<times> u64) option) option"
  re_hmget :: "nat \<Rightarrow> string \<Rightarrow> string list \<Rightarrow> memory_rtdb \<Rightarrow> string + string option list"
  re_dispatch :: "(nat \<Rightarrow> route_context \<Rightarrow> f64 \<Rightarrow> 'd \<Rightarrow> dispatch_outcome \<times> 'd) option"
  re_order :: "nat \<Rightarrow> string \<times> bool \<Rightarrow> nat"
  re_cache :: routing_cache

record ('d, 's) rule_world =
  rw_db :: memory_rtdb
  rw_dispatch :: 'd
  rw_state :: 's
  rw_tick :: nat

section \<open>Conditions\<close>

definition quoted :: "string \<Rightarrow> string" where
  "quoted s = CHR 0x27 # s @ [CHR 0x27]"

definition evaluate_formula :: "('d, 's) rule_env \<Rightarrow> string \<Rightarrow> (string \<rightharpoonup> f64) \<Rightarrow> string + f64" where
  "evaluate_formula env formula vars =
     (case re_eval_number env formula vars of
        Inl e \<Rightarrow> Inl (''Formula '' @ quoted formula @ '' evaluation failed: '' @ e)
      | Inr v \<Rightarrow> Inr v)"

text \<open>\<open>join(sep)\<close>.\<close>

fun join_with :: "string \<Rightarrow> string list \<Rightarrow> string" where
  "join_with sep [] = []"
| "join_with sep [s] = s"
| "join_with sep (s # ss) = s @ sep @ join_with sep ss"

definition evaluate_token_formula :: "('d, 's) rule_env \<Rightarrow> json list \<Rightarrow> (string \<rightharpoonup> f64) \<Rightarrow> f64 option" where
  "evaluate_token_formula env tokens vars =
     (let expr = join_with '' '' (map (\<lambda>t. case t of JString s \<Rightarrow> s | _ \<Rightarrow> re_json env t) tokens)
      in case evaluate_formula env expr vars of Inr v \<Rightarrow> Some v | Inl _ \<Rightarrow> None)"

definition trim_quotes :: "string \<Rightarrow> string" where
  "trim_quotes s = rev (dropWhile (\<lambda>c. c = CHR 0x22) (rev (dropWhile (\<lambda>c. c = CHR 0x22) s)))"

definition is_or :: "string \<Rightarrow> bool" where
  "is_or rel \<longleftrightarrow> rel = ''||'' \<or> rel = ''or'' \<or> rel = ''OR''"

fun format_parts :: "(json \<Rightarrow> string) \<Rightarrow> flow_condition list \<Rightarrow> string option \<Rightarrow> string list" where
  "format_parts pr [] rel = []"
| "format_parts pr (c # cs) rel =
     (if fc_cond_type c = ''relation'' then format_parts pr cs (Option.bind (fc_value c) json_as_str)
      else
        (case fc_variables c of
           None \<Rightarrow> format_parts pr cs rel
         | Some var \<Rightarrow>
             (let op = (case fc_operator c of Some p \<Rightarrow> p | None \<Rightarrow> ''=='');
                  val = (case fc_value c of Some v \<Rightarrow> trim_quotes (pr v) | None \<Rightarrow> [])
              in (case rel of Some r \<Rightarrow> [if is_or r then '' || '' else '' && ''] | None \<Rightarrow> []) @
                 [var @ op @ val] @ format_parts pr cs None)))"

definition format_conditions :: "(json \<Rightarrow> string) \<Rightarrow> flow_condition list \<Rightarrow> string" where
  "format_conditions pr cs = concat (format_parts pr cs None)"

text \<open>The value a condition compares with: a number, a variable, or the text of a number.\<close>

definition condition_right :: "flow_condition \<Rightarrow> (string \<rightharpoonup> f64) \<Rightarrow> f64 option" where
  "condition_right c vars =
     (case fc_value c of
        None \<Rightarrow> Some f64_zero
      | Some v \<Rightarrow>
          (case json_as_f64 v of
             Some n \<Rightarrow> Some n
           | None \<Rightarrow>
               (case json_as_i64 v of
                  Some n \<Rightarrow> Some (i64_as_f64 n)
                | None \<Rightarrow>
                    (case json_as_str v of
                       Some s \<Rightarrow> (case vars s of Some x \<Rightarrow> Some x | None \<Rightarrow> parse_f64 s)
                     | None \<Rightarrow> Some f64_zero))))"

definition compare_with :: "string \<Rightarrow> f64 \<Rightarrow> f64 \<Rightarrow> bool" where
  "compare_with op left right =
     (if op = ''=='' \<or> op = ''eq'' then f64_less (f64_abs (f64_sub left right)) EPSILON
      else if op = ''!='' \<or> op = ''ne'' then f64_le EPSILON (f64_abs (f64_sub left right))
      else if op = ''>'' \<or> op = ''gt'' then f64_less right left
      else if op = ''<'' \<or> op = ''lt'' then f64_less left right
      else if op = ''>='' \<or> op = ''gte'' then f64_le right left
      else if op = ''<='' \<or> op = ''lte'' then f64_le left right
      else False)"

definition evaluate_flow_condition :: "flow_condition \<Rightarrow> (string \<rightharpoonup> f64) \<Rightarrow> bool" where
  "evaluate_flow_condition c vars =
     (case fc_variables c of
        None \<Rightarrow> False
      | Some name \<Rightarrow>
          (case vars name of
             None \<Rightarrow> False
           | Some left \<Rightarrow>
               (case condition_right c vars of
                  None \<Rightarrow> False
                | Some right \<Rightarrow>
                    compare_with (case fc_operator c of Some p \<Rightarrow> p | None \<Rightarrow> ''=='') left right)))"

fun fold_conditions :: "flow_condition list \<Rightarrow> (string \<rightharpoonup> f64) \<Rightarrow> bool \<Rightarrow> string option \<Rightarrow> bool" where
  "fold_conditions [] vars result rel = result"
| "fold_conditions (c # cs) vars result rel =
     (if fc_cond_type c = ''relation''
      then fold_conditions cs vars result (Option.bind (fc_value c) json_as_str)
      else
        (let r = evaluate_flow_condition c vars
         in fold_conditions cs vars
              (case rel of Some rl \<Rightarrow> if is_or rl then result \<or> r else result \<and> r | None \<Rightarrow> result \<and> r) None))"

definition evaluate_flow_conditions :: "flow_condition list \<Rightarrow> (string \<rightharpoonup> f64) \<Rightarrow> bool" where
  "evaluate_flow_conditions cs vars = (if cs = [] then True else fold_conditions cs vars True None)"

definition evaluate_all_conditions ::
  "(json \<Rightarrow> string) \<Rightarrow> rule_switch_branch list \<Rightarrow> (string \<rightharpoonup> f64) \<Rightarrow> condition_result list"
where
  "evaluate_all_conditions pr rules vars =
     map (\<lambda>b. \<lparr>cd_expression = format_conditions pr (sb_rule b), cd_result = evaluate_flow_conditions (sb_rule b) vars,
               cd_port = sb_name b\<rparr>) rules"

fun evaluate_rule_switch_with_details ::
  "(json \<Rightarrow> string) \<Rightarrow> rule_switch_branch list \<Rightarrow> (string \<times> string list) list \<Rightarrow> (string \<rightharpoonup> f64) \<Rightarrow>
     string list \<times> string option \<times> string option"
where
  "evaluate_rule_switch_with_details pr [] wires vars = ([], None, None)"
| "evaluate_rule_switch_with_details pr (b # bs) wires vars =
     (if evaluate_flow_conditions (sb_rule b) vars
      then ((case map_of wires (sb_name b) of Some ts \<Rightarrow> ts | None \<Rightarrow> []), Some (sb_name b),
            Some (format_conditions pr (sb_rule b)))
      else evaluate_rule_switch_with_details pr bs wires vars)"

section \<open>Reading variables\<close>

record rule_read_outcome =
  ro_values_changed :: bool
  ro_missing :: "string list"
  ro_point_values :: "string \<rightharpoonup> f64"

datatype rule_error = ExecutionError string

definition rule_error_text :: "rule_error \<Rightarrow> string" where
  "rule_error_text e = (case e of ExecutionError m \<Rightarrow> ''Rule execution error: '' @ m)"

definition rule_point_key :: "bool \<Rightarrow> u32 \<Rightarrow> u32 \<Rightarrow> string" where
  "rule_point_key act i p = (if act then ''A'' else ''M'') @ '':'' @ u32_to_string i @ '':'' @ u32_to_string p"

text \<open>A value that was read: \<open>total_cmp\<close> tells bit patterns apart.\<close>

definition take_value ::
  "bool \<Rightarrow> u32 \<Rightarrow> u32 \<Rightarrow> string \<Rightarrow> f64 \<Rightarrow> rule_read_outcome \<times> (string \<rightharpoonup> f64) \<Rightarrow> rule_read_outcome \<times> (string \<rightharpoonup> f64)"
where
  "take_value act i p name v st =
     (let (o1, vals) = st
      in (o1\<lparr>ro_point_values := (ro_point_values o1)(rule_point_key act i p \<mapsto> v),
             ro_values_changed := (ro_values_changed o1 \<or> vals name \<noteq> Some v)\<rparr>, vals(name \<mapsto> v)))"

definition mark_missing :: "string \<Rightarrow> rule_read_outcome \<times> 'v \<Rightarrow> rule_read_outcome \<times> 'v" where
  "mark_missing name st = (case st of (o1, vals) \<Rightarrow> (o1\<lparr>ro_missing := ro_missing o1 @ [name]\<rparr>, vals))"

type_synonym pending_var = "string \<times> string \<times> u32 \<times> u32"

text \<open>First pass, one variable: shared memory, or a request for the database.  \<open>n\<close> is the step counter.\<close>

type_synonym read_requests = "((string \<times> bool) \<times> pending_var list) list"

definition read_shm_var ::
  "('d, 's) rule_env \<Rightarrow> nat \<Rightarrow> rule_variable \<Rightarrow> rule_read_outcome \<times> (string \<rightharpoonup> f64) \<Rightarrow> read_requests \<Rightarrow>
     rule_error + (rule_read_outcome \<times> (string \<rightharpoonup> f64)) \<times> read_requests"
where
  "read_shm_var env n var st reqs =
     (if rv_formula var \<noteq> [] then Inr (st, reqs)
      else
        (case rv_instance var of
           None \<Rightarrow> Inl (ExecutionError (''Variable '' @ quoted (rv_name var) @ '' is missing instance_id''))
         | Some i \<Rightarrow>
             (case rv_point var of
                None \<Rightarrow> Inl (ExecutionError (''Variable '' @ quoted (rv_name var) @ '' is missing point_id''))
              | Some p \<Rightarrow>
                  (let act = (rv_point_type var = Some ''action'');
                       hit = (case re_shm env of None \<Rightarrow> None
                              | Some get_instance \<Rightarrow> get_instance n i (if act then 1 else 0) p)
                   in case hit of
                        Some (v, _) \<Rightarrow>
                          (if f64_is_finite v then Inr (take_value act i p (rv_name var) v st, reqs)
                           else if act then Inr (st, reqs)
                           else Inr (mark_missing (rv_name var) st, reqs))
                      | None \<Rightarrow>
                          (let key = (if act then instance_action_key production i
                                      else instance_measurement_key production i)
                           in Inr (st, push_grouped (key, act)
                                         (rv_name var, get_point_id_str_or_alloc (re_fmt env) p, i, p) reqs))))))"

fun read_shm ::
  "('d, 's) rule_env \<Rightarrow> nat \<Rightarrow> rule_variable list \<Rightarrow> rule_read_outcome \<times> (string \<rightharpoonup> f64) \<Rightarrow> read_requests \<Rightarrow>
     (rule_error + (rule_read_outcome \<times> (string \<rightharpoonup> f64)) \<times> read_requests) \<times> (string \<rightharpoonup> f64)"
where
  "read_shm env n [] st reqs = (Inr (st, reqs), snd st)"
| "read_shm env n (var # vars) st reqs =
     (case read_shm_var env (n + length vars) var st reqs of
        Inl e \<Rightarrow> (Inl e, snd st)
      | Inr (st', reqs') \<Rightarrow> read_shm env n vars st' reqs')"

text \<open>The answers to one request.\<close>

definition take_reply ::
  "bool \<Rightarrow> pending_var \<Rightarrow> string option \<Rightarrow> rule_read_outcome \<times> (string \<rightharpoonup> f64) \<Rightarrow> rule_read_outcome \<times> (string \<rightharpoonup> f64)"
where
  "take_reply act pv reply st =
     (case pv of (name, fld, i, p) \<Rightarrow>
        (case Option.bind reply parse_f64 of
           Some v \<Rightarrow>
             if f64_is_finite v then take_value act i p name v st
             else if act then st else mark_missing name st
         | None \<Rightarrow> if act then st else mark_missing name st))"

fun take_replies ::
  "bool \<Rightarrow> pending_var list \<Rightarrow> string option list \<Rightarrow> rule_read_outcome \<times> (string \<rightharpoonup> f64) \<Rightarrow>
     rule_read_outcome \<times> (string \<rightharpoonup> f64)"
where
  "take_replies act [] rs st = st"
| "take_replies act (pv # pvs) rs st =
     take_replies act pvs (tl rs) (take_reply act pv (case rs of r # _ \<Rightarrow> r | [] \<Rightarrow> None) st)"

definition fetch_request ::
  "('d, 's) rule_env \<Rightarrow> nat \<Rightarrow> memory_rtdb \<Rightarrow> (string \<times> bool) \<times> pending_var list \<Rightarrow>
     rule_read_outcome \<times> (string \<rightharpoonup> f64) \<Rightarrow> rule_read_outcome \<times> (string \<rightharpoonup> f64)"
where
  "fetch_request env n db req st =
     (case req of ((key, act), pvs) \<Rightarrow>
        (case re_hmget env n key (map (\<lambda>(_, f, _, _). f) pvs) db of
           Inr rs \<Rightarrow> take_replies act pvs rs st
         | Inl _ \<Rightarrow> if act then st else fold (\<lambda>(name, _, _, _). mark_missing name) pvs st))"

definition read_formula ::
  "('d, 's) rule_env \<Rightarrow> rule_variable \<Rightarrow> rule_read_outcome \<times> (string \<rightharpoonup> f64) \<Rightarrow> rule_read_outcome \<times> (string \<rightharpoonup> f64)"
where
  "read_formula env var st =
     (if rv_formula var = [] then st
      else
        (case evaluate_token_formula env (rv_formula var) (snd st) of
           Some r \<Rightarrow>
             (let (o1, vals) = st
              in (o1\<lparr>ro_values_changed := (ro_values_changed o1 \<or>
                       \<not> (case vals (rv_name var) of Some prev \<Rightarrow> f64_eq prev r | None \<Rightarrow> False))\<rparr>,
                  vals(rv_name var \<mapsto> r)))
         | None \<Rightarrow> mark_missing (rv_name var) st))"

text \<open>The values stay changed when the call fails half way; each request is one step.\<close>

definition read_rule_variables ::
  "('d, 's) rule_env \<Rightarrow> rule_variable list \<Rightarrow> (string \<rightharpoonup> f64) \<Rightarrow> ('d, 's) rule_world \<Rightarrow>
     (rule_error + rule_read_outcome) \<times> (string \<rightharpoonup> f64) \<times> ('d, 's) rule_world"
where
  "read_rule_variables env variables vals w =
     (let n = rw_tick w;
          n1 = n + length variables
      in case read_shm env n variables (\<lparr>ro_values_changed = False, ro_missing = [], ro_point_values = Map.empty\<rparr>, vals) [] of
           (Inl e, vals') \<Rightarrow> (Inl e, vals', w\<lparr>rw_tick := n1\<rparr>)
         | (Inr (st, reqs), _) \<Rightarrow>
             (let reqs = sort_key (\<lambda>r. re_order env n (fst r)) reqs;
                  st = fold (\<lambda>(k, r). fetch_request env (n1 + k) (rw_db w) r) (enumerate 0 reqs) st;
                  st = fold (read_formula env) variables st
              in (Inr (fst st), snd st, w\<lparr>rw_tick := n1 + length reqs\<rparr>)))"

definition snapshot_or_reuse ::
  "(string \<rightharpoonup> f64) option \<Rightarrow> (string \<rightharpoonup> f64) \<Rightarrow> bool \<Rightarrow> (string \<rightharpoonup> f64) \<times> (string \<rightharpoonup> f64) option"
where
  "snapshot_or_reuse cache vals changed =
     (case cache of
        Some snap \<Rightarrow> if \<not> changed then (snap, cache) else (vals, Some vals)
      | None \<Rightarrow> (vals, Some vals))"

section \<open>Actions\<close>

definition point_type_to_static :: "string option \<Rightarrow> string \<Rightarrow> string" where
  "point_type_to_static pt dflt =
     (case pt of
        None \<Rightarrow> dflt
      | Some s \<Rightarrow>
          if s = ''M'' \<or> s = ''measurement'' then ''M''
          else if s = ''A'' \<or> s = ''action'' then ''A''
          else if s = ''T'' \<or> s = ''telemetry'' then ''T''
          else if s = ''S'' \<or> s = ''status'' then ''S''
          else if s = ''C'' \<or> s = ''control'' then ''C''
          else dflt)"

definition instance_action :: "u32 \<Rightarrow> string \<Rightarrow> u32 \<Rightarrow> f64 \<Rightarrow> bool \<Rightarrow> action_result" where
  "instance_action i pt p v ok =
     \<lparr>ar_target_type = ''instance'', ar_target_id = i, ar_point_type = pt, ar_point_id = p, ar_value = v, ar_success = ok\<rparr>"

definition unwrap_or_0 :: "u32 option \<Rightarrow> u32" where
  "unwrap_or_0 x = (case x of Some n \<Rightarrow> n | None \<Rightarrow> 0)"

definition validate_write_target ::
  "rule_variable \<Rightarrow> f64 \<Rightarrow> string \<Rightarrow> action_result + u32 \<times> u32 \<times> f64 \<times> string"
where
  "validate_write_target var raw dflt =
     (let pt = point_type_to_static (rv_point_type var) dflt in
      case validate_value raw validation_default of
        Inl _ \<Rightarrow> Inl (instance_action (unwrap_or_0 (rv_instance var)) pt (unwrap_or_0 (rv_point var)) f64_nan False)
      | Inr v \<Rightarrow>
          (case rv_instance var of
             None \<Rightarrow> Inl (instance_action 0 pt 0 v False)
           | Some i \<Rightarrow>
               (case rv_point var of
                  None \<Rightarrow> Inl (instance_action i pt 0 v False)
                | Some p \<Rightarrow> Inr (i, p, v, pt))))"

definition action_skipped :: "rule_variable \<Rightarrow> action_result" where
  "action_skipped var =
     instance_action (unwrap_or_0 (rv_instance var)) (point_type_to_static (rv_point_type var) ''A'')
       (unwrap_or_0 (rv_point var)) f64_nan False"

definition tick :: "('d, 's) rule_world \<Rightarrow> ('d, 's) rule_world" where
  "tick w = w\<lparr>rw_tick := Suc (rw_tick w)\<rparr>"

definition dispatch_action_to_comsrv ::
  "('d, 's) rule_env \<Rightarrow> route_context \<Rightarrow> f64 \<Rightarrow> ('d, 's) rule_world \<Rightarrow> bool \<times> ('d, 's) rule_world"
where
  "dispatch_action_to_comsrv env ctx v w =
     (case re_dispatch env of
        None \<Rightarrow> (False, w)
      | Some send \<Rightarrow>
          (case send (rw_tick w) ctx v (rw_dispatch w) of
             (out, d) \<Rightarrow>
               ((case out of Delivered \<Rightarrow> True | Noop \<Rightarrow> True | NoWriter \<Rightarrow> False | MirrorMiss _ \<Rightarrow> False
                 | ShmOnly _ \<Rightarrow> False),
                tick (w\<lparr>rw_dispatch := d\<rparr>))))"

definition write_action_point ::
  "('d, 's) rule_env \<Rightarrow> u32 \<Rightarrow> u32 \<Rightarrow> string \<Rightarrow> f64 \<Rightarrow> ('d, 's) rule_world \<Rightarrow> bool \<times> ('d, 's) rule_world"
where
  "write_action_point env i p name v w =
     (let now = re_clock env (rw_tick w) in
      case lookup_m2c_by_parts (re_cache env) i Adjustment p of
        None \<Rightarrow>
          (case set_action_point_with_target (re_display env) (re_fmt env) now i name v None (rw_db w) of
             (r, db) \<Rightarrow> ((case r of Inr out \<Rightarrow> aro_routed out | Inl _ \<Rightarrow> False), tick (w\<lparr>rw_db := db\<rparr>)))
      | Some target \<Rightarrow>
          (case validate_action_value v of
             Inl _ \<Rightarrow> (False, w)
           | Inr v \<Rightarrow>
               (case dispatch_action_to_comsrv env (route_context_from_target target now) v w of
                  (False, w') \<Rightarrow> (False, w')
                | (True, w') \<Rightarrow>
                    (case set_action_point_with_target_at (re_display env) (re_fmt env) i name v (Some target) now
                            (rw_db w') of
                       (r, db) \<Rightarrow> ((case r of Inr out \<Rightarrow> aro_routed out | Inl _ \<Rightarrow> False), tick (w'\<lparr>rw_db := db\<rparr>))))))"

definition write_measurement_point ::
  "('d, 's) rule_env \<Rightarrow> u32 \<Rightarrow> u32 \<Rightarrow> f64 \<Rightarrow> ('d, 's) rule_world \<Rightarrow> ('d, 's) rule_world"
where
  "write_measurement_point env i p v w =
     (let name = get_point_id_str_or_alloc (re_fmt env) p;
          now = re_clock env (rw_tick w);
          db = mem_hash_set (instance_measurement_key production i) name (f64_to_bytes (re_fmt env) v) (rw_db w);
          db = mem_hash_set (instance_measurement_ts_key production i) name (i64_to_bytes (re_fmt env) now) db
      in tick (w\<lparr>rw_db := db\<rparr>))"

definition write_to_point ::
  "('d, 's) rule_env \<Rightarrow> u32 \<Rightarrow> u32 \<Rightarrow> f64 \<Rightarrow> string \<Rightarrow> ('d, 's) rule_world \<Rightarrow> action_result \<times> ('d, 's) rule_world"
where
  "write_to_point env i p v pt w =
     (let (ok, w') =
            (if pt = ''M'' then (True, write_measurement_point env i p v w)
             else if pt = ''A'' then write_action_point env i p (get_point_id_str_or_alloc (re_fmt env) p) v w
             else (False, w))
      in (instance_action i pt p v ok, w'))"

text \<open>The value an assignment resolves to: a number, the text of a number, or a variable.\<close>

definition assigned_value :: "rule_value_assignment \<Rightarrow> (string \<rightharpoonup> f64) \<Rightarrow> f64 option" where
  "assigned_value a vals =
     (case json_as_f64 (va_value a) of
        Some n \<Rightarrow> Some n
      | None \<Rightarrow>
          (case json_as_i64 (va_value a) of
             Some n \<Rightarrow> Some (i64_as_f64 n)
           | None \<Rightarrow>
               (case json_as_str (va_value a) of
                  Some s \<Rightarrow> (case parse_f64 s of Some n \<Rightarrow> Some n | None \<Rightarrow> vals s)
                | None \<Rightarrow> None)))"

definition execute_rule_change ::
  "('d, 's) rule_env \<Rightarrow> rule_variable \<Rightarrow> rule_value_assignment \<Rightarrow> (string \<rightharpoonup> f64) \<Rightarrow> ('d, 's) rule_world \<Rightarrow>
     action_result \<times> ('d, 's) rule_world"
where
  "execute_rule_change env var a vals w =
     (case assigned_value a vals of
        None \<Rightarrow> (action_skipped var, w)
      | Some v \<Rightarrow>
          (case validate_write_target var v ''A'' of
             Inl failed \<Rightarrow> (failed, w)
           | Inr (i, p, v, pt) \<Rightarrow> write_to_point env i p v pt w))"

definition write_calculation_result ::
  "('d, 's) rule_env \<Rightarrow> rule_variable \<Rightarrow> f64 \<Rightarrow> ('d, 's) rule_world \<Rightarrow> action_result \<times> ('d, 's) rule_world"
where
  "write_calculation_result env var raw w =
     (case validate_write_target var raw ''M'' of
        Inl failed \<Rightarrow> (failed, w)
      | Inr (i, p, v, pt) \<Rightarrow> write_to_point env i p v pt w)"

definition write_period_delta_result ::
  "('d, 's) rule_env \<Rightarrow> rule_variable \<Rightarrow> f64 \<Rightarrow> ('d, 's) rule_world \<Rightarrow> action_result \<times> ('d, 's) rule_world"
where
  "write_period_delta_result env var raw w =
     (case validate_write_target var raw ''M'' of
        Inl failed \<Rightarrow> (failed, w)
      | Inr (i, p, v, _) \<Rightarrow> write_to_point env i p v ''M'' w)"

section \<open>Nodes\<close>

record ('d, 's) exec_state =
  xs_world :: "('d, 's) rule_world"
  xs_values :: "string \<rightharpoonup> f64"
  xs_point_values :: "string \<rightharpoonup> f64"
  xs_snapshot :: "(string \<rightharpoonup> f64) option"
  xs_errors :: "string list"
  xs_result :: rule_execution_result

definition on_graph :: "(execution_graph \<Rightarrow> execution_graph) \<Rightarrow> ('d, 's) exec_state \<Rightarrow> ('d, 's) exec_state" where
  "on_graph f st =
     st\<lparr>xs_result := (xs_result st)\<lparr>er_execution_graph := f (er_execution_graph (xs_result st))\<rparr>\<rparr>"

text \<open>A node that ends its branch with an error.\<close>

definition fail_node ::
  "string \<Rightarrow> execution_node_status \<Rightarrow> string \<Rightarrow> string \<Rightarrow> ('d, 's) exec_state \<Rightarrow> ('d, 's) exec_state"
where
  "fail_node node_id status kind reason st =
     (let st = on_graph (finish_node node_id status (Some kind) (Some reason)) st
      in st\<lparr>xs_errors := xs_errors st @ [reason]\<rparr>)"

definition end_node :: "string \<Rightarrow> string \<Rightarrow> string \<Rightarrow> ('d, 's) exec_state \<Rightarrow> ('d, 's) exec_state" where
  "end_node node_id kind reason st = on_graph (finish_node node_id Executed (Some kind) (Some reason)) st"

definition follow ::
  "string \<Rightarrow> string option \<Rightarrow> string list \<Rightarrow> ('d, 's) exec_state \<Rightarrow> string list \<times> ('d, 's) exec_state"
where
  "follow node_id port targets st = (targets, on_graph (\<lambda>g. snd (activate_edges node_id port targets g)) st)"

definition add_detail :: "string \<Rightarrow> node_execution_detail \<Rightarrow> ('d, 's) exec_state \<Rightarrow> ('d, 's) exec_state" where
  "add_detail node_id d st =
     st\<lparr>xs_result := (xs_result st)\<lparr>er_node_details := (er_node_details (xs_result st))(node_id \<mapsto> d)\<rparr>\<rparr>"

definition add_action :: "action_result \<Rightarrow> ('d, 's) exec_state \<Rightarrow> ('d, 's) exec_state" where
  "add_action a st =
     st\<lparr>xs_result := (xs_result st)\<lparr>er_actions_executed := er_actions_executed (xs_result st) @ [a]\<rparr>\<rparr>"

definition take_snapshot :: "bool \<Rightarrow> ('d, 's) exec_state \<Rightarrow> (string \<rightharpoonup> f64) \<times> ('d, 's) exec_state" where
  "take_snapshot changed st =
     (let (snap, cache) = snapshot_or_reuse (xs_snapshot st) (xs_values st) changed
      in (snap, st\<lparr>xs_snapshot := cache\<rparr>))"

text \<open>Reading the variables of a node: \<open>None\<close> when the branch ends here, otherwise whether values changed.\<close>

definition read_node ::
  "('d, 's) rule_env \<Rightarrow> string \<Rightarrow> rule_variable list \<Rightarrow> string \<Rightarrow> string \<Rightarrow> ('d, 's) exec_state \<Rightarrow>
     bool option \<times> ('d, 's) exec_state"
where
  "read_node env node_id variables err skip st =
     (case read_rule_variables env variables (xs_values st) (xs_world st) of
        (Inl e, vals, w) \<Rightarrow>
          (None, fail_node node_id Failed ''execution_error'' (err @ rule_error_text e)
             (st\<lparr>xs_values := vals, xs_world := w\<rparr>))
      | (Inr o1, vals, w) \<Rightarrow>
          (let st = st\<lparr>xs_values := vals, xs_world := w, xs_point_values := xs_point_values st ++ ro_point_values o1\<rparr>
           in if ro_missing o1 \<noteq> []
              then (None, fail_node node_id Skipped ''variables_unavailable''
                      (skip @ join_with '', '' (ro_missing o1)) st)
              else (Some (ro_values_changed o1), st)))"

definition detail ::
  "string \<Rightarrow> (string \<rightharpoonup> f64) \<Rightarrow> condition_result list option \<Rightarrow> string option \<Rightarrow> action_result list option \<Rightarrow> bool \<Rightarrow>
     node_execution_detail"
where
  "detail ty inp conds port acts term =
     \<lparr>nd_node_type = ty, nd_input_values = inp, nd_condition_results = conds, nd_matched_port = port,
      nd_actions = acts, nd_terminal = term\<rparr>"

definition exec_switch ::
  "('d, 's) rule_env \<Rightarrow> string \<Rightarrow> rule_variable list \<Rightarrow> rule_switch_branch list \<Rightarrow> (string \<times> string list) list \<Rightarrow>
     ('d, 's) exec_state \<Rightarrow> string list \<times> ('d, 's) exec_state"
where
  "exec_switch env node_id variables rules wires st =
     (case read_node env node_id variables ''Failed to read variables: ''
             ''Rule cycle skipped: variables unavailable: '' st of
        (None, st) \<Rightarrow> ([], st)
      | (Some changed, st) \<Rightarrow>
          (let (snap, st) = take_snapshot changed st;
               conds = evaluate_all_conditions (re_json env) rules (xs_values st);
               (targets, port, cond) = evaluate_rule_switch_with_details (re_json env) rules wires (xs_values st);
               st = (case cond of
                       Some c \<Rightarrow> st\<lparr>xs_result := (xs_result st)\<lparr>er_matched_condition := Some c\<rparr>\<rparr>
                     | None \<Rightarrow> st);
               st = add_detail node_id (detail ''switch'' snap (Some conds) port None (targets = [])) st
           in if targets = [] then ([], end_node node_id ''no_matching_branch'' ''No branch condition matched'' st)
              else follow node_id port targets st))"

text \<open>What nodes with one list of wires do at their end.\<close>

definition follow_default ::
  "string \<Rightarrow> string list \<Rightarrow> ('d, 's) exec_state \<Rightarrow> string list \<times> ('d, 's) exec_state"
where
  "follow_default node_id wires st =
     (if wires = [] then ([], end_node node_id ''no_downstream'' ''No downstream node connected'' st)
      else follow node_id None wires st)"

fun run_assignments ::
  "('d, 's) rule_env \<Rightarrow> rule_variable list \<Rightarrow> rule_value_assignment list \<Rightarrow> action_result list \<Rightarrow> ('d, 's) exec_state \<Rightarrow>
     action_result list \<times> ('d, 's) exec_state"
where
  "run_assignments env variables [] acts st = (acts, st)"
| "run_assignments env variables (a # as) acts st =
     (case find (\<lambda>v. rv_name v = va_variables a) variables of
        None \<Rightarrow> run_assignments env variables as acts st
      | Some var \<Rightarrow>
          (let (done, w) = execute_rule_change env var a (xs_values st) (xs_world st)
           in run_assignments env variables as (acts @ [done]) (add_action done (st\<lparr>xs_world := w\<rparr>))))"

definition exec_change ::
  "('d, 's) rule_env \<Rightarrow> string \<Rightarrow> rule_variable list \<Rightarrow> rule_value_assignment list \<Rightarrow> string list \<Rightarrow>
     ('d, 's) exec_state \<Rightarrow> string list \<times> ('d, 's) exec_state"
where
  "exec_change env node_id variables assignments wires st =
     (case read_node env node_id variables ''Failed to read variables: ''
             ''Rule cycle skipped: variables unavailable: '' st of
        (None, st) \<Rightarrow> ([], st)
      | (Some changed, st) \<Rightarrow>
          (let (snap, st) = take_snapshot changed st;
               (acts, st) = run_assignments env variables assignments [] st
           in follow_default node_id wires
                (add_detail node_id (detail ''change'' snap None None (Some acts) (wires = [])) st)))"

definition calc_error_text :: "calc_error \<Rightarrow> string" where
  "calc_error_text e =
     (case e of
        Expression_Error m \<Rightarrow> ''Expression error: '' @ m
      | State_Error m \<Rightarrow> ''State error: '' @ m
      | Function_Error m \<Rightarrow> ''Function error: '' @ m
      | Variable_Not_Found m \<Rightarrow> ''Variable not found: '' @ m)"

definition calc_context :: "i64 \<Rightarrow> string" where
  "calc_context rid = ''rule_'' @ i64_to_string rid"

definition run_calculation ::
  "('d, 's) rule_env \<Rightarrow> i64 \<Rightarrow> string \<Rightarrow> rule_variable list \<Rightarrow> calculation_rule \<Rightarrow> action_result list \<Rightarrow>
     ('d, 's) exec_state \<Rightarrow> (action_result list option \<times> ('d, 's) exec_state) outcome"
where
  "run_calculation env rid node_id variables c acts st =
     bind_outcome
       (evaluate (re_calc env) (re_store env) (calc_context rid) (re_calc_clock env (rw_tick (xs_world st)))
          (cr_formula c) (xs_values st) (rw_state (xs_world st)))
       (\<lambda>(r, s).
          let st = st\<lparr>xs_world := tick ((xs_world st)\<lparr>rw_state := s\<rparr>)\<rparr> in
          case r of
            Inl e \<Rightarrow>
              Ret (None, fail_node node_id Failed ''execution_error''
                     (''Calc '' @ quoted (cr_formula c) @ '' error: '' @ calc_error_text e) st)
          | Inr v \<Rightarrow>
              (let (acts, st) =
                     (case find (\<lambda>x. rv_name x = cr_output c) variables of
                        None \<Rightarrow> (acts, st)
                      | Some var \<Rightarrow>
                          (let (done, w) = write_calculation_result env var v (xs_world st)
                           in (acts @ [done], add_action done (st\<lparr>xs_world := w\<rparr>))))
               in Ret (Some acts, st\<lparr>xs_values := (xs_values st)(cr_output c \<mapsto> v)\<rparr>)))"

text \<open>The calculations of a node in order; the first that fails ends them.\<close>

fun run_calculations ::
  "('d, 's) rule_env \<Rightarrow> i64 \<Rightarrow> string \<Rightarrow> rule_variable list \<Rightarrow> calculation_rule list \<Rightarrow> action_result list \<Rightarrow>
     ('d, 's) exec_state \<Rightarrow> (action_result list option \<times> ('d, 's) exec_state) outcome"
where
  "run_calculations env rid node_id variables [] acts st = Ret (Some acts, st)"
| "run_calculations env rid node_id variables (c # cs) acts st =
     bind_outcome (run_calculation env rid node_id variables c acts st) (\<lambda>(r, st).
       case r of
         None \<Rightarrow> Ret (None, st)
       | Some acts \<Rightarrow> run_calculations env rid node_id variables cs acts st)"

definition handle_calculation_node ::
  "('d, 's) rule_env \<Rightarrow> i64 \<Rightarrow> string \<Rightarrow> rule_variable list \<Rightarrow> calculation_rule list \<Rightarrow> string list \<Rightarrow>
     ('d, 's) exec_state \<Rightarrow> (string list \<times> ('d, 's) exec_state) outcome"
where
  "handle_calculation_node env rid node_id variables calcs wires st =
     (case read_node env node_id variables ''Failed to read variables: ''
             ''Calculation skipped: variables unavailable: '' st of
        (None, st) \<Rightarrow> Ret ([], st)
      | (Some changed, st) \<Rightarrow>
          (let (snap, st) = take_snapshot changed st in
           bind_outcome (run_calculations env rid node_id variables calcs [] st) (\<lambda>(acts, st).
             case acts of
               None \<Rightarrow> Ret ([], st)
             | Some acts \<Rightarrow>
                 Ret (follow_default node_id wires
                        (add_detail node_id (detail ''calculation'' snap None None (Some acts) (wires = []))
                           (st\<lparr>xs_snapshot := None\<rparr>))))))"

definition handle_period_delta_node ::
  "('d, 's) rule_env \<Rightarrow> i64 \<Rightarrow> string \<Rightarrow> rule_variable \<Rightarrow> rule_variable \<Rightarrow> string \<Rightarrow> string list \<Rightarrow>
     ('d, 's) exec_state \<Rightarrow> string list \<times> ('d, 's) exec_state"
where
  "handle_period_delta_node env rid node_id inp out period wires st =
     (case read_node env node_id [inp] ''Failed to read input variable: ''
             ''PeriodDelta skipped: input variable unavailable: '' st of
        (None, st) \<Rightarrow> ([], st)
      | (Some changed, st) \<Rightarrow>
          (let (snap, st) = take_snapshot changed st in
           case xs_values st (rv_name inp) of
             None \<Rightarrow>
               ([], fail_node node_id Skipped ''variables_unavailable''
                      (''PeriodDelta skipped: input variable '' @ quoted (rv_name inp) @ '' unavailable after read'') st)
           | Some v \<Rightarrow>
               if \<not> f64_is_finite v
               then ([], fail_node node_id Skipped ''invalid_input''
                       (''PeriodDelta skipped: input variable '' @ quoted (rv_name inp) @
                          '' is non-finite ('' @ re_display env v @ '')'') st)
               else
                 (case period_delta (re_store env) (sd_period (ce_serde (re_calc env))) (ce_period_start (re_calc env))
                         (calc_context rid) (re_calc_clock env (rw_tick (xs_world st)) ''period_delta'' 0)
                         (i64_to_string rid @ '':'' @ u32_to_string (unwrap_or_0 (rv_instance inp)) @ '':'' @
                            u32_to_string (unwrap_or_0 (rv_point inp)))
                         v period (rw_state (xs_world st)) of
                    (r, s) \<Rightarrow>
                      (let st = st\<lparr>xs_world := tick ((xs_world st)\<lparr>rw_state := s\<rparr>)\<rparr> in
                       case r of
                         Inl e \<Rightarrow>
                           ([], fail_node node_id Failed ''execution_error''
                                  (''period_delta error: '' @ calc_error_text e) st)
                       | Inr delta \<Rightarrow>
                           (let (done, w) = write_period_delta_result env out delta (xs_world st);
                                st = add_action done (st\<lparr>xs_world := w\<rparr>);
                                st = st\<lparr>xs_values := (xs_values st)(rv_name out \<mapsto> delta), xs_snapshot := None\<rparr>
                            in follow_default node_id wires
                                 (add_detail node_id (detail ''periodDelta'' snap None None (Some [done]) (wires = [])) st))))))"

section \<open>Execution of a flow\<close>

definition node_caption :: "rule_node \<Rightarrow> string \<times> string" where
  "node_caption node =
     (case node of
        Start _ \<Rightarrow> (''start'', ''START'')
      | End \<Rightarrow> (''end'', ''END'')
      | Switch _ _ _ \<Rightarrow> (''switch'', ''Switch Function'')
      | ChangeValue _ _ _ \<Rightarrow> (''change'', ''Change Value'')
      | Calculation _ _ _ \<Rightarrow> (''calculation'', ''Calculation'')
      | PeriodDelta _ _ _ _ \<Rightarrow> (''periodDelta'', ''Period Delta''))"

definition exec_node ::
  "('d, 's) rule_env \<Rightarrow> rule \<Rightarrow> string \<Rightarrow> ('d, 's) exec_state \<Rightarrow> (string list \<times> ('d, 's) exec_state) outcome"
where
  "exec_node env rl node_id st =
     (let st = st\<lparr>xs_result := (xs_result st)\<lparr>er_execution_path := er_execution_path (xs_result st) @ [node_id]\<rparr>\<rparr> in
      case map_of (rf_nodes (rule_body rl)) node_id of
        None \<Rightarrow>
          Ret ([], fail_node node_id Failed ''node_not_found'' (''Node not found: '' @ node_id)
                     (on_graph (push_node node_id ''unknown'' ''Unknown'') st))
      | Some node \<Rightarrow>
          (let st = on_graph (push_node node_id (fst (node_caption node)) (snd (node_caption node))) st in
           case node of
             End \<Rightarrow> Ret ([], end_node node_id ''end'' ''End node reached'' st)
           | Start wires \<Rightarrow>
               if wires = []
               then Ret ([], fail_node node_id Failed ''no_downstream'' ''Start node has no output wire'' st)
               else Ret (follow node_id None wires st)
           | Switch variables rules wires \<Rightarrow> Ret (exec_switch env node_id variables rules wires st)
           | ChangeValue variables assignments wires \<Rightarrow> Ret (exec_change env node_id variables assignments wires st)
           | Calculation variables calcs wires \<Rightarrow>
               handle_calculation_node env (rule_id rl) node_id variables calcs wires st
           | PeriodDelta inp out period wires \<Rightarrow>
               Ret (handle_period_delta_node env (rule_id rl) node_id inp out period wires st)))"

definition MAX_VISITS :: usize where
  "MAX_VISITS = 1000"

text \<open>The work queue; \<open>visited\<close> holds the nodes that have run, the latest first.\<close>

function exec_loop ::
  "(string \<Rightarrow> ('d, 's) exec_state \<Rightarrow> (string list \<times> ('d, 's) exec_state) outcome) \<Rightarrow> string list \<Rightarrow> string list \<Rightarrow>
     ('d, 's) exec_state \<Rightarrow> (string list \<times> ('d, 's) exec_state) outcome"
where
  "exec_loop step [] visited st = Ret (visited, st)"
| "exec_loop step (c # queue) visited st =
     (if c \<in> set visited then exec_loop step queue visited st
      else if MAX_VISITS < length (c # visited)
      then Ret (visited, st\<lparr>xs_errors := xs_errors st @ [''Execution exceeded maximum node visits'']\<rparr>)
      else
        (case step c st of
           Panic \<Rightarrow> Panic
         | Ret (targets, st') \<Rightarrow> exec_loop step (queue @ targets) (c # visited) st'))"
  by pat_completeness auto
termination
  by (relation "inv_image (less_than <*lex*> less_than)
      (\<lambda>(step, queue, visited, st). (MAX_VISITS - length visited, length queue))")
    (auto simp: MAX_VISITS_def)

definition exec_init :: "rule \<Rightarrow> ('d, 's) rule_world \<Rightarrow> ('d, 's) exec_state" where
  "exec_init rl w =
     \<lparr>xs_world = w, xs_values = Map.empty, xs_point_values = Map.empty, xs_snapshot = None, xs_errors = [],
      xs_result =
        \<lparr>er_rule_id = rule_id rl, er_success = False, er_actions_executed = [], er_error = None,
         er_execution_path = [], er_execution_graph = \<lparr>eg_nodes = [], eg_edges = []\<rparr>, er_matched_condition = None,
         er_variable_values = Map.empty, er_point_values = Map.empty, er_node_details = Map.empty\<rparr>\<rparr>"

definition execute ::
  "('d, 's) rule_env \<Rightarrow> rule \<Rightarrow> ('d, 's) rule_world \<Rightarrow> (rule_execution_result \<times> ('d, 's) rule_world) outcome"
where
  "execute env rl w =
     bind_outcome (exec_loop (exec_node env rl) [rf_start_node (rule_body rl)] [] (exec_init rl w)) (\<lambda>(_, st).
       Ret ((xs_result st)\<lparr>er_variable_values := xs_values st, er_point_values := xs_point_values st,
              er_success := (xs_errors st = []),
              er_error := (if xs_errors st = [] then None else Some (join_with ''; '' (xs_errors st)))\<rparr>,
            xs_world st))"

end
