(* ===== verification/Rule_Flow.thy ===== *)
theory Rule_Flow
  imports Rule_Engine
begin

text \<open>
  The execution of a flow: the work queue visits every node its edges lead to exactly once and stops, whatever
  the graph.
\<close>

section \<open>The work queue\<close>

type_synonym edge = "string \<times> string"

definition edges_of :: "('d, 's) exec_state \<Rightarrow> edge list" where
  "edges_of st = map (\<lambda>e. (ge_source e, ge_target e)) (eg_edges (er_execution_graph (xs_result st)))"

definition path_of :: "('d, 's) exec_state \<Rightarrow> string list" where
  "path_of st = er_execution_path (xs_result st)"

locale work_queue =
  fixes step :: "string \<Rightarrow> ('d, 's) exec_state \<Rightarrow> (string list \<times> ('d, 's) exec_state) outcome"
    and wires :: "edge set"
  assumes step_path: "step c st = Ret (ts, st') \<Longrightarrow> path_of st' = path_of st @ [c]"
    and step_edges: "step c st = Ret (ts, st') \<Longrightarrow> edges_of st' = edges_of st @ map (Pair c) ts"
    and step_wires: "step c st = Ret (ts, st') \<Longrightarrow> Pair c ` set ts \<subseteq> wires"
begin

text \<open>
  What holds between two rounds: the path is the list of visited nodes, everything queued or visited is
  reachable from the start, and the targets of all edges are queued or visited.
\<close>

definition queue_inv :: "string \<Rightarrow> string list \<Rightarrow> string list \<Rightarrow> ('d, 's) exec_state \<Rightarrow> bool" where
  "queue_inv start queue visited st \<longleftrightarrow>
     path_of st = rev visited \<and> distinct visited \<and> length visited \<le> MAX_VISITS \<and>
     start \<in> set queue \<union> set visited \<and> set (edges_of st) \<subseteq> wires \<and>
     fst ` set (edges_of st) \<subseteq> set visited \<and>
     snd ` set (edges_of st) \<subseteq> set queue \<union> set visited \<and>
     (\<forall>n \<in> set queue \<union> set visited. (start, n) \<in> (set (edges_of st))\<^sup>*)"

lemma queue_inv_skip: "queue_inv start (c # queue) visited st \<Longrightarrow> c \<in> set visited \<Longrightarrow> queue_inv start queue visited st"
  by (auto simp: queue_inv_def)

lemma queue_inv_step:
  assumes "queue_inv start (c # queue) visited st" "c \<notin> set visited" "length (c # visited) \<le> MAX_VISITS"
    and step: "step c st = Ret (ts, st')"
  shows "queue_inv start (queue @ ts) (c # visited) st'"
proof -
  have e: "set (edges_of st') = set (edges_of st) \<union> Pair c ` set ts"
    using step_edges [OF step] by simp
  have mono: "(set (edges_of st))\<^sup>* \<subseteq> (set (edges_of st'))\<^sup>*"
    unfolding e by (intro rtrancl_mono) simp
  have reach: "(start, n) \<in> (set (edges_of st'))\<^sup>*" if "n \<in> set (c # queue) \<union> set visited" for n
    using assms(1) that mono unfolding queue_inv_def by blast
  have "(start, t) \<in> (set (edges_of st'))\<^sup>*" if "t \<in> set ts" for t
    using reach [of c] that e by (auto intro: rtrancl_into_rtrancl)
  then show ?thesis
    using assms reach step_path [OF step] step_wires [OF step] unfolding queue_inv_def e by auto
qed

definition stopped :: "string \<Rightarrow> string list \<Rightarrow> ('d, 's) exec_state \<Rightarrow> bool" where
  "stopped start visited st \<longleftrightarrow>
     queue_inv start [] visited st \<or>
     (\<exists>c q st1. queue_inv start (c # q) visited st1 \<and> c \<notin> set visited \<and> length visited = MAX_VISITS \<and>
        path_of st = path_of st1 \<and> edges_of st = edges_of st1)"

lemma exec_loop_stopped:
  assumes "f = step" "queue_inv start queue visited st" "exec_loop f queue visited st = Ret (visited', st')"
  shows "stopped start visited' st'"
  using assms
proof (induction f queue visited st rule: exec_loop.induct)
  case (1 f visited st)
  then show ?case by (simp add: stopped_def)
next
  case (2 f c queue visited st)
  consider "c \<in> set visited" | "c \<notin> set visited" "MAX_VISITS < length (c # visited)"
    | "c \<notin> set visited" "\<not> MAX_VISITS < length (c # visited)" by blast
  then show ?case
  proof cases
    case 1
    then show ?thesis using 2 queue_inv_skip by (metis exec_loop.simps(2))
  next
    case 2
    then have out: "visited' = visited" "path_of st' = path_of st" "edges_of st' = edges_of st"
      using "2.prems"(3) by (auto simp: path_of_def edges_of_def)
    moreover have "length visited = MAX_VISITS"
      using 2 "2.prems"(2) by (simp add: queue_inv_def)
    ultimately show ?thesis using 2 "2.prems"(2) unfolding stopped_def by blast
  next
    case 3
    then obtain ts st1 where st: "f c st = Ret (ts, st1)" "exec_loop f (queue @ ts) (c # visited) st1 = Ret (visited', st')"
      using "2.prems"(3) by (auto split: outcome.splits prod.splits)
    have "queue_inv start (queue @ ts) (c # visited) st1"
      using queue_inv_step [of start c queue visited st ts st1] "2.prems"(1,2) 3 st(1) by simp
    then show ?thesis
      using "2.IH"(2) [OF 3 st(1) refl "2.prems"(1)] st(2) by blast
  qed
qed

lemma stopped_explored:
  assumes "stopped start visited st"
  shows "distinct (path_of st) \<and> length (path_of st) \<le> MAX_VISITS \<and> set (edges_of st) \<subseteq> wires \<and>
    set (path_of st) \<subseteq> {n. (start, n) \<in> (set (edges_of st))\<^sup>*} \<and>
    (card {n. (start, n) \<in> (set (edges_of st))\<^sup>*} \<le> MAX_VISITS \<longrightarrow>
       set (path_of st) = {n. (start, n) \<in> (set (edges_of st))\<^sup>*})"
proof -
  let ?R = "{n. (start, n) \<in> (set (edges_of st))\<^sup>*}"
  show ?thesis
  proof (cases "queue_inv start [] visited st")
    case True
    have "n \<in> set visited" if "(start, n) \<in> (set (edges_of st))\<^sup>*" for n
      using that
    proof (induction rule: rtrancl_induct)
      case base
      then show ?case using True by (simp add: queue_inv_def)
    next
      case (step y z)
      then have "z \<in> snd ` set (edges_of st)" by force
      then show ?case using True by (auto simp: queue_inv_def)
    qed
    then show ?thesis using True by (auto simp: queue_inv_def)
  next
    case False
    then obtain c q st1 where q: "queue_inv start (c # q) visited st1" "c \<notin> set visited"
        "length visited = MAX_VISITS" "path_of st = path_of st1" "edges_of st = edges_of st1"
      using assms unfolding stopped_def by blast
    have fin: "finite ?R"
    proof (rule finite_subset)
      show "?R \<subseteq> insert start (snd ` set (edges_of st))"
      proof
        fix n assume "n \<in> ?R"
        then have "(start, n) \<in> (set (edges_of st))\<^sup>*" by simp
        then show "n \<in> insert start (snd ` set (edges_of st))"
          by (cases rule: rtranclE) force+
      qed
    qed simp
    have "insert c (set visited) \<subseteq> ?R"
      using q by (auto simp: queue_inv_def)
    then have "card (insert c (set visited)) \<le> card ?R"
      using fin by (intro card_mono)
    moreover have "card (insert c (set visited)) = Suc MAX_VISITS"
      using q by (simp add: queue_inv_def distinct_card)
    ultimately have "\<not> card ?R \<le> MAX_VISITS" by simp
    then show ?thesis using q by (auto simp: queue_inv_def)
  qed
qed

text \<open>A step that never panics never makes the loop panic.\<close>

lemma exec_loop_returns:
  assumes "f = step" "\<And>c st. step c st \<noteq> Panic"
  shows "exec_loop f queue visited st \<noteq> Panic"
  using assms(1)
proof (induction f queue visited st rule: exec_loop.induct)
  case (2 f c queue visited st)
  then show ?case using assms(2) [of c st] by (auto split: outcome.splits)
qed simp

end

section \<open>Every node keeps the laws of the queue\<close>

named_theorems trace_simps \<open>what the operations add to path and edges\<close>

lemma path_of_on_graph [trace_simps]: "path_of (on_graph f st) = path_of st"
  by (simp add: path_of_def on_graph_def)

lemma edges_of_on_graph [trace_simps]:
  "edges_of (on_graph (push_node n ty l) st) = edges_of st"
  "edges_of (on_graph (finish_node n status kind reason) st) = edges_of st"
  "edges_of (on_graph (\<lambda>g. snd (activate_edges n port ts g)) st) = edges_of st @ map (Pair n) ts"
  by (simp_all add: edges_of_def on_graph_def push_node_def finish_node_def activate_edges_def comp_def)

lemma trace_updates [trace_simps]:
  "path_of (st\<lparr>xs_values := vals\<rparr>) = path_of st" "edges_of (st\<lparr>xs_values := vals\<rparr>) = edges_of st"
  "path_of (st\<lparr>xs_world := w\<rparr>) = path_of st" "edges_of (st\<lparr>xs_world := w\<rparr>) = edges_of st"
  "path_of (st\<lparr>xs_snapshot := sn\<rparr>) = path_of st" "edges_of (st\<lparr>xs_snapshot := sn\<rparr>) = edges_of st"
  "path_of (st\<lparr>xs_point_values := pv\<rparr>) = path_of st" "edges_of (st\<lparr>xs_point_values := pv\<rparr>) = edges_of st"
  "path_of (st\<lparr>xs_errors := es\<rparr>) = path_of st" "edges_of (st\<lparr>xs_errors := es\<rparr>) = edges_of st"
  "path_of (st\<lparr>xs_result := (xs_result st)\<lparr>er_matched_condition := mc\<rparr>\<rparr>) = path_of st"
  "edges_of (st\<lparr>xs_result := (xs_result st)\<lparr>er_matched_condition := mc\<rparr>\<rparr>) = edges_of st"
  by (simp_all add: path_of_def edges_of_def)

lemma trace_helpers [trace_simps]:
  "path_of (fail_node n status kind reason st) = path_of st" "edges_of (fail_node n status kind reason st) = edges_of st"
  "path_of (end_node n kind' reason' st) = path_of st" "edges_of (end_node n kind' reason' st) = edges_of st"
  "path_of (add_detail n d st) = path_of st" "edges_of (add_detail n d st) = edges_of st"
  "path_of (add_action a st) = path_of st" "edges_of (add_action a st) = edges_of st"
  by (simp_all add: fail_node_def end_node_def Let_def trace_simps)
    (simp_all add: path_of_def edges_of_def add_detail_def add_action_def)

text \<open>Two states with the same path and edges.\<close>

definition same_trace :: "('d, 's) exec_state \<Rightarrow> ('d, 's) exec_state \<Rightarrow> bool" where
  "same_trace st st' \<longleftrightarrow> path_of st' = path_of st \<and> edges_of st' = edges_of st"

lemma same_trace_read_node: "read_node env n vs err skip st = (r, st') \<Longrightarrow> same_trace st st'"
  by (auto simp: same_trace_def read_node_def trace_simps Let_def split: prod.splits sum.splits if_splits)

lemma same_trace_take_snapshot: "take_snapshot ch st = (snap, st') \<Longrightarrow> same_trace st st'"
  by (auto simp: same_trace_def take_snapshot_def trace_simps Let_def split: prod.splits)

lemma same_trace_run_assignments: "run_assignments env vs as acts st = (acts', st') \<Longrightarrow> same_trace st st'"
proof (induction env vs as acts st rule: run_assignments.induct)
  case (1 env vs acts st)
  then show ?case by (simp add: same_trace_def)
next
  case (2 env vs a as acts st)
  then show ?case
    by (auto simp: same_trace_def trace_simps Let_def split: option.splits prod.splits)
qed

lemma run_calculation_cases:
  assumes "run_calculation env rid n vs c acts st = Ret (acts', st')"
  obtains (failed) e s where "acts' = None"
      "st' = fail_node n Failed ''execution_error'' (''Calc '' @ quoted (cr_formula c) @ '' error: '' @ calc_error_text e)
         (st\<lparr>xs_world := tick ((xs_world st)\<lparr>rw_state := s\<rparr>)\<rparr>)"
    | (silent) v s where "acts' = Some acts"
      "st' = st\<lparr>xs_world := tick ((xs_world st)\<lparr>rw_state := s\<rparr>), xs_values := (xs_values st)(cr_output c \<mapsto> v)\<rparr>"
    | (acted) v s var a w where "acts' = Some (acts @ [a])"
      "write_calculation_result env var v (tick ((xs_world st)\<lparr>rw_state := s\<rparr>)) = (a, w)"
      "st' = (add_action a (st\<lparr>xs_world := w\<rparr>))\<lparr>xs_values := (xs_values st)(cr_output c \<mapsto> v)\<rparr>"
proof -
  let ?ev = "evaluate (re_calc env) (re_store env) (calc_context rid) (re_calc_clock env (rw_tick (xs_world st)))
          (cr_formula c) (xs_values st) (rw_state (xs_world st))"
  obtain r s where ev: "?ev = Ret (r, s)"
    using assms by (cases ?ev) (auto simp: run_calculation_def)
  let ?w = "tick ((xs_world st)\<lparr>rw_state := s\<rparr>)"
  show thesis
  proof (cases r)
    case (Inl e)
    then show thesis using assms ev by (intro failed [of e s]) (simp_all add: run_calculation_def Let_def)
  next
    case (Inr v)
    show thesis
    proof (cases "find (\<lambda>x. rv_name x = cr_output c) vs")
      case None
      then show thesis using assms ev Inr by (intro silent [of v s]) (simp_all add: run_calculation_def Let_def)
    next
      case (Some var)
      obtain a w where "write_calculation_result env var v ?w = (a, w)" by fastforce
      then show thesis
        using assms ev Inr Some by (intro acted [of a var v s w]) (simp_all add: run_calculation_def Let_def add_action_def)
    qed
  qed
qed

lemma same_trace_run_calculation:
  assumes "run_calculation env rid n vs c acts st = Ret (acts', st')"
  shows "same_trace st st'"
  using assms by (cases rule: run_calculation_cases) (simp_all add: same_trace_def trace_simps)

lemma same_trace_trans: "same_trace st st1 \<Longrightarrow> same_trace st1 st2 \<Longrightarrow> same_trace st st2"
  by (simp add: same_trace_def)

lemma same_trace_run_calculations:
  "run_calculations env rid n vs cs acts st = Ret (acts', st') \<Longrightarrow> same_trace st st'"
proof (induction cs arbitrary: acts st)
  case Nil
  then show ?case by (simp add: same_trace_def)
next
  case (Cons c cs)
  then show ?case
    by (auto simp: outcome_simps split: option.splits
        dest!: same_trace_run_calculation intro: same_trace_trans)
qed

lemma follow_trace [trace_simps]:
  "fst (follow n port ts st) = ts" "path_of (snd (follow n port ts st)) = path_of st"
  "edges_of (snd (follow n port ts st)) = edges_of st @ map (Pair n) ts"
  by (simp_all add: follow_def trace_simps)

lemma follow_default_trace [trace_simps]:
  "path_of (snd (follow_default n ws st)) = path_of st"
  "edges_of (snd (follow_default n ws st)) = edges_of st @ map (Pair n) (fst (follow_default n ws st))"
  by (simp_all add: follow_default_def trace_simps)

definition node_wires :: "rule_node \<Rightarrow> string list" where
  "node_wires node =
     (case node of
        Start ws \<Rightarrow> ws
      | End \<Rightarrow> []
      | Switch _ _ wires \<Rightarrow> concat (map snd wires)
      | ChangeValue _ _ ws \<Rightarrow> ws
      | Calculation _ _ ws \<Rightarrow> ws
      | PeriodDelta _ _ _ ws \<Rightarrow> ws)"

text \<open>The result of a node: the path stays, an edge is added for every target, and targets are wires.\<close>

definition traced :: "string \<Rightarrow> string list \<Rightarrow> ('d, 's) exec_state \<Rightarrow> string list \<times> ('d, 's) exec_state \<Rightarrow> bool" where
  "traced n ws st r \<longleftrightarrow>
     path_of (snd r) = path_of st \<and> edges_of (snd r) = edges_of st @ map (Pair n) (fst r) \<and> set (fst r) \<subseteq> set ws"

lemma traced_stop: "same_trace st st' \<Longrightarrow> traced n ws st ([], st')"
  by (simp add: traced_def same_trace_def)

lemma traced_follow_default: "same_trace st st' \<Longrightarrow> traced n ws st (follow_default n ws st')"
  by (auto simp: traced_def same_trace_def trace_simps) (auto simp: follow_default_def follow_def split: if_splits)

lemma traced_follow: "same_trace st st' \<Longrightarrow> set ts \<subseteq> set ws \<Longrightarrow> traced n ws st (follow n port ts st')"
  by (simp add: traced_def same_trace_def trace_simps)

lemma switch_targets:
  "evaluate_rule_switch_with_details pr rules wires vals = (ts, port, cond) \<Longrightarrow> set ts \<subseteq> set (concat (map snd wires))"
proof (induction pr rules wires vals rule: evaluate_rule_switch_with_details.induct)
  case (2 pr b bs wires vals)
  then show ?case by (auto split: if_splits option.splits dest!: map_of_SomeD)
qed simp

lemma traced_switch: "traced n (concat (map snd wires)) st (exec_switch env n vs rules wires st)"
proof -
  obtain r st1 where r: "read_node env n vs ''Failed to read variables: ''
      ''Rule cycle skipped: variables unavailable: '' st = (r, st1)" by fastforce
  note s1 = same_trace_read_node [OF r]
  show ?thesis
  proof (cases r)
    case None
    then show ?thesis using r s1 by (simp add: exec_switch_def traced_stop)
  next
    case (Some changed)
    obtain snap st2 where sn: "take_snapshot changed st1 = (snap, st2)" by fastforce
    obtain ts port cond where ev: "evaluate_rule_switch_with_details (re_json env) rules wires (xs_values st2) = (ts, port, cond)"
      by (metis prod_cases3)
    let ?st3 = "case cond of Some c \<Rightarrow> st2\<lparr>xs_result := (xs_result st2)\<lparr>er_matched_condition := Some c\<rparr>\<rparr> | None \<Rightarrow> st2"
    have "same_trace st2 (add_detail n d ?st3)" for d
      by (simp add: same_trace_def trace_simps split: option.split)
    then have tr: "same_trace st (add_detail n d ?st3)" for d
      using s1 same_trace_take_snapshot [OF sn] by (blast intro: same_trace_trans)
    then have te: "same_trace st (end_node n kind reason (add_detail n d ?st3))" for kind reason d
      by (simp add: same_trace_def trace_simps)
    show ?thesis
      using r sn ev Some traced_stop [OF te] traced_follow [OF tr switch_targets [OF ev]]
      by (simp add: exec_switch_def Let_def)
  qed
qed

lemma traced_change: "traced n ws st (exec_change env n vs as ws st)"
proof -
  obtain r st1 where r: "read_node env n vs ''Failed to read variables: ''
      ''Rule cycle skipped: variables unavailable: '' st = (r, st1)" by fastforce
  note s1 = same_trace_read_node [OF r]
  show ?thesis
  proof (cases r)
    case None
    then show ?thesis using r s1 by (simp add: exec_change_def traced_stop)
  next
    case (Some changed)
    obtain snap st2 where sn: "take_snapshot changed st1 = (snap, st2)" by fastforce
    obtain acts st3 where ra: "run_assignments env vs as [] st2 = (acts, st3)" by fastforce
    have "same_trace st3 (add_detail n d st3)" for d by (simp add: same_trace_def trace_simps)
    then have "same_trace st (add_detail n d st3)" for d
      using s1 same_trace_take_snapshot [OF sn] same_trace_run_assignments [OF ra] by (blast intro: same_trace_trans)
    then show ?thesis
      using r sn ra Some by (simp add: exec_change_def traced_follow_default)
  qed
qed

lemma traced_calculation:
  assumes "handle_calculation_node env rid n vs cs ws st = Ret res"
  shows "traced n ws st res"
proof -
  obtain r st1 where r: "read_node env n vs ''Failed to read variables: ''
      ''Calculation skipped: variables unavailable: '' st = (r, st1)" by fastforce
  note s1 = same_trace_read_node [OF r]
  show ?thesis
  proof (cases r)
    case None
    then show ?thesis using r s1 assms by (auto simp: handle_calculation_node_def traced_stop)
  next
    case (Some changed)
    obtain snap st2 where sn: "take_snapshot changed st1 = (snap, st2)" by fastforce
    obtain acts st3 where rc: "run_calculations env rid n vs cs [] st2 = Ret (acts, st3)"
      using assms r Some sn by (cases "run_calculations env rid n vs cs [] st2") (auto simp: handle_calculation_node_def)
    have s3: "same_trace st st3"
      using s1 same_trace_take_snapshot [OF sn] same_trace_run_calculations [OF rc] by (blast intro: same_trace_trans)
    then have "same_trace st (add_detail n d (st3\<lparr>xs_snapshot := None\<rparr>))" for d
      by (simp add: same_trace_def trace_simps)
    then show ?thesis
      using assms r sn rc Some s3 traced_stop traced_follow_default
      by (cases acts) (force simp: handle_calculation_node_def)+
  qed
qed

lemma traced_period_delta: "traced n ws st (handle_period_delta_node env rid n inp out period ws st)"
proof -
  obtain r st1 where r: "read_node env n [inp] ''Failed to read input variable: ''
      ''PeriodDelta skipped: input variable unavailable: '' st = (r, st1)" by fastforce
  note s1 = same_trace_read_node [OF r]
  show ?thesis
  proof (cases r)
    case None
    then show ?thesis using r s1 by (simp add: handle_period_delta_node_def traced_stop)
  next
    case (Some changed)
    obtain snap st2 where sn: "take_snapshot changed st1 = (snap, st2)" by fastforce
    have s2: "same_trace st st2" using s1 same_trace_take_snapshot [OF sn] by (rule same_trace_trans)
    then show ?thesis
      using r sn Some
      by (auto simp: handle_period_delta_node_def Let_def trace_simps same_trace_def
          intro!: traced_stop traced_follow_default split: option.split prod.split sum.split)
  qed
qed

lemma exec_node_traced:
  assumes "exec_node env rl n st = Ret (ts, st')"
  shows "path_of st' = path_of st @ [n] \<and> edges_of st' = edges_of st @ map (Pair n) ts \<and>
    (ts \<noteq> [] \<longrightarrow> (\<exists>node. map_of (rf_nodes (rule_body rl)) n = Some node \<and> set ts \<subseteq> set (node_wires node)))"
proof -
  let ?st = "st\<lparr>xs_result := (xs_result st)\<lparr>er_execution_path := er_execution_path (xs_result st) @ [n]\<rparr>\<rparr>"
  have st: "path_of ?st = path_of st @ [n]" "edges_of ?st = edges_of st"
    by (simp_all add: path_of_def edges_of_def)
  show ?thesis
  proof (cases "map_of (rf_nodes (rule_body rl)) n")
    case None
    then show ?thesis using assms st by (auto simp: exec_node_def trace_simps Let_def)
  next
    case (Some node)
    let ?st1 = "on_graph (push_node n (fst (node_caption node)) (snd (node_caption node))) ?st"
    have st1: "path_of ?st1 = path_of st @ [n]" "edges_of ?st1 = edges_of st"
      using st by (simp_all add: trace_simps)
    have same: "same_trace ?st1 ?st1" by (simp add: same_trace_def)
    have "traced n (node_wires node) ?st1 (ts, st')"
    proof (cases node)
      case (Start ws)
      then show ?thesis
        using assms Some traced_follow [OF same, of ws ws n None]
        by (cases "ws = []") (auto simp: exec_node_def node_wires_def traced_def trace_simps Let_def follow_def)
    next
      case End
      then show ?thesis using assms Some by (auto simp: exec_node_def node_wires_def traced_def trace_simps Let_def)
    next
      case (Switch vs rules wires)
      then show ?thesis
        using assms Some traced_switch [of n wires ?st1 env vs rules] by (simp add: exec_node_def node_wires_def Let_def)
    next
      case (ChangeValue vs as ws)
      then show ?thesis
        using assms Some traced_change [of n ws ?st1 env vs as] by (simp add: exec_node_def node_wires_def Let_def)
    next
      case (Calculation vs cs ws)
      then show ?thesis
        using assms Some traced_calculation [of env "rule_id rl" n vs cs ws ?st1] by (simp add: exec_node_def node_wires_def Let_def)
    next
      case (PeriodDelta inp out period ws)
      then show ?thesis
        using assms Some traced_period_delta [of n ws ?st1 env "rule_id rl" inp out period]
        by (simp add: exec_node_def node_wires_def Let_def)
    qed
    then show ?thesis using st1 Some by (auto simp: traced_def)
  qed
qed

definition flow_wires :: "rule \<Rightarrow> edge set" where
  "flow_wires rl = {(n, t). \<exists>node. map_of (rf_nodes (rule_body rl)) n = Some node \<and> t \<in> set (node_wires node)}"

interpretation fx: work_queue "exec_node env rl" "flow_wires rl" for env rl
proof unfold_locales
  fix c st ts st'
  assume "exec_node env rl c st = Ret (ts, st')"
  from exec_node_traced [OF this] show "path_of st' = path_of st @ [c]"
      "edges_of st' = edges_of st @ map (Pair c) ts" "Pair c ` set ts \<subseteq> flow_wires rl"
    by (cases "ts = []"; fastforce simp: flow_wires_def)+
qed

section \<open>No step panics\<close>

lemma run_calculation_returns:
  assumes "regex_ranges (re_calc env)"
  shows "run_calculation env rid n vs c acts st \<noteq> Panic"
  by (auto simp: run_calculation_def outcome_simps Let_def evaluate_returns [OF assms] split: sum.splits prod.splits)

lemma run_calculations_return:
  assumes "regex_ranges (re_calc env)"
  shows "run_calculations env rid n vs cs acts st \<noteq> Panic"
proof (induction cs arbitrary: acts st)
  case (Cons c cs)
  then show ?case
    using run_calculation_returns [OF assms] by (auto simp: outcome_simps split: option.splits)
qed simp

lemma exec_node_returns:
  assumes "regex_ranges (re_calc env)"
  shows "exec_node env rl n st \<noteq> Panic"
proof -
  have "handle_calculation_node env rid n vs cs ws st1 \<noteq> Panic" for rid vs cs ws st1
    using run_calculations_return [OF assms]
    by (auto simp: handle_calculation_node_def outcome_simps split: prod.splits option.splits)
  then show ?thesis
    by (auto simp: exec_node_def Let_def split: option.split rule_node.split)
qed

section \<open>Properties of a run\<close>

definition result_edges :: "rule_execution_result \<Rightarrow> edge set" where
  "result_edges res = (\<lambda>e. (ge_source e, ge_target e)) ` set (eg_edges (er_execution_graph res))"

text \<open>C11. Every execution of a flow ends, whatever cycles its graph has: it visits at most 1000 nodes, none of them
  twice, all of them reached from the start node over the edges it reports, which are wires of the flow; and
  unless those edges reach more than 1000 nodes, every node they reach is visited.\<close>

theorem flow_execution_terminates:
  assumes "regex_ranges (re_calc env)"
  shows "\<exists>res w'. execute env rl w = Ret (res, w') \<and>
    (let reached = {n. (rf_start_node (rule_body rl), n) \<in> (result_edges res)\<^sup>*} in
     distinct (er_execution_path res) \<and> length (er_execution_path res) \<le> 1000 \<and>
     result_edges res \<subseteq> flow_wires rl \<and> set (er_execution_path res) \<subseteq> reached \<and>
     (card reached \<le> 1000 \<longrightarrow> set (er_execution_path res) = reached))"
proof -
  let ?start = "rf_start_node (rule_body rl)"
  have "exec_loop (exec_node env rl) [?start] [] (exec_init rl w) \<noteq> Panic"
    using exec_node_returns [OF assms] by (intro fx.exec_loop_returns [OF refl])
  then obtain visited st where loop: "exec_loop (exec_node env rl) [?start] [] (exec_init rl w) = Ret (visited, st)"
    by (cases "exec_loop (exec_node env rl) [?start] [] (exec_init rl w)") auto
  have "fx.queue_inv rl ?start [?start] [] (exec_init rl w)"
    by (simp add: fx.queue_inv_def path_of_def edges_of_def exec_init_def MAX_VISITS_def)
  from fx.stopped_explored [OF fx.exec_loop_stopped [OF refl this loop]] loop
  show ?thesis
    by (simp add: execute_def MAX_VISITS_def result_edges_def path_of_def edges_of_def Let_def)
qed

section \<open>An example\<close>

definition demo_calc_env :: calc_env where
  "demo_calc_env =
     \<lparr>ce_eval = (\<lambda>_ _ _. Inl (Engine_Error [])), ce_powi10 = (\<lambda>_. f64_one), ce_integrate = None, ce_moving_avg = None,
      ce_rate = None, ce_display = (\<lambda>_. []),
      ce_serde = \<lparr>sd_integrate = demo_serde, sd_moving_avg = \<lparr>to_vec = \<lambda>_. None, from_slice = \<lambda>_. None\<rparr>,
        sd_rate = \<lparr>to_vec = \<lambda>_. None, from_slice = \<lambda>_. None\<rparr>, sd_period = \<lparr>to_vec = \<lambda>_. None, from_slice = \<lambda>_. None\<rparr>\<rparr>,
      ce_period_start = (\<lambda>_ _. 0)\<rparr>"

text \<open>An environment without shared memory and without a dispatcher.\<close>

definition demo_rule_env :: "(unit, string \<rightharpoonup> string) rule_env" where
  "demo_rule_env =
     \<lparr>re_fmt = demo_format, re_display = (\<lambda>_. ''0''), re_json = (\<lambda>_. ''0''), re_eval_number = (\<lambda>_ _. Inl []),
      re_calc = demo_calc_env, re_store = memory_state_store, re_clock = (\<lambda>n. of_nat n),
      re_calc_clock = (\<lambda>_ _ _. 0), re_shm = None, re_hmget = (\<lambda>_ k fs db. Inr (mem_hash_mget k fs db)),
      re_dispatch = None, re_order = (\<lambda>_ _. 0), re_cache = demo_m2c\<rparr>"

definition demo_target :: rule_variable where
  "demo_target = \<lparr>rv_name = ''Y'', rv_instance = Some 1, rv_point_type = Some ''action'', rv_point = Some 2, rv_formula = []\<rparr>"

definition demo_rule :: rule where
  "demo_rule =
     \<lparr>rule_id = 1, rule_name = ''r'', rule_enabled = True, rule_priority = 0, rule_cooldown_ms = 0,
      rule_trigger_config = None,
      rule_body = \<lparr>rf_start_node = ''s'',
        rf_nodes = [(''s'', Start [''c'']),
          (''c'', ChangeValue [demo_target] [\<lparr>va_variables = ''Y'', va_value = JNumber (PosInt 0)\<rparr>] [''s''])]\<rparr>\<rparr>"

definition demo_world :: "(unit, string \<rightharpoonup> string) rule_world" where
  "demo_world = \<lparr>rw_db = mem_new, rw_dispatch = (), rw_state = Map.empty, rw_tick = 0\<rparr>"

theorem flow_execution_terminates_witness:
  "\<exists>res w'. execute demo_rule_env demo_rule demo_world = Ret (res, w') \<and> distinct (er_execution_path res) \<and>
     result_edges res \<subseteq> flow_wires demo_rule"
proof -
  have "regex_ranges (re_calc demo_rule_env)"
    by (simp add: regex_ranges_def demo_rule_env_def demo_calc_env_def)
  from flow_execution_terminates [OF this, of demo_rule demo_world] show ?thesis
    by (auto simp: Let_def)
qed

end
