(* ===== verification/Rule_Actions.thy ===== *)
theory Rule_Actions
  imports Rule_Flow
begin

text \<open>
  What rules do: what an action that reports success has done, that readings that are missing never cause an
  action, and what the reported result leaves out.
\<close>

section \<open>Actions\<close>

lemma validate_action_value_Inr: "validate_action_value v = Inr x \<longleftrightarrow> x = v \<and> f64_is_finite v"
  by (simp add: validate_action_value_def validate_default)

text \<open>The fields of the database a committed action sets.\<close>

definition committed ::
  "('d, 's) rule_env \<Rightarrow> u32 \<Rightarrow> u32 \<Rightarrow> f64 \<Rightarrow> m2c_target option \<Rightarrow> i64 \<Rightarrow> memory_rtdb \<Rightarrow> memory_rtdb \<Rightarrow> bool"
where
  "committed env i p v target now db db' \<longleftrightarrow>
     (\<forall>k f. mem_hash_get k f db' =
        first_some (routed_field (re_fmt env) target v now k f)
          (if k = instance_action_ts_key production i \<and> f = u32_to_string p then Some (i64_to_bytes (re_fmt env) now)
           else if k = instance_action_key production i \<and> f = u32_to_string p then Some (re_display env v)
           else mem_hash_get k f db))"

lemma commit_routed:
  assumes "decimal_ids (re_fmt env)" "f64_is_finite v"
    and "set_action_point_with_target_at (re_display env) (re_fmt env) i (u32_to_string p) v target now db = (r, db')"
  shows "committed env i p v target now db db' \<and> (\<exists>out. r = Inr out \<and> aro_routed out = (target \<noteq> None))"
  using commit_effect [OF assms(1,3)] assms(2) unfolding committed_def by blast

lemma write_action_point_cases:
  assumes "decimal_ids (re_fmt env)" "f64_is_finite v"
    and "write_action_point env i p (u32_to_string p) v w = (ok, w')"
  obtains (local) "\<not> ok" "lookup_m2c_by_parts (re_cache env) i Adjustment p = None"
      "committed env i p v None (re_clock env (rw_tick w)) (rw_db w) (rw_db w')" "rw_dispatch w' = rw_dispatch w"
    | (refused) target where "\<not> ok" "lookup_m2c_by_parts (re_cache env) i Adjustment p = Some target"
      "rw_db w' = rw_db w"
    | (delivered) target send out where "ok" "lookup_m2c_by_parts (re_cache env) i Adjustment p = Some target"
      "re_dispatch env = Some send"
      "send (rw_tick w) (route_context_from_target target (re_clock env (rw_tick w))) v (rw_dispatch w) = (out, rw_dispatch w')"
      "out = Delivered \<or> out = Noop"
      "committed env i p v (Some target) (re_clock env (rw_tick w)) (rw_db w) (rw_db w')"
proof (cases "lookup_m2c_by_parts (re_cache env) i Adjustment p")
  case None
  let ?now = "re_clock env (rw_tick w)"
  obtain r db where r: "set_action_point_with_target_at (re_display env) (re_fmt env) i (u32_to_string p) v None ?now (rw_db w) = (r, db)"
    by fastforce
  from commit_routed [OF assms(1,2) r] show thesis
    using assms(3) None r by (intro local) (auto simp: write_action_point_def set_action_point_with_target_def tick_def Let_def)
next
  case (Some target)
  let ?now = "re_clock env (rw_tick w)" let ?ctx = "route_context_from_target target ?now"
  have val: "validate_action_value v = Inr v" using assms(2) by (simp add: validate_action_value_Inr)
  obtain b w1 where d: "dispatch_action_to_comsrv env ?ctx v w = (b, w1)" by fastforce
  have db1: "rw_db w1 = rw_db w"
    using d by (auto simp: dispatch_action_to_comsrv_def tick_def split: option.splits prod.splits)
  show thesis
  proof (cases b)
    case False
    then show thesis
      using assms(3) Some val d db1 by (intro refused [of target]) (auto simp: write_action_point_def Let_def)
  next
    case True
    obtain send out dd where sd: "re_dispatch env = Some send" "send (rw_tick w) ?ctx v (rw_dispatch w) = (out, dd)"
        "out = Delivered \<or> out = Noop" "rw_dispatch w1 = dd"
      using d True
      by (auto simp: dispatch_action_to_comsrv_def tick_def split: option.splits prod.splits dispatch_outcome.splits)
    obtain r db where r: "set_action_point_with_target_at (re_display env) (re_fmt env) i (u32_to_string p) v (Some target) ?now (rw_db w1) = (r, db)"
      by fastforce
    have out: "ok = True" "w' = tick (w1\<lparr>rw_db := db\<rparr>)"
      using assms(3) Some val d True r commit_routed [OF assms(1,2) r]
      by (auto simp: write_action_point_def Let_def)
    then show thesis
      using Some sd commit_routed [OF assms(1,2) r] db1
      by (intro delivered [of target send out]) (auto simp: tick_def)
  qed
qed

definition measured :: "('d, 's) rule_env \<Rightarrow> u32 \<Rightarrow> u32 \<Rightarrow> f64 \<Rightarrow> i64 \<Rightarrow> memory_rtdb \<Rightarrow> memory_rtdb \<Rightarrow> bool" where
  "measured env i p v now db db' \<longleftrightarrow>
     (\<forall>k f. mem_hash_get k f db' =
        (if k = instance_measurement_ts_key production i \<and> f = u32_to_string p then Some (i64_to_bytes (re_fmt env) now)
         else if k = instance_measurement_key production i \<and> f = u32_to_string p then Some (f64_to_bytes (re_fmt env) v)
         else mem_hash_get k f db))"

lemma write_measurement_point_effect:
  assumes "decimal_ids (re_fmt env)"
  shows "measured env i p v (re_clock env (rw_tick w)) (rw_db w) (rw_db (write_measurement_point env i p v w))"
  using assms by (auto simp: measured_def write_measurement_point_def tick_def Let_def)

text \<open>An action of a rule that reports success, and one that does not.\<close>

definition action_done :: "('d, 's) rule_env \<Rightarrow> u32 \<Rightarrow> u32 \<Rightarrow> action_result \<Rightarrow> ('d, 's) rule_world \<Rightarrow> ('d, 's) rule_world \<Rightarrow> bool" where
  "action_done env i p a w w' \<longleftrightarrow>
     (let v = ar_value a; now = re_clock env (rw_tick w) in
      ar_point_type a = ''M'' \<and> measured env i p v now (rw_db w) (rw_db w') \<or>
      ar_point_type a = ''A'' \<and>
        (\<exists>target send out.
           lookup_m2c_by_parts (re_cache env) i Adjustment p = Some target \<and> re_dispatch env = Some send \<and>
           send (rw_tick w) (route_context_from_target target now) v (rw_dispatch w) = (out, rw_dispatch w') \<and>
           (out = Delivered \<or> out = Noop) \<and> committed env i p v (Some target) now (rw_db w) (rw_db w')))"

definition stored_locally :: "('d, 's) rule_env \<Rightarrow> u32 \<Rightarrow> u32 \<Rightarrow> action_result \<Rightarrow> ('d, 's) rule_world \<Rightarrow> ('d, 's) rule_world \<Rightarrow> bool" where
  "stored_locally env i p a w w' \<longleftrightarrow>
     ar_point_type a = ''A'' \<and> lookup_m2c_by_parts (re_cache env) i Adjustment p = None \<and>
     committed env i p (ar_value a) None (re_clock env (rw_tick w)) (rw_db w) (rw_db w')"

lemma write_to_point_effect:
  assumes "decimal_ids (re_fmt env)" "f64_is_finite v" "write_to_point env i p v pt w = (a, w')"
  shows "ar_target_id a = i \<and> ar_point_id a = p \<and> ar_value a = v \<and>
    (if ar_success a then action_done env i p a w w' else rw_db w' = rw_db w \<or> stored_locally env i p a w w')"
proof -
  consider "pt = ''M''" | "pt = ''A''" | "pt \<noteq> ''M''" "pt \<noteq> ''A''" by blast
  then show ?thesis
  proof cases
    case 1
    then show ?thesis
      using assms write_measurement_point_effect [OF assms(1), of i p v w]
      by (auto simp: write_to_point_def instance_action_def action_done_def)
  next
    case 2
    obtain ok w1 where r: "write_action_point env i p (u32_to_string p) v w = (ok, w1)" by fastforce
    then have a: "a = instance_action i ''A'' p v ok" "w1 = w'"
      using assms 2 by (auto simp: write_to_point_def)
    from r show ?thesis
      unfolding a(2)
    proof (cases rule: write_action_point_cases [OF assms(1,2) r, case_names local refused delivered])
      case local
      then show ?thesis using a by (simp add: instance_action_def stored_locally_def)
    next
      case (refused target)
      then show ?thesis using a by (simp add: instance_action_def)
    next
      case (delivered target send out)
      then show ?thesis using a by (auto simp: instance_action_def action_done_def Let_def)
    qed
  next
    case 3
    then show ?thesis using assms by (auto simp: write_to_point_def instance_action_def)
  qed
qed

lemma validate_write_target_cases:
  "(case validate_write_target var raw dflt of
      Inl a \<Rightarrow> \<not> ar_success a
    | Inr (i, p, v, pt) \<Rightarrow> rv_instance var = Some i \<and> rv_point var = Some p \<and> v = raw \<and> f64_is_finite raw)"
proof (cases "validate_value raw validation_default")
  case (Inl e)
  then show ?thesis by (simp add: validate_write_target_def instance_action_def)
next
  case (Inr v)
  then show ?thesis
    using validate_default [of raw v]
    by (auto simp: validate_write_target_def instance_action_def Let_def split: option.split)
qed



section \<open>Readings that are missing\<close>

text \<open>Neither the shared memory nor the database ever has a finite value for the point.\<close>

definition no_reading :: "('d, 's) rule_env \<Rightarrow> u32 \<Rightarrow> u32 \<Rightarrow> bool" where
  "no_reading env i p \<longleftrightarrow>
     (\<forall>get n v ts. re_shm env = Some get \<and> get n i 0 p = Some (v, ts) \<longrightarrow> \<not> f64_is_finite v) \<and>
     (\<forall>n fs db rs j v. re_hmget env n (instance_measurement_key production i) fs db = Inr rs \<and>
        j < length fs \<and> j < length rs \<and> fs ! j = get_point_id_str_or_alloc (re_fmt env) p \<and>
        Option.bind (rs ! j) parse_f64 = Some v \<longrightarrow> \<not> f64_is_finite v)"

abbreviation lacking :: "rule_read_outcome \<times> 'v \<Rightarrow> bool" where
  "lacking st \<equiv> ro_missing (fst st) \<noteq> []"

lemma lacking_take_value [simp]: "ro_missing (fst (take_value act i p name v st)) = ro_missing (fst st)"
  by (cases st) (simp add: take_value_def)

lemma lacking_mark_missing [simp]: "lacking (mark_missing name st)"
  by (cases st) (simp add: mark_missing_def)

lemma lacking_take_reply: "lacking st \<Longrightarrow> lacking (take_reply act pv reply st)"
  by (cases pv) (simp add: take_reply_def split: option.split)

lemma lacking_take_replies: "lacking st \<Longrightarrow> lacking (take_replies act pvs rs st)"
  by (induction pvs arbitrary: rs st) (simp_all add: lacking_take_reply)

lemma lacking_fold:
  assumes "\<And>x st. lacking st \<Longrightarrow> lacking (f x st)"
  shows "lacking st \<Longrightarrow> lacking (fold f xs st)"
  using assms by (induction xs arbitrary: st) simp_all

lemma lacking_marks: "pvs \<noteq> [] \<Longrightarrow> lacking (fold (\<lambda>(name, _, _, _). mark_missing name) pvs st)"
proof (cases pvs)
  case (Cons pv rest)
  then show ?thesis
    by (cases pv) (simp, rule lacking_fold, simp_all split: prod.split)
qed simp

lemma lacking_fetch_request: "lacking st \<Longrightarrow> lacking (fetch_request env n db req st)"
proof -
  assume l: "lacking st"
  have "lacking (fold (\<lambda>(name, _, _, _). mark_missing name) pvs st)" for pvs :: "pending_var list"
    using l by (cases "pvs = []") (simp_all add: lacking_marks)
  then show ?thesis
    using l by (auto simp: fetch_request_def lacking_take_replies split: prod.split sum.split)
qed

lemma lacking_read_formula: "lacking st \<Longrightarrow> lacking (read_formula env var st)"
  by (cases st) (simp add: read_formula_def split: option.split)

text \<open>A pending read.\<close>

definition pend :: "'k \<Rightarrow> 'x \<Rightarrow> ('k \<times> 'x list) list \<Rightarrow> bool" where
  "pend k x m \<longleftrightarrow> (\<exists>xs. (k, xs) \<in> set m \<and> x \<in> set xs)"

lemma pend_push [simp]: "pend k x (push_grouped k' y m) \<longleftrightarrow> pend k x m \<or> k = k' \<and> x = y"
proof (induction m)
  case Nil
  then show ?case by (auto simp: pend_def)
next
  case (Cons e m)
  have c: "pend k x ((k1, xs) # m') \<longleftrightarrow> k1 = k \<and> x \<in> set xs \<or> pend k x m'" for k1 xs m'
    by (auto simp: pend_def)
  obtain k1 xs where e: "e = (k1, xs)" by fastforce
  then show ?case
    using Cons by (cases "k1 = k'") (auto simp: c)
qed

lemma read_shm_var_keeps:
  assumes "read_shm_var env n var st reqs = Inr (st', reqs')"
  shows "(lacking st \<longrightarrow> lacking st') \<and> (pend k x reqs \<longrightarrow> pend k x reqs')"
  using assms by (auto simp: read_shm_var_def Let_def split: if_splits option.splits)

lemma no_reading_shm:
  "no_reading env i p \<Longrightarrow> re_shm env = Some g \<Longrightarrow> g n i 0 p = Some (v, ts) \<Longrightarrow> \<not> f64_is_finite v"
  unfolding no_reading_def by blast

lemma read_shm_var_misses:
  assumes "read_shm_var env n var st reqs = Inr (st', reqs')" "no_reading env i p"
    and "rv_formula var = []" "rv_instance var = Some i" "rv_point var = Some p" "rv_point_type var \<noteq> Some ''action''"
  shows "lacking st' \<or>
    pend (instance_measurement_key production i, False) (rv_name var, get_point_id_str_or_alloc (re_fmt env) p, i, p) reqs'"
  using assms by (auto simp: read_shm_var_def Let_def dest: no_reading_shm split: if_splits option.splits)

lemma read_shm_keeps:
  assumes "read_shm env n vs st reqs = (Inr (st', reqs'), vals)"
  shows "(lacking st \<longrightarrow> lacking st') \<and> (pend k x reqs \<longrightarrow> pend k x reqs')"
  using assms
proof (induction vs arbitrary: st reqs)
  case (Cons var vs)
  obtain st1 reqs1 where 1: "read_shm_var env (n + length vs) var st reqs = Inr (st1, reqs1)"
      "read_shm env n vs st1 reqs1 = (Inr (st', reqs'), vals)"
    using Cons.prems by (auto split: sum.splits)
  show ?case
    using read_shm_var_keeps [OF 1(1), of k x] Cons.IH [OF 1(2)] by simp
qed simp

lemma read_shm_misses:
  assumes "read_shm env n vs st reqs = (Inr (st', reqs'), vals)" "no_reading env i p" "var \<in> set vs"
    and "rv_formula var = []" "rv_instance var = Some i" "rv_point var = Some p" "rv_point_type var \<noteq> Some ''action''"
  shows "lacking st' \<or>
    pend (instance_measurement_key production i, False) (rv_name var, get_point_id_str_or_alloc (re_fmt env) p, i, p) reqs'"
  using assms(1,3)
proof (induction vs arbitrary: st reqs)
  case (Cons var' vs)
  obtain st1 reqs1 where 1: "read_shm_var env (n + length vs) var' st reqs = Inr (st1, reqs1)"
      "read_shm env n vs st1 reqs1 = (Inr (st', reqs'), vals)"
    using Cons.prems(1) by (auto split: sum.splits)
  show ?case
  proof (cases "var = var'")
    case True
    then show ?thesis
      using read_shm_var_misses [OF _ assms(2) assms(4-7)] 1 read_shm_keeps [OF 1(2)] by metis
  next
    case False
    then show ?thesis using Cons 1 by auto
  qed
qed simp

text \<open>The request that asks for the point finds nothing either.\<close>

lemma take_replies_misses:
  assumes "(name, fld, i, p) \<in> set pvs"
    and "\<And>j v. j < length pvs \<Longrightarrow> j < length rs \<Longrightarrow> fst (snd (pvs ! j)) = fld \<Longrightarrow>
      Option.bind (rs ! j) parse_f64 = Some v \<Longrightarrow> \<not> f64_is_finite v"
  shows "lacking (take_replies False pvs rs st)"
  using assms
proof (induction pvs arbitrary: rs st)
  case (Cons pv pvs)
  let ?r = "case rs of r # _ \<Rightarrow> r | [] \<Rightarrow> None"
  show ?case
  proof (cases "pv = (name, fld, i, p)")
    case True
    have "\<not> f64_is_finite v" if "Option.bind ?r parse_f64 = Some v" for v
      using Cons.prems(2) [of 0 v] True that by (cases rs) auto
    then have "lacking (take_reply False pv ?r st)"
      using True by (auto simp: take_reply_def split: option.split)
    then show ?thesis by (simp add: lacking_take_replies)
  next
    case False
    have "\<not> f64_is_finite v" if "j < length pvs" "j < length (tl rs)" "fst (snd (pvs ! j)) = fld"
        "Option.bind (tl rs ! j) parse_f64 = Some v" for j v
      using Cons.prems(2) [of "Suc j" v] that by (cases rs) auto
    then show ?thesis using Cons.IH [of "tl rs"] Cons.prems(1) False by simp
  qed
qed simp

lemma fetch_request_misses:
  assumes "no_reading env i p" "(name, get_point_id_str_or_alloc (re_fmt env) p, i, p) \<in> set pvs"
  shows "lacking (fetch_request env n db ((instance_measurement_key production i, False), pvs) st)"
proof (cases "re_hmget env n (instance_measurement_key production i) (map (\<lambda>(_, f, _, _). f) pvs) db")
  case (Inl e)
  have "pvs \<noteq> []" using assms(2) by auto
  then show ?thesis using Inl lacking_marks [of pvs st] by (simp add: fetch_request_def)
next
  case (Inr rs)
  have "\<not> f64_is_finite v" if "j < length pvs" "j < length rs" "fst (snd (pvs ! j)) = get_point_id_str_or_alloc (re_fmt env) p"
      "Option.bind (rs ! j) parse_f64 = Some v" for j v
    using assms(1) Inr that unfolding no_reading_def by (force simp: case_prod_unfold)
  then have "lacking (take_replies False pvs rs st)"
    by (intro take_replies_misses [OF assms(2)])
  then show ?thesis using Inr by (simp add: fetch_request_def)
qed

lemma fold_requests_misses:
  assumes "no_reading env i p" "pend (instance_measurement_key production i, False)
      (name, get_point_id_str_or_alloc (re_fmt env) p, i, p) (map snd reqs)"
  shows "lacking (fold (\<lambda>(k, r). fetch_request env (n + k) db r) reqs st)"
  using assms(2)
proof (induction reqs arbitrary: st)
  case Nil
  then show ?case by (simp add: pend_def)
next
  case (Cons e reqs)
  obtain k key pvs where e: "e = (k, key, pvs)" by (metis prod_cases3)
  show ?case
  proof (cases "key = (instance_measurement_key production i, False) \<and>
      (name, get_point_id_str_or_alloc (re_fmt env) p, i, p) \<in> set pvs")
    case True
    then have "lacking (fetch_request env (n + k) db (key, pvs) st)"
      using fetch_request_misses [OF assms(1), of name pvs "n + k" db st] by simp
    then have "lacking (fold (\<lambda>(k, r). fetch_request env (n + k) db r) reqs (fetch_request env (n + k) db (key, pvs) st))"
      by (rule lacking_fold [rotated]) (simp add: lacking_fetch_request split: prod.split)
    then show ?thesis using e by simp
  next
    case False
    then have "pend (instance_measurement_key production i, False)
        (name, get_point_id_str_or_alloc (re_fmt env) p, i, p) (map snd reqs)"
      using Cons.prems e by (auto simp: pend_def)
    then show ?thesis using Cons.IH e by simp
  qed
qed

lemma read_rule_variables_misses:
  assumes "no_reading env i p" "var \<in> set vs"
    and "rv_formula var = []" "rv_instance var = Some i" "rv_point var = Some p" "rv_point_type var \<noteq> Some ''action''"
    and "read_rule_variables env vs vals w = (Inr o1, vals', w')"
  shows "ro_missing o1 \<noteq> []"
proof -
  let ?init = "(\<lparr>ro_values_changed = False, ro_missing = [], ro_point_values = Map.empty\<rparr>, vals)"
  obtain st reqs vals1 where r: "read_shm env (rw_tick w) vs ?init [] = (Inr (st, reqs), vals1)"
    using assms(7) by (auto simp: read_rule_variables_def Let_def split: prod.splits sum.splits)
  let ?reqs = "sort_key (\<lambda>r. re_order env (rw_tick w) (fst r)) reqs"
  let ?st = "fold (\<lambda>(k, r). fetch_request env (rw_tick w + length vs + k) (rw_db w) r) (enumerate 0 ?reqs) st"
  have o1: "o1 = fst (fold (read_formula env) vs ?st)"
    using assms(7) r by (simp add: read_rule_variables_def Let_def)
  have "lacking st \<or> pend (instance_measurement_key production i, False)
      (rv_name var, get_point_id_str_or_alloc (re_fmt env) p, i, p) reqs"
    by (rule read_shm_misses [OF r assms(1-6)])
  then have "lacking ?st"
  proof
    assume "lacking st"
    then show ?thesis
      by (rule lacking_fold [rotated]) (simp add: lacking_fetch_request split: prod.split)
  next
    assume "pend (instance_measurement_key production i, False)
      (rv_name var, get_point_id_str_or_alloc (re_fmt env) p, i, p) reqs"
    then show ?thesis by (intro fold_requests_misses [OF assms(1)]) (simp add: pend_def)
  qed
  then show ?thesis
    unfolding o1 by (rule lacking_fold [rotated]) (simp add: lacking_read_formula)
qed

definition node_variables :: "rule_node \<Rightarrow> rule_variable list" where
  "node_variables node =
     (case node of
        Switch vs _ _ \<Rightarrow> vs
      | ChangeValue vs _ _ \<Rightarrow> vs
      | Calculation vs _ _ \<Rightarrow> vs
      | PeriodDelta inp _ _ _ \<Rightarrow> [inp]
      | _ \<Rightarrow> [])"

text \<open>What a node must leave alone when it does not run.\<close>

definition untouched :: "('d, 's) exec_state \<Rightarrow> ('d, 's) exec_state \<Rightarrow> bool" where
  "untouched st st' \<longleftrightarrow>
     rw_db (xs_world st') = rw_db (xs_world st) \<and> rw_dispatch (xs_world st') = rw_dispatch (xs_world st) \<and>
     rw_state (xs_world st') = rw_state (xs_world st) \<and>
     er_actions_executed (xs_result st') = er_actions_executed (xs_result st)"

lemma read_rule_variables_world:
  assumes "read_rule_variables env vs vals w = (r, vals', w')"
  shows "\<exists>n. w' = w\<lparr>rw_tick := n\<rparr>"
  using assms by (auto simp: read_rule_variables_def Let_def split: prod.splits sum.splits)

lemma read_node_misses:
  assumes "no_reading env i p" "var \<in> set vs"
    and "rv_formula var = []" "rv_instance var = Some i" "rv_point var = Some p" "rv_point_type var \<noteq> Some ''action''"
  shows "\<exists>st'. read_node env n vs err skip st = (None, st') \<and> untouched st st' \<and> xs_errors st' \<noteq> []"
proof -
  obtain r vals w where r: "read_rule_variables env vs (xs_values st) (xs_world st) = (r, vals, w)"
    by (metis prod_cases3)
  obtain k where w: "w = (xs_world st)\<lparr>rw_tick := k\<rparr>"
    using read_rule_variables_world [OF r] by blast
  show ?thesis
  proof (cases r)
    case (Inl e)
    then show ?thesis using r w
      by (simp add: read_node_def untouched_def fail_node_def on_graph_def Let_def)
  next
    case (Inr o1)
    then show ?thesis using r w read_rule_variables_misses [OF assms, of "xs_values st" "xs_world st" o1 vals w]
      by (simp add: read_node_def untouched_def fail_node_def on_graph_def Let_def)
  qed
qed

text \<open>C13. A measurement for which neither the shared memory nor the database has a finite value is never replaced by
  a default: a node that uses it as a variable evaluates nothing, leads nowhere, writes and dispatches nothing, and
  the run reports an error.\<close>

theorem absent_reading_never_acts:
  assumes "no_reading env i p"
    and "map_of (rf_nodes (rule_body rl)) n = Some node" "var \<in> set (node_variables node)"
    and "rv_formula var = []" "rv_instance var = Some i" "rv_point var = Some p" "rv_point_type var \<noteq> Some ''action''"
  shows "\<exists>st'. exec_node env rl n st = Ret ([], st') \<and> untouched st st' \<and> xs_errors st' \<noteq> []"
proof -
  let ?st = "on_graph (push_node n (fst (node_caption node)) (snd (node_caption node)))
    (st\<lparr>xs_result := (xs_result st)\<lparr>er_execution_path := er_execution_path (xs_result st) @ [n]\<rparr>\<rparr>)"
  have u: "untouched ?st st' \<longleftrightarrow> untouched st st'" for st'
    by (simp add: untouched_def on_graph_def)
  note m = read_node_misses [OF assms(1) _ assms(4-7), of _ n _ _ ?st]
  show ?thesis
  proof (cases node)
    case (Switch vs rules wires)
    then obtain st' where "read_node env n vs ''Failed to read variables: ''
        ''Rule cycle skipped: variables unavailable: '' ?st = (None, st')" "untouched ?st st'" "xs_errors st' \<noteq> []"
      using m [of vs] assms(3) by (fastforce simp: node_variables_def)
    then show ?thesis using assms(2) Switch u by (simp add: exec_node_def exec_switch_def Let_def)
  next
    case (ChangeValue vs as ws)
    then obtain st' where "read_node env n vs ''Failed to read variables: ''
        ''Rule cycle skipped: variables unavailable: '' ?st = (None, st')" "untouched ?st st'" "xs_errors st' \<noteq> []"
      using m [of vs] assms(3) by (fastforce simp: node_variables_def)
    then show ?thesis using assms(2) ChangeValue u by (simp add: exec_node_def exec_change_def Let_def)
  next
    case (Calculation vs cs ws)
    then obtain st' where "read_node env n vs ''Failed to read variables: ''
        ''Calculation skipped: variables unavailable: '' ?st = (None, st')" "untouched ?st st'" "xs_errors st' \<noteq> []"
      using m [of vs] assms(3) by (fastforce simp: node_variables_def)
    then show ?thesis using assms(2) Calculation u by (simp add: exec_node_def handle_calculation_node_def Let_def)
  next
    case (PeriodDelta inp out period ws)
    then obtain st' where "read_node env n [inp] ''Failed to read input variable: ''
        ''PeriodDelta skipped: input variable unavailable: '' ?st = (None, st')" "untouched ?st st'" "xs_errors st' \<noteq> []"
      using m [of "[inp]"] assms(3) by (fastforce simp: node_variables_def)
    then show ?thesis using assms(2) PeriodDelta u by (simp add: exec_node_def handle_period_delta_node_def Let_def)
  qed (use assms(3) in \<open>auto simp: node_variables_def\<close>)
qed

theorem absent_reading_never_acts_witness:
  "\<exists>st'. exec_node (demo_rule_env\<lparr>re_hmget := \<lambda>_ _ fs _. Inr (map (\<lambda>_. None) fs)\<rparr>)
      (demo_rule\<lparr>rule_body := \<lparr>rf_start_node = ''n'',
        rf_nodes = [(''n'', ChangeValue [demo_target\<lparr>rv_point_type := None\<rparr>] [] [])]\<rparr>\<rparr>) ''n''
      (exec_init demo_rule demo_world) = Ret ([], st') \<and> rw_db (xs_world st') = mem_new \<and> xs_errors st' \<noteq> []"
proof -
  let ?env = "demo_rule_env\<lparr>re_hmget := \<lambda>_ _ fs _. Inr (map (\<lambda>_. None) fs)\<rparr>"
  have "no_reading ?env 1 2" by (auto simp: no_reading_def demo_rule_env_def)
  from absent_reading_never_acts [OF this, of "demo_rule\<lparr>rule_body := \<lparr>rf_start_node = ''n'',
        rf_nodes = [(''n'', ChangeValue [demo_target\<lparr>rv_point_type := None\<rparr>] [] [])]\<rparr>\<rparr>" "''n''" _
      "demo_target\<lparr>rv_point_type := None\<rparr>" "exec_init demo_rule demo_world"]
  show ?thesis
    by (auto simp: node_variables_def demo_target_def untouched_def exec_init_def demo_world_def)
qed

section \<open>What the result leaves out\<close>

lemma demo_action:
  "execute_rule_change demo_rule_env demo_target \<lparr>va_variables = ''Y'', va_value = JNumber (PosInt 0)\<rparr> vals w =
     (instance_action 1 ''A'' 2 0 False, w)"
proof -
  have fin: "f64_is_finite 0" by (simp add: f64_is_finite_def f64_exponent_def)
  have "assigned_value \<lparr>va_variables = ''Y'', va_value = JNumber (PosInt 0)\<rparr> vals = Some 0"
    by (simp add: assigned_value_def json_as_f64_def f64_of_nat_def)
  moreover have "validate_write_target demo_target 0 ''A'' = Inr (1, 2, 0, ''A'')"
    using validate_default [of 0 0] fin
    by (simp add: validate_write_target_def demo_target_def point_type_to_static_def Let_def)
  moreover have "write_to_point demo_rule_env 1 2 0 ''A'' w = (instance_action 1 ''A'' 2 0 False, w)"
    using validate_action_value_Inr [of 0 0] fin
    by (simp add: write_to_point_def write_action_point_def demo_rule_env_def demo_m2c_def lookup_m2c_by_parts_def
        dispatch_action_to_comsrv_def)
  ultimately show ?thesis by (simp add: execute_rule_change_def)
qed

lemma demo_read:
  "\<exists>n. read_rule_variables demo_rule_env [demo_target] vals (demo_world\<lparr>rw_tick := m\<rparr>) =
     (Inr \<lparr>ro_values_changed = False, ro_missing = [], ro_point_values = Map.empty\<rparr>, vals, demo_world\<lparr>rw_tick := n\<rparr>)"
  by (simp add: read_rule_variables_def read_shm_var_def demo_target_def demo_rule_env_def demo_world_def
      fetch_request_def take_reply_def mem_hash_mget_def mem_new_def read_formula_def Let_def)

lemma demo_start:
  "\<exists>st'. exec_node demo_rule_env demo_rule ''s'' st = Ret ([''c''], st') \<and> xs_world st' = xs_world st \<and>
     xs_errors st' = xs_errors st \<and> er_actions_executed (xs_result st') = er_actions_executed (xs_result st)"
  by (simp add: exec_node_def demo_rule_def follow_def on_graph_def Let_def)

lemma demo_change:
  assumes "xs_world st = demo_world\<lparr>rw_tick := m\<rparr>"
  shows "\<exists>st'. exec_node demo_rule_env demo_rule ''c'' st = Ret ([''s''], st') \<and> xs_errors st' = xs_errors st \<and>
    er_actions_executed (xs_result st') = er_actions_executed (xs_result st) @ [instance_action 1 ''A'' 2 0 False]"
proof -
  obtain n where "read_rule_variables demo_rule_env [demo_target] (xs_values st) (xs_world st) =
     (Inr \<lparr>ro_values_changed = False, ro_missing = [], ro_point_values = Map.empty\<rparr>, xs_values st, demo_world\<lparr>rw_tick := n\<rparr>)"
    using demo_read [of "xs_values st" m] assms by auto
  then show ?thesis
    by (simp add: exec_node_def demo_rule_def exec_change_def read_node_def on_graph_def Let_def take_snapshot_def
        demo_action follow_default_def follow_def add_detail_def add_action_def demo_target_def [symmetric]
        split: prod.split)
      (simp add: demo_target_def)
qed

text \<open>The success flag of a run says nothing of its actions: a rule whose only action was refused, because no
  dispatcher is configured for the routed point, reports success and no error.\<close>

lemma failed_actions_report_success:
  "\<exists>res w'. execute demo_rule_env demo_rule demo_world = Ret (res, w') \<and> er_success res \<and> er_error res = None \<and>
     er_actions_executed res \<noteq> [] \<and> list_all (\<lambda>a. \<not> ar_success a) (er_actions_executed res)"
proof -
  obtain st1 where st1: "exec_node demo_rule_env demo_rule ''s'' (exec_init demo_rule demo_world) = Ret ([''c''], st1)"
      "xs_world st1 = demo_world" "xs_errors st1 = []" "er_actions_executed (xs_result st1) = []"
    using demo_start [of "exec_init demo_rule demo_world"] by (auto simp: exec_init_def)
  have w: "xs_world st1 = demo_world\<lparr>rw_tick := 0\<rparr>" using st1(2) by (simp add: demo_world_def)
  obtain st2 where st2: "exec_node demo_rule_env demo_rule ''c'' st1 = Ret ([''s''], st2)" "xs_errors st2 = []"
      "er_actions_executed (xs_result st2) = [instance_action 1 ''A'' 2 0 False]"
    using demo_change [OF w] st1 by auto
  have "exec_loop (exec_node demo_rule_env demo_rule) [''s''] [] (exec_init demo_rule demo_world) = Ret ([''c'', ''s''], st2)"
    using st1(1) st2(1) by (simp add: MAX_VISITS_def)
  then show ?thesis
    using st2 by (simp add: execute_def demo_rule_def instance_action_def)
qed

text \<open>
  A flow whose first node fans out to two more; the second reads a new variable and misses another, the third
  reads that new variable again.
\<close>

definition demo_input :: "string \<Rightarrow> u32 \<Rightarrow> rule_variable" where
  "demo_input name p = \<lparr>rv_name = name, rv_instance = Some 1, rv_point_type = None, rv_point = Some p, rv_formula = []\<rparr>"

definition demo_branch :: "flow_condition list \<Rightarrow> rule_switch_branch list" where
  "demo_branch cs = [\<lparr>sb_name = ''out'', sb_rule_type = ''default'', sb_rule = cs\<rparr>]"

definition demo_at_least_zero :: flow_condition where
  "demo_at_least_zero =
     \<lparr>fc_cond_type = ''variable'', fc_variables = Some ''Z'', fc_operator = Some ''>='', fc_value = Some (JNumber (PosInt 0))\<rparr>"

definition demo_fan_out :: rule where
  "demo_fan_out =
     demo_rule\<lparr>rule_body := \<lparr>rf_start_node = ''a'',
        rf_nodes = [(''a'', Switch [demo_input ''X'' 1] (demo_branch []) [(''out'', [''b'', ''c''])]),
          (''b'', Switch [demo_input ''Z'' 3, demo_input ''Q'' 4] (demo_branch []) []),
          (''c'', Switch [demo_input ''Z'' 3] (demo_branch [demo_at_least_zero]) [])]\<rparr>\<rparr>"

definition demo_shm_env :: "(unit, string \<rightharpoonup> string) rule_env" where
  "demo_shm_env =
     demo_rule_env\<lparr>re_shm := Some (\<lambda>_ i ty p. if p = 1 \<or> p = 3 then Some (0, 0) else None)\<rparr>"

lemma demo_values_finite [simp]: "f64_is_finite 0"
  by (simp add: f64_is_finite_def f64_exponent_def)

lemma demo_a:
  "\<exists>st. exec_node demo_shm_env demo_fan_out ''a'' (exec_init demo_fan_out demo_world) = Ret ([''b'', ''c''], st) \<and>
     xs_values st = [''X'' \<mapsto> 0] \<and> xs_snapshot st = Some [''X'' \<mapsto> 0] \<and> rw_db (xs_world st) = mem_new"
  by (simp add: exec_node_def demo_fan_out_def exec_switch_def read_node_def read_rule_variables_def read_shm_var_def
      demo_input_def demo_shm_env_def demo_rule_env_def take_value_def exec_init_def on_graph_def demo_world_def
      read_formula_def take_snapshot_def snapshot_or_reuse_def demo_branch_def evaluate_flow_conditions_def follow_def
      add_detail_def Let_def)

lemma demo_b:
  assumes "xs_values st = [''X'' \<mapsto> 0]" "xs_snapshot st = Some [''X'' \<mapsto> 0]" "rw_db (xs_world st) = mem_new"
  shows "\<exists>st'. exec_node demo_shm_env demo_fan_out ''b'' st = Ret ([], st') \<and>
     xs_values st' = [''X'' \<mapsto> 0, ''Z'' \<mapsto> 0] \<and> xs_snapshot st' = Some [''X'' \<mapsto> 0]"
  using assms
  by (simp add: exec_node_def demo_fan_out_def exec_switch_def read_node_def read_rule_variables_def read_shm_var_def
      demo_input_def demo_shm_env_def demo_rule_env_def take_value_def on_graph_def
      read_formula_def fetch_request_def take_reply_def mark_missing_def mem_hash_mget_def mem_new_def
      fail_node_def Let_def)

lemma demo_c:
  assumes "xs_values st = [''X'' \<mapsto> 0, ''Z'' \<mapsto> 0]" "xs_snapshot st = Some [''X'' \<mapsto> 0]"
  shows "\<exists>st' d. exec_node demo_shm_env demo_fan_out ''c'' st = Ret ([], st') \<and>
     er_node_details (xs_result st') ''c'' = Some d \<and> nd_input_values d = [''X'' \<mapsto> 0] \<and> xs_values st' ''Z'' = Some 0 \<and>
     nd_condition_results d = Some [\<lparr>cd_expression = ''Z>=0'', cd_result = True, cd_port = ''out''\<rparr>]"
proof -
  have "f64_le 0 0" by (simp add: f64_le_finite)
  moreover have "f64_of_nat 0 = 0" by (simp add: f64_of_nat_def)
  ultimately show ?thesis
    using assms
    by (simp add: exec_node_def demo_fan_out_def exec_switch_def read_node_def read_rule_variables_def read_shm_var_def
        demo_input_def demo_shm_env_def demo_rule_env_def take_value_def on_graph_def
        read_formula_def take_snapshot_def snapshot_or_reuse_def demo_branch_def evaluate_flow_conditions_def
        demo_at_least_zero_def evaluate_flow_condition_def condition_right_def json_as_f64_def compare_with_def
        evaluate_all_conditions_def format_conditions_def trim_quotes_def detail_def end_node_def
        add_detail_def Let_def)
qed


end
