(* ===== verification/Spec2Isabelle.thy ===== *)
theory Spec2Isabelle
  imports Instance_Index Snapshot Command_Path Batch_Direct Cleanup Rule_Actions
begin

text \<open>
  A verification development for VoltageEMS: the shared-memory real-time database and its mirror in
  Redis, the routing tables, the command path between the services, and the rules that act on the data.

  \<^bold>\<open>The program.\<close>  The communication service (\<open>services/comsrv\<close>) polls devices and writes every reading
  into a memory-mapped file; the model service (\<open>services/modsrv\<close>) and the tools read it there.  The file is
  a header and an array of 32-byte cells.  Each cell is a seqlock (\<open>core/slot.rs\<close>).  Which cell belongs to which point
  follows from the number of points of each channel (\<open>layout.rs\<close>), or from a bitmap allocator when channels
  come and go (\<open>core/bitmap.rs\<close>, \<open>channel_index.rs\<close>, \<open>instance_index.rs\<close>).  Routing tables
  (\<open>libs/voltage-routing\<close>) connect channel points with instance points (C2M, M2C) and with each other (C2C).
  Telemetry and signals are written by the communication service, controls and adjustments by the model
  service, which also sends a notification over a socket so that the command is executed at once.
  Readings are also mirrored into hashes of a database (\<open>libs/voltage-rtdb\<close>) through a write buffer.  Rules are
  graphs of nodes (\<open>libs/voltage-rules\<close>) that read points, decide, calculate (\<open>libs/voltage-calc\<close>) and write
  set points back.

  \<^bold>\<open>Conventions.\<close>  Rust integers of fixed width are words, \<open>usize\<close> is a natural number, an \<open>f64\<close> is its 64-bit
  pattern with the arithmetic of \<open>Float_Arith\<close>.  A computation that may panic has the type \<open>outcome\<close>; one that may
  also report an error has the sum type inside it.  Operations of the operating system succeed or fail by an argument,
  as do clock readings, hash functions and the iteration orders of hash maps; the names of these
  arguments are explained where they are introduced.

  \<^bold>\<open>Theories.\<close>
  \<^item> \<open>Prelude\<close>, \<open>Float64\<close>, \<open>Float_Arith\<close>, \<open>Float_Ops\<close>: outcomes, checked indexing, little-endian bytes, bit sets in words,
    sorted maps; floating-point patterns, rounding, the operations the sources use.
  \<^item> \<open>Core_Types\<close> (\<open>libs/voltage-core/src/types.rs\<close>, \<open>frame.rs\<close>): point types and their internal ids,
    values, bounded batches, commands and acknowledgements.
  \<^item> \<open>Point_Slot\<close> (\<open>core/slot.rs\<close>): the cell, and the seqlock as a transition system of a writer and a reader
    that run one memory access at a time; a reader never returns a mixture of two writes.
  \<^item> \<open>Slot_Bitmap\<close> (\<open>core/bitmap.rs\<close>): the owned bitmap and the view over atomic words, both interpretations of
    the contract \<open>slot_allocator\<close>; allocation is exact and the view refines the owned bitmap.
  \<^item> \<open>Layout\<close> (\<open>layout.rs\<close>, \<open>channel_points.rs\<close>): the static layout; distinct points have distinct cells and
    the two writers never share a cache line.
  \<^item> \<open>Channel_Index\<close>, \<open>Instance_Index\<close>: adding, removing and changing channels and instances at run time over
    one bitmap; every reachable index is well formed and blocks never overlap.
  \<^item> \<open>Slot_Writer\<close> (\<open>core/header.rs\<close>, \<open>writer.rs\<close>, \<open>reader.rs\<close>, \<open>slot_io.rs\<close>): the mapped array with dirty tracking;
    the contracts \<open>cell_store\<close> and \<open>slot_store\<close>, and that draining reports exactly the cells written.
  \<^item> \<open>Slot_Index\<close> (\<open>shared_config.rs\<close>, \<open>reverse_index.rs\<close>): point to cell and back are inverse.
  \<^item> \<open>Point_Watch\<close> (\<open>subscription_bitmap.rs\<close>, \<open>point_watch*.rs\<close>): change events, their queue, the task that sends them
    as steps of a system, and the receiver; which events are counted and which are lost.
  \<^item> \<open>Unified_Shm\<close> (\<open>unified_shm.rs\<close>): creating, opening and using the file; a reader that opens it sees exactly
    the newest write of each point, and the action writer stays out of measurement cells.
  \<^item> \<open>Snapshot\<close> (\<open>core/snapshot_save.rs\<close>, \<open>restore_from_snapshot\<close>): the snapshot file to the byte.
  \<^item> \<open>Routing\<close> (\<open>routing_cache.rs\<close>): parsing and printing of routes, the tables, reverse lookup, content hash.
  \<^item> \<open>Validation\<close> (\<open>libs/voltage-model/src/validation.rs\<close>): values and names.
  \<^item> \<open>Command_Path\<close> (\<open>notification.rs\<close>, \<open>notifier.rs\<close>, \<open>dispatch.rs\<close>, \<open>shm_listener.rs\<close>): a command from the
    dispatcher through the socket to the channel's queue.
  \<^item> \<open>Batch_Routing\<close>, \<open>Batch_Rule\<close>, \<open>Batch_Direct\<close> (\<open>batch.rs\<close>, \<open>batch_direct.rs\<close>): batches of readings with their
    C2C cascade; the contract \<open>batch_store\<close> gives the total-correctness rule of the recursion.
  \<^item> \<open>Key_Space\<close> (\<open>libs/voltage-model/src/keyspace.rs\<close>): the names of database keys; they never collide.
  \<^item> \<open>Memory_Rtdb\<close> (\<open>libs/voltage-rtdb/src/memory_impl.rs\<close>, \<open>numfmt.rs\<close>): the in-memory backend with every
    operation of the \<open>Rtdb\<close> trait; it interprets the contract \<open>hash_backend\<close> of the write buffer.
  \<^item> \<open>Cleanup\<close> (\<open>cleanup.rs\<close>, the two \<open>cleanup_provider.rs\<close>): exactly the keys of removed channels and
    instances are deleted.
  \<^item> \<open>Write_Buffer\<close> (\<open>write_buffer.rs\<close>, \<open>redis_store.rs\<close>): writers and flushers as an interleaving of steps; no
    accepted write is lost, and an orderly shutdown delivers them all.
  \<^item> \<open>Batch_Mirror\<close> (\<open>libs/voltage-rtdb/src/lib.rs\<close>, \<open>batch.rs\<close>): batches written into the hashes, directly or through
    the buffer (contract \<open>hash_sink\<close>); what the database holds afterwards.
  \<^item> \<open>Action_Route\<close> (\<open>libs/voltage-routing/src/lib.rs\<close>): what committing a set point stores.
  \<^item> \<open>Calc\<close> (\<open>libs/voltage-calc\<close>): state stores (contract \<open>lawful_store\<close>, interpreted for both), integration, moving
    average, rate of change, period difference, and the evaluation of formulas; evaluation returns, and an
    infinite total disables its variable.
  \<^item> \<open>Rule_Engine\<close> (\<open>libs/voltage-rules/src/types.rs\<close>, \<open>executor.rs\<close>, \<open>formula.rs\<close>, \<open>format_conditions\<close>): the model
    of a run of a rule: one definition for each function of the executor, a record \<open>exec_state\<close> for the
    local variables of \<open>execute\<close>, and the world (database, dispatcher, state store, clock) passed along.
  \<^item> \<open>Rule_Flow\<close>: a run visits each node at most once, follows only edges of the graph and ends without a panic (contract
    \<open>work_queue\<close>).
  \<^item> \<open>Rule_Actions\<close>: what an action that reports success has done, that missing readings never act, and
    where the reported input values of a node are out of date.

  \<^bold>\<open>Termination and bounds.\<close>  Every definition is total.  The cascade is a recursive function whose
  termination proof uses the number of route steps left, at most two; the work queue of a rule decreases the number
  of node visits left, at most a thousand, and then its length; loops over bytes of a stream decrease the
  stream.  No fuel is used anywhere.

  \<^bold>\<open>Not modelled.\<close>  Device protocols and HTTP handlers of the services, SQL and the Redis client, the scheduler,
  parser and repository of rules, logging and bootstrap, the command-line tools and the browser front end: they are
  input and output around third-party packages.  The expression engine, regular expressions, JSON texts and the
  calendar of \<open>voltage-calc\<close> and \<open>voltage-rules\<close> are third-party packages and parameters of the model.
\<close>

end
